(* ===== verification/Prelude.thy ===== *)
theory Prelude
  imports Main "HOL-Library.Word"
begin

unbundle bit_operations_syntax

text \<open>
  What every component shares: the widths of the C++ integers, bytes and byte strings, the
  failures a C++ call can end in, the byte order of integers in memory (the program runs on and
  relies on little-endian machines: \<open>appendLE\<close>, \<open>parseUIntLE\<close> and every cast of a struct
  pointer), and the correspondence between \<open>std::string\<close> and bytes.
\<close>

section \<open>Hint collections\<close>

named_theorems byte_simps \<open>equations that bring the byte routines to list functions\<close>
named_theorems le_simps \<open>little-endian reading and writing\<close>

section \<open>Machine types and failures\<close>

type_synonym u8 = "8 word"
type_synonym u16 = "16 word"
type_synonym u32 = "32 word"
type_synonym u64 = "64 word"

type_synonym bytes = "u8 list"

text \<open>
  The ways a call can fail to return. \<open>Runtime_error\<close> carries the fixed part of the message
  of the \<open>std::runtime_error\<close> that is thrown. \<open>Undefined\<close> marks a branch on which the
  C++ has undefined behaviour (an access out of range, a null dereference): no result is claimed
  there.
\<close>

datatype exn =
    Runtime_error string
  | Out_of_range string
  | Json_exception
  | Validation_error string
  | Parse_error string
  | Print_help
  | Undefined string

type_synonym 'a res = "exn + 'a"

definition rbind :: "'a res \<Rightarrow> ('a \<Rightarrow> 'b res) \<Rightarrow> 'b res" where
  "rbind r f = (case r of Inl e \<Rightarrow> Inl e | Inr x \<Rightarrow> f x)"

lemma rbind_Inl [simp]: "rbind (Inl e) f = Inl e"
  and rbind_Inr [simp]: "rbind (Inr x) f = f x"
  by (simp_all add: rbind_def)

lemma rbind_eq_Inr: "rbind r f = Inr y \<longleftrightarrow> (\<exists>x. r = Inr x \<and> f x = Inr y)"
  by (cases r) auto

lemma rbind_assoc: "rbind (rbind r f) g = rbind r (\<lambda>x. rbind (f x) g)"
  by (cases r) auto

text \<open>Running a fallible step over a list stops at the first failure, as a throw in a loop does.\<close>

fun rmap :: "('a \<Rightarrow> 'b res) \<Rightarrow> 'a list \<Rightarrow> 'b list res" where
  "rmap f [] = Inr []"
| "rmap f (x # xs) = rbind (f x) (\<lambda>y. rbind (rmap f xs) (\<lambda>ys. Inr (y # ys)))"

lemma rmap_Inr [simp]: "rmap (\<lambda>x. Inr (f x)) xs = Inr (map f xs)"
  by (induction xs) auto

lemma length_rmap: "rmap f xs = Inr ys \<Longrightarrow> length ys = length xs"
  by (induction xs arbitrary: ys) (auto simp: rbind_eq_Inr)

text \<open>
  A method that changes the state of its object and may throw: the state it leaves behind is there
  in both cases.
\<close>

type_synonym ('s, 'a) op = "'s \<Rightarrow> 'a res \<times> 's"

definition op_return :: "'a \<Rightarrow> ('s, 'a) op" where "op_return x s = (Inr x, s)"
definition op_throw :: "exn \<Rightarrow> ('s, 'a) op" where "op_throw e s = (Inl e, s)"
definition op_lift :: "'a res \<Rightarrow> ('s, 'a) op" where "op_lift r s = (r, s)"
definition op_get :: "('s \<Rightarrow> 'a) \<Rightarrow> ('s, 'a) op" where "op_get f s = (Inr (f s), s)"
definition op_set :: "('s \<Rightarrow> 's) \<Rightarrow> ('s, unit) op" where "op_set f s = (Inr (), f s)"

definition op_bind :: "('s, 'a) op \<Rightarrow> ('a \<Rightarrow> ('s, 'b) op) \<Rightarrow> ('s, 'b) op" where
  "op_bind m f s = (case m s of (Inl e, s') \<Rightarrow> (Inl e, s') | (Inr x, s') \<Rightarrow> f x s')"

lemma op_simps [simp]:
  "op_return x s = (Inr x, s)" "op_throw e s = (Inl e, s)" "op_lift r s = (r, s)"
  "op_get f s = (Inr (f s), s)" "op_set g s = (Inr (), g s)"
  by (simp_all add: op_return_def op_throw_def op_lift_def op_get_def op_set_def)

lemma op_bind_simps [simp]:
  "op_bind (op_return x) f s = f x s" "op_bind (op_throw e) f s = (Inl e, s)"
  "op_bind (op_get g) f s = f (g s) s"
  "op_bind (op_lift r) f s = (case r of Inl e \<Rightarrow> (Inl e, s) | Inr x \<Rightarrow> f x s)"
  and op_bind_set [simp]: "op_bind (op_set h) k s = k () (h s)"
  by (auto simp: op_bind_def split: sum.split)

text \<open>An invariant of the state every outcome of an operation keeps.\<close>

definition keeps :: "('s \<Rightarrow> bool) \<Rightarrow> ('s, 'a) op \<Rightarrow> bool" where
  "keeps P m \<longleftrightarrow> (\<forall>s. P s \<longrightarrow> P (snd (m s)))"

lemma keepsD: "keeps P m \<Longrightarrow> P s \<Longrightarrow> P (snd (m s))"
  by (simp add: keeps_def)

lemma keeps_pure [intro, simp]:
  "keeps P (op_return x)" "keeps P (op_throw e)" "keeps P (op_lift r)" "keeps P (op_get f)"
  by (simp_all add: keeps_def)

lemma keeps_set: "(\<And>s. P s \<Longrightarrow> P (f s)) \<Longrightarrow> keeps P (op_set f)"
  by (simp add: keeps_def)

lemma keeps_bind [intro]:
  "keeps P m \<Longrightarrow> (\<And>x. keeps P (f x)) \<Longrightarrow> keeps P (op_bind m f)"
  by (fastforce simp: keeps_def op_bind_def split: prod.split sum.split)

text \<open>\<open>std::to_string\<close>.\<close>

fun dec_string :: "nat \<Rightarrow> string" where
  "dec_string n =
     (if n < 10 then [char_of (48 + n)] else dec_string (n div 10) @ [char_of (48 + n mod 10)])"

declare dec_string.simps [simp del]

section \<open>Integers in memory\<close>

fun le_bytes :: "nat \<Rightarrow> nat \<Rightarrow> bytes" where
  "le_bytes 0 v = []"
| "le_bytes (Suc n) v = word_of_nat v # le_bytes n (v div 256)"

fun le_nat :: "bytes \<Rightarrow> nat" where
  "le_nat [] = 0"
| "le_nat (b # bs) = unat b + 256 * le_nat bs"

lemma unat_u8_bound: "unat (b :: u8) < 256"
  using unsigned_less [of b, where ?'a = nat] by simp

lemma unat_of_nat_u8: "unat (word_of_nat v :: u8) = v mod 256"
  by (simp add: unat_of_nat)

lemma length_le_bytes [simp]: "length (le_bytes n v) = n"
  by (induction n arbitrary: v) auto

lemma le_nat_bound: "le_nat bs < 256 ^ length bs"
proof (induction bs)
  case Nil
  show ?case by simp
next
  case (Cons b bs)
  have "unat b + 256 * le_nat bs < 256 + 256 * le_nat bs"
    by (simp add: unat_u8_bound)
  also have "\<dots> \<le> 256 * 256 ^ length bs"
    using Cons.IH by simp
  finally show ?case by simp
qed

lemma le_nat_le_bytes [le_simps]: "le_nat (le_bytes n v) = v mod 256 ^ n"
proof (induction n arbitrary: v)
  case 0
  show ?case by simp
next
  case (Suc n)
  have "le_nat (le_bytes (Suc n) v) = v mod 256 + 256 * (v div 256 mod 256 ^ n)"
    by (simp only: le_bytes.simps le_nat.simps unat_of_nat_u8 Suc.IH)
  also have "\<dots> = 256 * (v div 256 mod 256 ^ n) + v mod 256"
    by (rule add.commute)
  also have "\<dots> = v mod (256 * 256 ^ n)"
    by (rule mod_mult2_eq [symmetric])
  finally show ?case by (simp only: power_Suc)
qed

lemma le_bytes_le_nat [le_simps]: "le_bytes (length bs) (le_nat bs) = bs"
proof (induction bs)
  case Nil
  show ?case by simp
next
  case (Cons b bs)
  have "(unat b + 256 * le_nat bs) div 256 = le_nat bs"
    by (simp add: unat_u8_bound)
  moreover have "(word_of_nat (unat b + 256 * le_nat bs) :: u8) = b"
    by (rule word_unat_eq_iff [THEN iffD2])
      (simp only: unat_of_nat_u8 mod_mult_self2 mod_less unat_u8_bound)
  ultimately show ?case using Cons.IH by simp
qed

lemma le_bytes_mod: "le_bytes n (v mod 256 ^ n) = le_bytes n v"
  using le_bytes_le_nat [of "le_bytes n v"] by (simp add: le_nat_le_bytes)

lemma le_nat_append: "le_nat (xs @ ys) = le_nat xs + 256 ^ length xs * le_nat ys"
  by (induction xs) (simp_all add: algebra_simps)

lemma le_nat_zeros [simp]: "le_nat (replicate n 0) = 0"
  by (induction n) auto

lemma le_nat_inject: "length xs = length ys \<Longrightarrow> le_nat xs = le_nat ys \<Longrightarrow> xs = ys"
  by (metis le_bytes_le_nat)

text \<open>The object representation of the fixed-width integers.\<close>

definition u16_mem :: "u16 \<Rightarrow> bytes" where "u16_mem w = le_bytes 2 (unat w)"
definition u32_mem :: "u32 \<Rightarrow> bytes" where "u32_mem w = le_bytes 4 (unat w)"
definition u64_mem :: "u64 \<Rightarrow> bytes" where "u64_mem w = le_bytes 8 (unat w)"

definition mem_u32 :: "bytes \<Rightarrow> u32" where "mem_u32 bs = word_of_nat (le_nat bs)"
definition mem_u64 :: "bytes \<Rightarrow> u64" where "mem_u64 bs = word_of_nat (le_nat bs)"

lemma length_mem [simp]:
  "length (u16_mem x) = 2" "length (u32_mem y) = 4" "length (u64_mem z) = 8"
  by (simp_all add: u16_mem_def u32_mem_def u64_mem_def)

lemma mem_u32_u32_mem [le_simps]: "mem_u32 (u32_mem w) = w"
proof -
  have "unat w < 256 ^ 4" using unsigned_less [of w, where ?'a = nat] by simp
  then show ?thesis by (simp add: mem_u32_def u32_mem_def le_nat_le_bytes)
qed

lemma mem_u64_u64_mem [le_simps]: "mem_u64 (u64_mem w) = w"
proof -
  have "unat w < 256 ^ 8" using unsigned_less [of w, where ?'a = nat] by simp
  then show ?thesis by (simp add: mem_u64_def u64_mem_def le_nat_le_bytes)
qed

lemma u32_mem_mem_u32 [le_simps]: "length bs = 4 \<Longrightarrow> u32_mem (mem_u32 bs) = bs"
  using le_nat_bound [of bs] le_bytes_le_nat [of bs]
  by (simp add: u32_mem_def mem_u32_def unat_of_nat)

lemma u64_mem_mem_u64 [le_simps]: "length bs = 8 \<Longrightarrow> u64_mem (mem_u64 bs) = bs"
  using le_nat_bound [of bs] le_bytes_le_nat [of bs]
  by (simp add: u64_mem_def mem_u64_def unat_of_nat)

lemma u32_mem_inject [simp]: "u32_mem x = u32_mem y \<longleftrightarrow> x = y"
  by (metis mem_u32_u32_mem)

lemma u64_mem_inject [simp]: "u64_mem x = u64_mem y \<longleftrightarrow> x = y"
  by (metis mem_u64_u64_mem)

lemma unat_u32_small: "n < 2 ^ 32 \<Longrightarrow> unat (word_of_nat n :: u32) = n"
  by (simp add: unat_of_nat)

lemma u32_less_succ: "(n :: u32) \<noteq> - 1 \<Longrightarrow> n < n + 1"
proof -
  assume "n \<noteq> - 1"
  then have "1 + n \<noteq> 0" by (metis add_eq_0_iff)
  then show ?thesis by (simp add: word_less_nat_alt unatSuc add.commute)
qed

section \<open>Strings and bytes\<close>

definition byte_of_char :: "char \<Rightarrow> u8" where "byte_of_char c = word_of_nat (of_char c)"
definition char_of_byte :: "u8 \<Rightarrow> char" where "char_of_byte b = char_of (unat b)"

definition str_bytes :: "string \<Rightarrow> bytes" where "str_bytes s = map byte_of_char s"
definition bytes_str :: "bytes \<Rightarrow> string" where "bytes_str bs = map char_of_byte bs"

lemma char_of_byte_of_char [simp]: "char_of_byte (byte_of_char c) = c"
proof -
  have "of_char c < (256 :: nat)" by simp
  then show ?thesis by (simp add: char_of_byte_def byte_of_char_def unat_of_nat)
qed

lemma byte_of_char_of_byte [simp]: "byte_of_char (char_of_byte b) = b"
  using unat_u8_bound [of b] by (simp add: char_of_byte_def byte_of_char_def)

lemma bytes_str_str_bytes [simp]: "bytes_str (str_bytes s) = s"
  by (simp add: bytes_str_def str_bytes_def comp_def)

lemma str_bytes_bytes_str [simp]: "str_bytes (bytes_str bs) = bs"
  by (simp add: bytes_str_def str_bytes_def comp_def)

lemma length_str_bytes [simp]: "length (str_bytes s) = length s"
  and length_bytes_str [simp]: "length (bytes_str bs) = length bs"
  by (simp_all add: bytes_str_def str_bytes_def)

lemma str_bytes_inject [simp]: "str_bytes s = str_bytes t \<longleftrightarrow> s = t"
  by (metis bytes_str_str_bytes)

section \<open>Lists written by index\<close>

text \<open>A loop that assigns \<open>v[off + i] = f i\<close> for \<open>i\<close> below a bound.\<close>

definition store_loop :: "nat \<Rightarrow> nat \<Rightarrow> (nat \<Rightarrow> 'a) \<Rightarrow> 'a list \<Rightarrow> 'a list" where
  "store_loop off n f v = fold (\<lambda>i w. w[off + i := f i]) [0..<n] v"

lemma length_store_loop [simp]: "length (store_loop off n f v) = length v"
proof -
  have "length (fold (\<lambda>i w. w[off + i := f i]) is v) = length v" for "is"
    by (induction "is" arbitrary: v) auto
  then show ?thesis by (simp add: store_loop_def)
qed

lemma nth_store_loop:
  "k < length v \<Longrightarrow>
   store_loop off n f v ! k = (if off \<le> k \<and> k < off + n then f (k - off) else v ! k)"
proof (induction n)
  case 0
  show ?case by (auto simp: store_loop_def)
next
  case (Suc n)
  have "store_loop off (Suc n) f v = (store_loop off n f v)[off + n := f n]"
    by (simp add: store_loop_def)
  moreover have "(store_loop off n f v)[off + n := f n] ! k =
      (if k = off + n then f n else store_loop off n f v ! k)"
    using Suc.prems by (auto simp: nth_list_update)
  ultimately show ?case using Suc by auto
qed

end
