(* ===== verification/ByteStrings.thy ===== *)
theory ByteStrings
  imports Prelude
begin

text \<open>
  \<open>lib/util\<close>: \<open>ByteString\<close> (a \<open>std::vector<uint8_t>\<close>), \<open>ConstByteStringRef\<close> (a pointer and a
  length) and \<open>ByteStringReader\<close> (a reference that is advanced). A byte string is the list of its
  bytes. The routines that the code writes as loops over indices are written as such loops here,
  and then shown equal to the list function they compute.

  The locale \<open>prefix_code\<close> is the contract between a writer (\<open>operator<<\<close>, \<open>appendLE\<close>) and a
  reader (\<open>operator>>\<close>): what is written is read back, whatever follows it. \<open>codec\<close> adds that
  nothing else is accepted. The message formats of the later theories rest on them.
\<close>

section \<open>Appending, copying, reversing\<close>

definition append_ref :: "bytes \<Rightarrow> bytes \<Rightarrow> bytes" where
  "append_ref this toAppend =
     (let oldsize = length this in
      store_loop oldsize (length toAppend) (\<lambda>i. toAppend ! i)
        (this @ replicate (length toAppend) 0))"

text \<open>
  \<open>operator+=(const ByteString &)\<close> tells self-append by the addresses: \<open>same\<close> says that the
  argument is the object itself. \<open>memcpy\<close> of the first \<open>size\<close> bytes behind themselves.
\<close>

definition append_self :: "bytes \<Rightarrow> bytes" where
  "append_self this =
     (let size = length this; this' = this @ replicate size 0 in
      take size this' @ take size this')"

definition append_bs :: "bool \<Rightarrow> bytes \<Rightarrow> bytes \<Rightarrow> bytes" where
  "append_bs same this toAppend =
     (if \<not> same then append_ref this toAppend else append_self this)"

text \<open>\<open>operator=\<close> clears the object first and then appends the source to it.\<close>

definition assign_bs :: "bool \<Rightarrow> bytes \<Rightarrow> bytes \<Rightarrow> bytes" where
  "assign_bs same this source =
     (let this' = []; source' = (if same then this' else source) in append_bs same this' source')"

definition push_byte :: "bytes \<Rightarrow> u8 \<Rightarrow> bytes" where
  "push_byte this b = this @ [b]"

definition append_le16 :: "bytes \<Rightarrow> u16 \<Rightarrow> bytes" where
  "append_le16 this num = append_ref this (u16_mem num)"

definition append_le32 :: "bytes \<Rightarrow> u32 \<Rightarrow> bytes" where
  "append_le32 this num = append_ref this (u32_mem num)"

definition append_le64 :: "bytes \<Rightarrow> u64 \<Rightarrow> bytes" where
  "append_le64 this num = append_ref this (u64_mem num)"

definition reverse_bs :: "bytes \<Rightarrow> bytes" where
  "reverse_bs this =
     store_loop 0 (length this) (\<lambda>i. this ! (length this - 1 - i)) (replicate (length this) 0)"

lemma append_ref_eq [simp, byte_simps]: "append_ref this s = this @ s"
  by (rule nth_equalityI)
    (auto simp: append_ref_def Let_def nth_store_loop nth_append)

lemma append_self_eq [simp, byte_simps]: "append_self this = this @ this"
  by (simp add: append_self_def Let_def)

lemma append_bs_eq [simp, byte_simps]: "append_bs same this s = (if same then this @ this else this @ s)"
  by (simp add: append_bs_def)

lemma assign_bs_eq [simp, byte_simps]: "assign_bs same this s = (if same then [] else s)"
  by (simp add: assign_bs_def)

lemma reverse_bs_eq [simp, byte_simps]: "reverse_bs this = rev this"
  by (rule nth_equalityI) (auto simp: reverse_bs_def nth_store_loop rev_nth)

lemmas append_le_defs [byte_simps] = append_le16_def append_le32_def append_le64_def push_byte_def

section \<open>Hexadecimal text\<close>

definition to_raw1 :: "char \<Rightarrow> u8" where
  "to_raw1 hex =
     (let c = of_char hex :: nat in
      if 48 \<le> c \<and> c \<le> 57 then word_of_nat (c - 48)
      else if 97 \<le> c \<and> c \<le> 102 then word_of_nat (c - 97 + 10)
      else if 65 \<le> c \<and> c \<le> 70 then word_of_nat (c - 65 + 10)
      else 0)"

definition to_raw :: "char \<Rightarrow> char \<Rightarrow> u8" where
  "to_raw h0 h1 = push_bit 4 (to_raw1 h0) OR to_raw1 h1"

fun from_hex_pairs :: "string \<Rightarrow> bytes" where
  "from_hex_pairs (h0 # h1 # hex) = to_raw h0 h1 # from_hex_pairs hex"
| "from_hex_pairs _ = []"

definition from_hex :: "string \<Rightarrow> bytes" where
  "from_hex hex =
     (if length hex mod 2 \<noteq> 0 then to_raw1 (hd hex) # from_hex_pairs (tl hex)
      else from_hex_pairs hex)"

definition hex_alphabet :: string where
  "hex_alphabet = ''0123456789abcdef''"

definition hex_char :: "nat \<Rightarrow> char" where
  "hex_char d = hex_alphabet ! d"

definition hex_byte :: "u8 \<Rightarrow> string" where
  "hex_byte b = [hex_char (unat b div 16), hex_char (unat b mod 16)]"

fun hex_loop :: "int \<Rightarrow> char \<Rightarrow> nat \<Rightarrow> bytes \<Rightarrow> string" where
  "hex_loop groupSize delimiter pos [] = []"
| "hex_loop groupSize delimiter pos (b # bs) =
     (if groupSize > 0 \<and> pos \<noteq> 0 \<and> pos mod nat groupSize = 0 then [delimiter] else [])
     @ hex_byte b @ hex_loop groupSize delimiter (Suc pos) bs"

definition as_hex_pretty :: "bytes \<Rightarrow> string \<Rightarrow> string \<Rightarrow> int \<Rightarrow> char \<Rightarrow> string" where
  "as_hex_pretty this prefix postfix groupSize delimiter =
     prefix @ hex_loop groupSize delimiter 0 this @ postfix"

definition as_hex :: "bytes \<Rightarrow> string" where
  "as_hex this = as_hex_pretty this '''' '''' (-1) (CHR '' '')"

lemma as_hex_concat: "as_hex bs = concat (map hex_byte bs)"
proof -
  have "hex_loop (-1) d pos bs = concat (map hex_byte bs)" for d pos
    by (induction bs arbitrary: pos) auto
  then show ?thesis by (simp add: as_hex_def as_hex_pretty_def)
qed

lemma as_hex_simps [simp]:
  "as_hex [] = ''''" "as_hex (b # bs) = hex_byte b @ as_hex bs" "as_hex (xs @ ys) = as_hex xs @ as_hex ys"
  by (simp_all add: as_hex_concat)

lemma length_as_hex [simp]: "length (as_hex bs) = 2 * length bs"
  by (induction bs) (auto simp: hex_byte_def)

lemma to_raw1_hex_char: "d < 16 \<Longrightarrow> to_raw1 (hex_char d) = word_of_nat d"
proof -
  have "\<forall>d \<in> set [0..<16]. to_raw1 (hex_char d) = word_of_nat d"
    by code_simp
  then show "d < 16 \<Longrightarrow> to_raw1 (hex_char d) = word_of_nat d" by simp
qed

lemma nibbles_u8: "push_bit 4 (word_of_nat (unat b div 16)) OR word_of_nat (unat b mod 16) = (b :: u8)"
proof -
  have hi: "(word_of_nat (unat b div 16) :: u8) = drop_bit 4 b"
    by (rule word_unat_eq_iff [THEN iffD2])
      (use unat_u8_bound [of b] in \<open>simp add: unat_of_nat_u8 drop_bit_eq_div unat_div\<close>)
  have lo: "(word_of_nat (unat b mod 16) :: u8) = take_bit 4 b"
    by (rule word_unat_eq_iff [THEN iffD2])
      (simp add: unat_of_nat_u8 unsigned_take_bit_eq take_bit_eq_mod unat_mod)
  show ?thesis
    unfolding hi lo by (rule bit_eqI) (auto simp: bit_simps)
qed

lemma to_raw_hex_byte: "to_raw (hex_char (unat b div 16)) (hex_char (unat b mod 16)) = b"
  using unat_u8_bound [of b] nibbles_u8 [of b]
  by (simp add: to_raw_def to_raw1_hex_char less_mult_imp_div_less)

lemma from_hex_pairs_as_hex: "from_hex_pairs (as_hex bs) = bs"
  by (induction bs) (simp_all add: hex_byte_def to_raw_hex_byte)

lemma from_hex_as_hex [simp]: "from_hex (as_hex bs) = bs"
  by (simp add: from_hex_def from_hex_pairs_as_hex)

lemma length_from_hex: "length (from_hex hex) = (length hex + 1) div 2"
proof -
  have "length (from_hex_pairs h) = length h div 2" for h
    by (induction h rule: from_hex_pairs.induct) auto
  then show ?thesis
    by (cases hex) (simp_all add: from_hex_def mod2_eq_if)
qed

text \<open>The digits \<open>sprintf("%02x")\<close> writes; on such text \<open>fromHex\<close> loses nothing.\<close>

definition lower_hex :: "string \<Rightarrow> bool" where
  "lower_hex s = list_all (\<lambda>c. c \<in> set hex_alphabet) s"

lemma hex_byte_to_raw:
  assumes "lower_hex [h0, h1]"
  shows "hex_byte (to_raw h0 h1) = [h0, h1]"
proof -
  have *: "c \<in> set hex_alphabet \<Longrightarrow> \<exists>d<16. c = hex_char d \<and> to_raw1 c = word_of_nat d" for c
  proof -
    assume "c \<in> set hex_alphabet"
    then obtain d where "d < length hex_alphabet" "hex_alphabet ! d = c"
      unfolding in_set_conv_nth by blast
    then have "d < 16" "c = hex_char d" by (simp_all add: hex_char_def hex_alphabet_def)
    then show ?thesis using to_raw1_hex_char by blast
  qed
  from assms have "h0 \<in> set hex_alphabet" "h1 \<in> set hex_alphabet"
    by (simp_all add: lower_hex_def)
  from this [THEN *] obtain d e
    where d: "d < 16" "h0 = hex_char d" and e: "e < 16" "h1 = hex_char e" by blast
  define w :: u8 where "w = word_of_nat (16 * d + e)"
  have "16 * d + e < 256" using d e by simp
  then have "unat w = 16 * d + e"
    by (simp only: w_def unat_of_nat_u8 mod_less)
  then have w: "unat w div 16 = d" "unat w mod 16 = e" using e by auto
  then have "to_raw h0 h1 = w"
    using nibbles_u8 [of w] d e by (simp add: to_raw_def to_raw1_hex_char)
  with w d e show ?thesis by (simp add: hex_byte_def)
qed

lemma as_hex_from_hex:
  "lower_hex s \<Longrightarrow> even (length s) \<Longrightarrow> as_hex (from_hex s) = s"
proof -
  have "lower_hex s \<Longrightarrow> even (length s) \<Longrightarrow> as_hex (from_hex_pairs s) = s"
  proof (induction s rule: from_hex_pairs.induct)
    case (1 h0 h1 hex)
    then show ?case
      using hex_byte_to_raw [of h0 h1] by (simp add: lower_hex_def)
  qed auto
  then show "lower_hex s \<Longrightarrow> even (length s) \<Longrightarrow> as_hex (from_hex s) = s"
    by (simp add: from_hex_def even_iff_mod_2_eq_zero)
qed

lemma as_hex_inject [simp]: "as_hex x = as_hex y \<longleftrightarrow> x = y"
  by (metis from_hex_as_hex)

section \<open>Integers parsed from byte strings\<close>

definition parse_uint_le :: "nat \<Rightarrow> bytes \<Rightarrow> nat res" where
  "parse_uint_le sizeofT this =
     (if length this > sizeofT
      then Inl (Runtime_error ''Cannot parse raw value to little-endian integer'')
      else Inr (le_nat this))"

definition parse_uint_be :: "nat \<Rightarrow> bytes \<Rightarrow> nat res" where
  "parse_uint_be sizeofT this = parse_uint_le sizeofT (reverse_bs this)"

lemma parse_uint_le_bound: "parse_uint_le n bs = Inr v \<Longrightarrow> v < 256 ^ n"
  using le_nat_bound [of bs] power_increasing [of "length bs" n "256 :: nat"]
  by (auto simp: parse_uint_le_def intro: less_le_trans split: if_splits)

lemma parse_uint_le_le_bytes: "v < 256 ^ n \<Longrightarrow> parse_uint_le n (le_bytes n v) = Inr v"
  by (simp add: parse_uint_le_def le_nat_le_bytes)

lemma parse_uint_be_rev: "v < 256 ^ n \<Longrightarrow> parse_uint_be n (rev (le_bytes n v)) = Inr v"
  by (simp add: parse_uint_be_def parse_uint_le_le_bytes)

section \<open>Reading\<close>

text \<open>
  A \<open>ByteStringReader\<close> is the bytes it has not consumed. \<open>operator>>\<close> takes the pointer
  before \<open>advance\<close> and dereferences it after, so a short buffer throws before anything is read.
\<close>

definition reader_advance :: "bytes \<Rightarrow> nat \<Rightarrow> bytes res" where
  "reader_advance buffer amount =
     (if length buffer < amount
      then Inl (Runtime_error ''ByteStringReader: Attempted to read beyond end of buffer'')
      else Inr (drop amount buffer))"

definition reader_read :: "bytes \<Rightarrow> nat \<Rightarrow> (bytes \<times> bytes) res" where
  "reader_read buffer amount =
     rbind (reader_advance buffer amount) (\<lambda>buffer'. Inr (take amount buffer, buffer'))"

definition reader_u32 :: "bytes \<Rightarrow> (u32 \<times> bytes) res" where
  "reader_u32 buffer =
     rbind (reader_advance buffer 4) (\<lambda>buffer'. Inr (mem_u32 (take 4 buffer), buffer'))"

definition reader_string :: "bytes \<Rightarrow> (string \<times> bytes) res" where
  "reader_string buffer =
     rbind (reader_u32 buffer) (\<lambda>(size, buffer').
     rbind (reader_advance buffer' (unat size)) (\<lambda>buffer''.
     Inr (bytes_str (take (unat size) buffer'), buffer'')))"

definition reader_remaining :: "bytes \<Rightarrow> nat" where
  "reader_remaining buffer = length buffer"

text \<open>\<open>operator<<\<close>: a plain value by its object representation, a string behind its length.\<close>

definition write_u32 :: "bytes \<Rightarrow> u32 \<Rightarrow> bytes" where
  "write_u32 this v = append_ref this (u32_mem v)"

definition write_u64 :: "bytes \<Rightarrow> u64 \<Rightarrow> bytes" where
  "write_u64 this v = append_ref this (u64_mem v)"

definition write_ref :: "bytes \<Rightarrow> bytes \<Rightarrow> bytes" where
  "write_ref this toAppend =
     append_ref (write_u32 this (word_of_nat (length toAppend))) toAppend"

definition write_string :: "bytes \<Rightarrow> string \<Rightarrow> bytes" where
  "write_string this s = write_ref this (str_bytes s)"

lemma write_eqs [byte_simps]:
  "write_u32 this v = this @ u32_mem v"
  "write_u64 this w = this @ u64_mem w"
  "write_ref this bs = this @ u32_mem (word_of_nat (length bs)) @ bs"
  "write_string this s = this @ u32_mem (word_of_nat (length s)) @ str_bytes s"
  by (simp_all add: write_u32_def write_u64_def write_ref_def write_string_def)

section \<open>The contract of writers and readers\<close>

locale prefix_code =
  fixes enc :: "'a \<Rightarrow> bytes"
    and dec :: "bytes \<Rightarrow> ('a \<times> bytes) res"
    and ok :: "'a \<Rightarrow> bool"
  assumes dec_enc: "ok x \<Longrightarrow> dec (enc x @ rest) = Inr (x, rest)"
begin

lemma prefix_free:
  "ok x \<Longrightarrow> ok y \<Longrightarrow> enc x @ r = enc y @ s \<Longrightarrow> x = y \<and> r = s"
  by (metis dec_enc Pair_inject sum.inject(2))

lemma enc_inject: "ok x \<Longrightarrow> ok y \<Longrightarrow> enc x = enc y \<longleftrightarrow> x = y"
  using prefix_free [of x y "[]" "[]"] by auto

lemma encs_inject:
  "length xs = length ys \<Longrightarrow> list_all ok xs \<Longrightarrow> list_all ok ys \<Longrightarrow>
   concat (map enc xs) @ r = concat (map enc ys) @ s \<Longrightarrow> xs = ys \<and> r = s"
proof (induction xs ys rule: list_induct2)
  case Nil
  then show ?case by simp
next
  case (Cons x xs y ys)
  then show ?case using prefix_free [of x y] by auto
qed

end

text \<open>A reader that accepts nothing but what the writer writes.\<close>

locale codec = prefix_code enc dec ok
  for enc :: "'a \<Rightarrow> bytes" and dec :: "bytes \<Rightarrow> ('a \<times> bytes) res" and ok :: "'a \<Rightarrow> bool" +
  assumes dec_only: "dec bs = Inr (x, rest) \<Longrightarrow> ok x \<and> bs = enc x @ rest"
begin

lemma dec_iff: "dec bs = Inr (x, rest) \<longleftrightarrow> ok x \<and> bs = enc x @ rest"
  using dec_enc dec_only by blast

lemma dec_length: "dec bs = Inr (x, rest) \<Longrightarrow> length bs = length (enc x) + length rest"
  by (auto dest: dec_only)

lemma dec_extend: "dec bs = Inr (x, rest) \<Longrightarrow> dec (bs @ more) = Inr (x, rest @ more)"
  using dec_enc dec_only by fastforce

end

text \<open>Two codecs in a row: one value behind the other.\<close>

locale codec_pair = fst: codec enc dec ok + snd: codec enc' dec' ok'
  for enc :: "'a \<Rightarrow> bytes" and dec and ok
    and enc' :: "'b \<Rightarrow> bytes" and dec' and ok'

sublocale codec_pair \<subseteq> both: codec
  "\<lambda>(x, y). enc x @ enc' y"
  "\<lambda>bs. rbind (dec bs) (\<lambda>(x, r). rbind (dec' r) (\<lambda>(y, s). Inr ((x, y), s)))"
  "\<lambda>(x, y). ok x \<and> ok' y"
proof unfold_locales
  fix x :: "'a \<times> 'b" and rest
  assume "case x of (x, y) \<Rightarrow> ok x \<and> ok' y"
  then show "rbind (dec ((case x of (x, y) \<Rightarrow> enc x @ enc' y) @ rest))
      (\<lambda>(x, r). rbind (dec' r) (\<lambda>(y, s). Inr ((x, y), s))) = Inr (x, rest)"
    by (auto simp: fst.dec_enc snd.dec_enc split: prod.splits)
next
  fix bs rest and x :: "'a \<times> 'b"
  assume "rbind (dec bs) (\<lambda>(x, r). rbind (dec' r) (\<lambda>(y, s). Inr ((x, y), s))) = Inr (x, rest)"
  then show "(case x of (x, y) \<Rightarrow> ok x \<and> ok' y) \<and> bs = (case x of (x, y) \<Rightarrow> enc x @ enc' y) @ rest"
    by (auto simp: rbind_eq_Inr fst.dec_iff snd.dec_iff)
qed

text \<open>The readers of the code against its writers.\<close>

lemma reader_u32_eq: "reader_u32 (u32_mem v @ rest) = Inr (v, rest)"
  by (simp add: reader_u32_def reader_advance_def le_simps)

lemma reader_u32_only: "reader_u32 bs = Inr (v, rest) \<Longrightarrow> bs = u32_mem v @ rest"
proof -
  assume "reader_u32 bs = Inr (v, rest)"
  then have "4 \<le> length bs" "v = mem_u32 (take 4 bs)" "rest = drop 4 bs"
    by (auto simp: reader_u32_def reader_advance_def split: if_splits)
  then show "bs = u32_mem v @ rest"
    by (simp add: u32_mem_mem_u32)
qed

interpretation u32_codec: codec u32_mem reader_u32 "\<lambda>_. True"
  by unfold_locales (simp_all add: reader_u32_eq reader_u32_only)

definition short_string :: "string \<Rightarrow> bool" where
  "short_string s \<longleftrightarrow> length s < 2 ^ 32"

interpretation string_codec: codec "write_string []" reader_string short_string
proof unfold_locales
  fix s rest
  assume "short_string s"
  then have "unat (word_of_nat (length s) :: u32) = length s"
    by (simp add: short_string_def unat_of_nat)
  then show "reader_string (write_string [] s @ rest) = Inr (s, rest)"
    by (simp add: reader_string_def write_eqs reader_u32_eq reader_advance_def)
next
  fix bs s rest
  assume "reader_string bs = Inr (s, rest)"
  then obtain n buf where n: "bs = u32_mem n @ buf" and len: "unat n \<le> length buf"
      and s: "s = bytes_str (take (unat n) buf)" and rest: "rest = drop (unat n) buf"
    by (auto simp: reader_string_def rbind_eq_Inr u32_codec.dec_iff reader_advance_def split: if_splits)
  from len s have "length s = unat n" by simp
  moreover have "unat n < 2 ^ 32" using unsigned_less [of n, where ?'a = nat] by simp
  ultimately show "short_string s \<and> bs = write_string [] s @ rest"
    using n s rest by (simp add: short_string_def write_eqs)
qed

end
