(* ===== verification/Sync.thy ===== *)
theory Sync
  imports Prelude
begin

text \<open>
  Queues between threads, threads and the log level (\<open>lib/util/Queue.h\<close>, \<open>WorkerThread.h\<close>,
  \<open>Thread\<close>, \<open>logger\<close>). A lock makes the code under it one step; what can happen between two steps
  of one thread is part of the state.
\<close>

section \<open>The queue\<close>

record 'a queue =
  q_semaphore :: nat
  q_items :: "'a list"

definition queue_new :: "'a queue" where
  "queue_new = \<lparr>q_semaphore = 0, q_items = []\<rparr>"

definition queue_push :: "'a \<Rightarrow> 'a queue \<Rightarrow> 'a queue" where
  "queue_push object q = q\<lparr>q_semaphore := q_semaphore q + 1, q_items := q_items q @ [object]\<rparr>"

definition messages_waiting :: "'a queue \<Rightarrow> nat" where "messages_waiting q = q_semaphore q"
definition has_message :: "'a queue \<Rightarrow> bool" where "has_message q \<longleftrightarrow> messages_waiting q > 0"

text \<open>\<open>sem_wait\<close> blocks while the semaphore is zero.\<close>

definition sem_wait :: "'a queue \<Rightarrow> 'a queue option" where
  "sem_wait q = (if q_semaphore q = 0 then None else Some (q\<lparr>q_semaphore := q_semaphore q - 1\<rparr>))"

text \<open>The part under the lock: the first message out, the others moved one place forward.\<close>

definition shift_down :: "'a list \<Rightarrow> 'a list" where
  "shift_down items = butlast (fold (\<lambda>i v. v[i - 1 := v ! i]) [1..<length items] items)"

definition take_first :: "('a queue, 'a) op" where
  "take_first q =
     (case q_items q of
        [] \<Rightarrow> (Inl (Undefined ''_queue[0]''), q)
      | message # _ \<Rightarrow> (Inr message, q\<lparr>q_items := shift_down (q_items q)\<rparr>))"

definition wait_for_message :: "'a queue \<Rightarrow> ('a res \<times> 'a queue) option" where
  "wait_for_message q = map_option take_first (sem_wait q)"

lemma shift_loop:
  "k < length items \<Longrightarrow>
   fold (\<lambda>i v. v[i - 1 := v ! i]) [1..<Suc k] items = take k (tl items) @ drop k items"
proof (induction k)
  case (Suc k)
  let ?v = "take k (tl items) @ drop k items"
  have len: "length (take k (tl items)) = k" using Suc.prems by simp
  have d: "drop k items = items ! k # items ! Suc k # drop (Suc (Suc k)) items"
    using Suc.prems by (metis Cons_nth_drop_Suc Suc_lessD)
  have "?v ! Suc k = items ! Suc k" using len by (simp add: nth_append d)
  moreover have "?v[k := x] = take k (tl items) @ x # items ! Suc k # drop (Suc (Suc k)) items" for x
    using len by (simp add: list_update_append d)
  moreover have "take (Suc k) (tl items) = take k (tl items) @ [items ! Suc k]"
    using Suc.prems by (simp add: take_Suc_conv_app_nth nth_tl)
  moreover have "drop (Suc k) items = items ! Suc k # drop (Suc (Suc k)) items"
    using Suc.prems by (simp add: Cons_nth_drop_Suc)
  ultimately show ?case using Suc by simp
qed simp

lemma shift_down_eq: "shift_down items = tl items"
proof (cases items rule: rev_cases)
  case Nil
  then show ?thesis by (simp add: shift_down_def)
next
  case (snoc xs x)
  then have "fold (\<lambda>i v. v[i - 1 := v ! i]) [1..<length items] items = tl items @ [x]"
    using shift_loop [of "length xs" items] by (cases xs) auto
  then show ?thesis by (simp add: shift_down_def)
qed

lemma wait_for_message_eq:
  "wait_for_message q =
     (if q_semaphore q = 0 then None
      else Some (case q_items q of
          [] \<Rightarrow> (Inl (Undefined ''_queue[0]''), q\<lparr>q_semaphore := q_semaphore q - 1\<rparr>)
        | x # xs \<Rightarrow> (Inr x, q\<lparr>q_semaphore := q_semaphore q - 1, q_items := xs\<rparr>)))"
  by (auto simp: wait_for_message_def sem_wait_def take_first_def shift_down_eq split: list.split)

text \<open>Between calls the semaphore counts the messages.\<close>

definition queue_ok :: "'a queue \<Rightarrow> bool" where
  "queue_ok q \<longleftrightarrow> q_semaphore q = length (q_items q)"

section \<open>First in, first out\<close>

text \<open>
  What a client of a queue relies on. \<open>deq\<close> is \<open>None\<close> when the caller has to wait; \<open>items\<close> is what
  is in the queue, in order.
\<close>

locale fifo =
  fixes empty :: 'q
    and enq :: "'a \<Rightarrow> 'q \<Rightarrow> 'q"
    and deq :: "'q \<Rightarrow> ('a res \<times> 'q) option"
    and ok :: "'q \<Rightarrow> bool"
    and items :: "'q \<Rightarrow> 'a list"
  assumes ok_empty: "ok empty" and items_empty: "items empty = []"
    and ok_enq: "ok q \<Longrightarrow> ok (enq x q)" and items_enq: "ok q \<Longrightarrow> items (enq x q) = items q @ [x]"
    and deq_None: "ok q \<Longrightarrow> deq q = None \<longleftrightarrow> items q = []"
    and deq_Some: "ok q \<Longrightarrow> deq q = Some (r, q') \<Longrightarrow>
      \<exists>x. r = Inr x \<and> items q = x # items q' \<and> ok q'"
begin

fun enqs :: "'a list \<Rightarrow> 'q \<Rightarrow> 'q" where
  "enqs [] q = q"
| "enqs (x # xs) q = enqs xs (enq x q)"

fun deqs :: "nat \<Rightarrow> 'q \<Rightarrow> 'a res list \<times> 'q" where
  "deqs 0 q = ([], q)"
| "deqs (Suc n) q =
     (case deq q of
        None \<Rightarrow> ([], q)
      | Some (r, q') \<Rightarrow> (case deqs n q' of (rs, q'') \<Rightarrow> (r # rs, q'')))"

lemma enqs_items: "ok q \<Longrightarrow> ok (enqs xs q) \<and> items (enqs xs q) = items q @ xs"
  by (induction xs arbitrary: q) (simp_all add: ok_enq items_enq)

lemma deqs_items:
  "ok q \<Longrightarrow> fst (deqs n q) = map Inr (take n (items q)) \<and>
    ok (snd (deqs n q)) \<and> items (snd (deqs n q)) = drop n (items q)"
proof (induction n arbitrary: q)
  case (Suc n)
  show ?case
  proof (cases "deq q")
    case None
    with deq_None [OF Suc.prems] Suc.prems show ?thesis by simp
  next
    case (Some rq)
    obtain r q' where rq: "rq = (r, q')" by fastforce
    from deq_Some [OF Suc.prems] Some rq obtain x where
      "r = Inr x" "items q = x # items q'" "ok q'" by blast
    with Suc.IH [of q'] Some rq show ?thesis by (auto split: prod.split)
  qed
qed simp

text \<open>What was put in comes out, all of it, in that order, and never an error.\<close>

lemma through: "fst (deqs (length xs) (enqs xs empty)) = map Inr xs"
  using deqs_items [of "enqs xs empty" "length xs"] enqs_items [OF ok_empty, of xs]
  by (simp add: items_empty)

end

interpretation queue_fifo: fifo queue_new queue_push wait_for_message queue_ok q_items
proof unfold_locales
  fix q :: "'a queue" and r q'
  assume ok: "queue_ok q" and wait: "wait_for_message q = Some (r, q')"
  then show "\<exists>x. r = Inr x \<and> q_items q = x # q_items q' \<and> queue_ok q'"
    by (cases "q_items q") (auto simp: wait_for_message_eq queue_ok_def split: if_splits)
next
  fix q :: "'a queue"
  assume "queue_ok q"
  then show "wait_for_message q = None \<longleftrightarrow> q_items q = []"
    by (simp add: wait_for_message_eq queue_ok_def)
qed (simp_all add: queue_ok_def queue_new_def queue_push_def)

section \<open>Workers\<close>

text \<open>
  \<open>WorkerThread::main\<close> for the messages that are there: it ends waiting, or in an exception of
  \<open>processEvent\<close>.
\<close>

fun worker_main :: "('a \<Rightarrow> ('s, unit) op) \<Rightarrow> nat \<Rightarrow> 'a queue \<Rightarrow> 's \<Rightarrow> unit res \<times> 'a queue \<times> 's" where
  "worker_main processEvent 0 q s = (Inr (), q, s)"
| "worker_main processEvent (Suc n) q s =
     (case wait_for_message q of
        None \<Rightarrow> (Inr (), q, s)
      | Some (Inl e, q') \<Rightarrow> (Inl e, q', s)
      | Some (Inr event, q') \<Rightarrow>
          (case processEvent event s of
             (Inl e, s') \<Rightarrow> (Inl e, q', s')
           | (Inr _, s') \<Rightarrow> worker_main processEvent n q' s'))"

fun process_all :: "('a \<Rightarrow> ('s, unit) op) \<Rightarrow> 'a list \<Rightarrow> ('s, unit) op" where
  "process_all processEvent [] s = (Inr (), s)"
| "process_all processEvent (x # xs) s = op_bind (processEvent x) (\<lambda>_. process_all processEvent xs) s"

lemma worker_main_in_order:
  "queue_ok q \<Longrightarrow> length (q_items q) \<le> n \<Longrightarrow>
   (case worker_main f n q s of (r, q', s') \<Rightarrow> (r, s')) = process_all f (q_items q) s"
proof (induction n arbitrary: q s)
  case (Suc n)
  show ?case
  proof (cases "q_items q")
    case Nil
    with Suc.prems show ?thesis by (simp add: wait_for_message_eq queue_ok_def)
  next
    case (Cons x xs)
    let ?q = "q\<lparr>q_semaphore := q_semaphore q - 1, q_items := xs\<rparr>"
    have wait: "wait_for_message q = Some (Inr x, ?q)"
      using Suc.prems Cons by (simp add: wait_for_message_eq queue_ok_def)
    have "queue_ok ?q" "length (q_items ?q) \<le> n" using Suc.prems Cons by (simp_all add: queue_ok_def)
    note IH = Suc.IH [OF this]
    obtain r s2 where run: "f x s = (r, s2)" by fastforce
    with IH [of s2] wait Cons show ?thesis by (cases r) (simp_all add: op_bind_def)
  qed
qed (simp add: queue_ok_def)

section \<open>Producers and consumers\<close>

text \<open>
  Any number of threads at once: a consumer that has passed \<open>sem_wait\<close> has not yet got the lock.
  \<open>claims\<close> counts those; \<open>sent\<close> and \<open>received\<close> are the messages of the past.
\<close>

record 'a traffic =
  t_queue :: "'a queue"
  t_claims :: nat
  t_sent :: "'a list"
  t_received :: "'a res list"

definition traffic_new :: "'a traffic" where
  "traffic_new = \<lparr>t_queue = queue_new, t_claims = 0, t_sent = [], t_received = []\<rparr>"

inductive traffic_step :: "'a traffic \<Rightarrow> 'a traffic \<Rightarrow> bool" where
  push: "traffic_step t (t\<lparr>t_queue := queue_push x (t_queue t), t_sent := t_sent t @ [x]\<rparr>)"
| claim: "sem_wait (t_queue t) = Some q \<Longrightarrow>
    traffic_step t (t\<lparr>t_queue := q, t_claims := t_claims t + 1\<rparr>)"
| take: "0 < t_claims t \<Longrightarrow> take_first (t_queue t) = (r, q) \<Longrightarrow>
    traffic_step t (t\<lparr>t_queue := q, t_claims := t_claims t - 1, t_received := t_received t @ [r]\<rparr>)"

inductive_cases traffic_stepE: "traffic_step t t'"

inductive traffic_reachable :: "'a traffic \<Rightarrow> bool" where
  start: "traffic_reachable traffic_new"
| step: "traffic_reachable t \<Longrightarrow> traffic_step t t' \<Longrightarrow> traffic_reachable t'"

definition traffic_inv :: "'a traffic \<Rightarrow> bool" where
  "traffic_inv t \<longleftrightarrow>
     q_semaphore (t_queue t) + t_claims t = length (q_items (t_queue t)) \<and>
     map Inr (t_sent t) = t_received t @ map Inr (q_items (t_queue t))"

lemma traffic_inv_step: "traffic_inv t \<Longrightarrow> traffic_step t t' \<Longrightarrow> traffic_inv t'"
  by (erule traffic_stepE)
    (auto simp: traffic_inv_def queue_push_def sem_wait_def take_first_def shift_down_eq
      split: if_splits list.splits)

lemma traffic_reachable_inv: "traffic_reachable t \<Longrightarrow> traffic_inv t"
proof (induction rule: traffic_reachable.induct)
  case start
  show ?case by (simp add: traffic_inv_def traffic_new_def queue_new_def)
next
  case (step t t')
  then show ?case by (blast intro: traffic_inv_step)
qed

section \<open>Threads\<close>

datatype thread_state = Failed_to_start | Waiting_to_start | Running | Stopped | Terminating

text \<open>
  A thread object with the thread it created: where that thread is in \<open>entrypoint()\<close>, who holds the
  lock it blocks on, and how often \<open>main()\<close> was entered. \<open>Not_created\<close> is that
  \<open>pthread_create\<close> failed.
\<close>

datatype thread_progress = Not_created | Blocked | In_main | In_cleanup | Finished

record thread =
  th_state :: thread_state
  th_lockHeld :: bool
  th_progress :: thread_progress
  th_mains :: nat

text \<open>
  The constructor. \<open>initializationCallback\<close> is virtual, but a constructor calls the method of its own
  class: it throws for every error, and the object does not come to be.
\<close>

definition initialization_callback :: "int \<Rightarrow> unit res" where
  "initialization_callback errorCode =
     (if errorCode \<noteq> 0 then Inl (Runtime_error ''Failed to initialize critical thread'') else Inr ())"

definition thread_new :: "int \<Rightarrow> thread res" where
  "thread_new result =
     (let t = \<lparr>th_state = Failed_to_start, th_lockHeld = True, th_progress = Not_created, th_mains = 0\<rparr>
      in if result \<noteq> 0
         then rbind (initialization_callback result) (\<lambda>_. Inr (t\<lparr>th_lockHeld := False\<rparr>))
         else
           let t' = t\<lparr>th_progress := Blocked\<rparr>
           in rbind (initialization_callback 0) (\<lambda>_. Inr (t'\<lparr>th_state := Waiting_to_start\<rparr>)))"

definition thread_start :: "thread \<Rightarrow> thread" where
  "thread_start t =
     (if th_state t = Waiting_to_start then t\<lparr>th_state := Running, th_lockHeld := False\<rparr> else t)"

text \<open>\<open>isOwn\<close>: the caller is the thread itself.\<close>

definition thread_set_own_state :: "bool \<Rightarrow> thread_state \<Rightarrow> thread \<Rightarrow> thread" where
  "thread_set_own_state isOwn state t = (if \<not> isOwn then t else t\<lparr>th_state := state\<rparr>)"

text \<open>The steps of \<open>entrypoint()\<close>: the lock, \<open>main\<close> and its return, \<open>cleanupCallback\<close>.\<close>

definition entry_lock :: "thread \<Rightarrow> thread option" where
  "entry_lock t =
     (if th_progress t = Blocked \<and> \<not> th_lockHeld t
      then Some (t\<lparr>th_progress := In_main, th_mains := th_mains t + 1\<rparr>) else None)"

definition entry_main_returned :: "thread \<Rightarrow> thread option" where
  "entry_main_returned t =
     (if th_progress t = In_main
      then Some (t\<lparr>th_state := Terminating, th_progress := In_cleanup\<rparr>) else None)"

definition entry_cleaned_up :: "thread \<Rightarrow> thread option" where
  "entry_cleaned_up t =
     (if th_progress t = In_cleanup then Some (t\<lparr>th_progress := Finished\<rparr>) else None)"

text \<open>The destructor cancels the thread, and starts one that waits so that it can be cancelled.\<close>

definition thread_destroy :: "thread \<Rightarrow> thread \<times> bool" where
  "thread_destroy t =
     (if th_state t \<noteq> Terminating
      then (if th_state t = Waiting_to_start then thread_start t else t, True)
      else (t, False))"

text \<open>The thread runs its own code (and may set its own state there) only inside \<open>main\<close> and the cleanup.\<close>

inductive thread_step :: "thread \<Rightarrow> thread \<Rightarrow> bool" where
  start: "thread_step t (thread_start t)"
| lock: "entry_lock t = Some t' \<Longrightarrow> thread_step t t'"
| returned: "entry_main_returned t = Some t' \<Longrightarrow> thread_step t t'"
| cleaned: "entry_cleaned_up t = Some t' \<Longrightarrow> thread_step t t'"
| own: "th_progress t = In_main \<or> th_progress t = In_cleanup \<Longrightarrow> s \<noteq> Waiting_to_start \<Longrightarrow>
    thread_step t (thread_set_own_state True s t)"
| other: "thread_step t (thread_set_own_state False s t)"

inductive_cases thread_stepE: "thread_step t t'"

inductive thread_reachable :: "thread \<Rightarrow> bool" where
  created: "thread_new result = Inr t \<Longrightarrow> thread_reachable t"
| step: "thread_reachable t \<Longrightarrow> thread_step t t' \<Longrightarrow> thread_reachable t'"

definition thread_inv :: "thread \<Rightarrow> bool" where
  "thread_inv t \<longleftrightarrow>
     th_progress t \<noteq> Not_created \<and>
     (th_lockHeld t \<longleftrightarrow> th_state t = Waiting_to_start) \<and>
     (th_lockHeld t \<longrightarrow> th_progress t = Blocked) \<and>
     th_mains t = (if th_progress t = Blocked then 0 else 1)"

lemma thread_new_inv: "thread_new result = Inr t \<Longrightarrow> thread_inv t \<and> result = 0"
  by (auto simp: thread_new_def initialization_callback_def thread_inv_def Let_def split: if_splits)

lemma thread_inv_step: "thread_inv t \<Longrightarrow> thread_step t t' \<Longrightarrow> thread_inv t'"
  by (erule thread_stepE)
    (auto simp: thread_inv_def thread_start_def entry_lock_def entry_main_returned_def
      entry_cleaned_up_def thread_set_own_state_def split: if_splits)

lemma thread_reachable_inv: "thread_reachable t \<Longrightarrow> thread_inv t"
  by (induction rule: thread_reachable.induct) (auto dest: thread_new_inv intro: thread_inv_step)

section \<open>The log level\<close>

datatype log_level = DEBUG | INFO | WARNING | ERROR | CRITICAL

fun level_value :: "log_level \<Rightarrow> nat" where
  "level_value DEBUG = 0" | "level_value INFO = 1" | "level_value WARNING = 2"
| "level_value ERROR = 3" | "level_value CRITICAL = 4"

lemma level_value_inject: "level_value x = level_value y \<Longrightarrow> x = y"
  by (cases x; cases y) auto

instantiation log_level :: linorder
begin

definition less_eq_log_level :: "log_level \<Rightarrow> log_level \<Rightarrow> bool" where
  "less_eq_log_level x y \<longleftrightarrow> level_value x \<le> level_value y"

definition less_log_level :: "log_level \<Rightarrow> log_level \<Rightarrow> bool" where
  "less_log_level x y \<longleftrightarrow> level_value x < level_value y"

instance
  by intro_classes (auto simp: less_eq_log_level_def less_log_level_def dest: level_value_inject)

end

text \<open>What \<open>mlog\<close> hands on, and what of it \<open>log_raw\<close> writes.\<close>

definition mlog_calls :: "log_level \<Rightarrow> log_level \<Rightarrow> bool" where
  "mlog_calls moduleLevel level \<longleftrightarrow> moduleLevel \<le> level"

definition log_raw_writes :: "log_level \<Rightarrow> log_level \<Rightarrow> bool" where
  "log_raw_writes loglevel level \<longleftrightarrow> (if level < loglevel then False else True)"

lemma logged_iff: "mlog_calls m l \<and> log_raw_writes g l \<longleftrightarrow> max m g \<le> l"
  by (auto simp: mlog_calls_def log_raw_writes_def)

text \<open>\<open>log_raw\<close>: what goes to \<open>stderr\<close>. The time and the formatted text are given; the lock makes it one step.\<close>

record logger =
  lg_level :: log_level
  lg_inited :: bool
  lg_stderr :: string

definition log_line :: "string \<Rightarrow> string option \<Rightarrow> string \<Rightarrow> string \<Rightarrow> string" where
  "log_line timestamp module level_s text =
     timestamp @ '': '' @ (case module of None \<Rightarrow> '''' | Some m \<Rightarrow> ''<'' @ m @ ''> '') @ level_s @ '': '' @ text @ [CHR 0x0A]"

definition log_raw :: "string \<Rightarrow> string option \<Rightarrow> string \<Rightarrow> log_level \<Rightarrow> string \<Rightarrow> logger \<Rightarrow> logger" where
  "log_raw timestamp module level_s level text lg =
     (let lg = lg\<lparr>lg_inited := True\<rparr> in
      if \<not> log_raw_writes (lg_level lg) level then lg
      else lg\<lparr>lg_stderr := lg_stderr lg @ log_line timestamp module level_s text\<rparr>)"

definition mlog ::
  "log_level \<Rightarrow> string \<Rightarrow> string \<Rightarrow> string \<Rightarrow> log_level \<Rightarrow> string \<Rightarrow> logger \<Rightarrow> logger" where
  "mlog moduleLevel timestamp module level_s level text lg =
     (if mlog_calls moduleLevel level then log_raw timestamp (Some module) level_s level text lg else lg)"

text \<open>A message is one line of the log, or none, by the higher of the two levels.\<close>

lemma mlog_writes:
  assumes "CHR 0x0A \<notin> set (timestamp @ module @ level_s @ text)"
  shows "filter (\<lambda>c. c = CHR 0x0A) (lg_stderr (mlog m timestamp module level_s level text lg)) =
    filter (\<lambda>c. c = CHR 0x0A) (lg_stderr lg) @ (if max m (lg_level lg) \<le> level then [CHR 0x0A] else [])"
proof -
  have none: "filter (\<lambda>c. c = CHR 0x0A) xs = []" if "CHR 0x0A \<notin> set xs" for xs :: string
    using that by (induction xs) auto
  show ?thesis
    using assms logged_iff [of m level "lg_level lg"]
    by (auto simp: mlog_def log_raw_def log_line_def Let_def none)
qed

end
