(* ===== verification/Sockets.thy ===== *)
theory Sockets
  imports ByteStrings Sync
begin

text \<open>
  Sockets and connections (\<open>lib/socket\<close>). The operating system answers from a list: the results of
  \<open>write\<close> and \<open>read\<close> and of attempts to connect, in order. Descriptors are \<open>int\<close>s, closed ones are
  kept in the order they were closed.
\<close>

section \<open>Owning a descriptor\<close>

record socket_base =
  sb_fd :: int

definition socket_base_new :: "int \<Rightarrow> socket_base" where
  "socket_base_new fd = \<lparr>sb_fd = fd\<rparr>"

text \<open>The moving constructor: the new object and what is left of the old one.\<close>

definition socket_base_move :: "socket_base \<Rightarrow> socket_base \<times> socket_base" where
  "socket_base_move source = (\<lparr>sb_fd = sb_fd source\<rparr>, source\<lparr>sb_fd := - 1\<rparr>)"

definition connected :: "socket_base \<Rightarrow> bool" where
  "connected s \<longleftrightarrow> sb_fd s \<ge> 0"

definition socket_base_close :: "socket_base \<Rightarrow> int list \<Rightarrow> socket_base \<times> int list" where
  "socket_base_close s closed =
     (if connected s then (s\<lparr>sb_fd := - 1\<rparr>, closed @ [sb_fd s]) else (s, closed))"

text \<open>A descriptor that is passed on from object to object, all of which are destroyed at some time.\<close>

fun pass_on :: "nat \<Rightarrow> socket_base \<Rightarrow> socket_base list" where
  "pass_on 0 s = [s]"
| "pass_on (Suc n) s = (case socket_base_move s of (new, old) \<Rightarrow> old # pass_on n new)"

fun destroy_all :: "socket_base list \<Rightarrow> int list \<Rightarrow> int list" where
  "destroy_all [] closed = closed"
| "destroy_all (s # ss) closed = destroy_all ss (snd (socket_base_close s closed))"

lemma destroy_passed_on:
  "destroy_all (pass_on n (socket_base_new fd)) closed = (if fd \<ge> 0 then closed @ [fd] else closed)"
  by (induction n arbitrary: closed)
    (simp_all add: socket_base_close_def connected_def socket_base_new_def socket_base_move_def)

lemma close_twice:
  "socket_base_close (fst (socket_base_close s closed)) closed' = (fst (socket_base_close s closed), closed')"
  by (simp add: socket_base_close_def connected_def)

section \<open>Sending\<close>

text \<open>The bytes the peer gets, and the answers of \<open>write\<close> that are left; \<open>None\<close> if there was none.\<close>

fun socket_send :: "bytes \<Rightarrow> int list \<Rightarrow> (bytes \<times> int list) option" where
  "socket_send packet [] = None"
| "socket_send packet (len # answers) =
     (if len > 0 then
        (if nat len < length packet
         then map_option (\<lambda>(sent, rest). (take (nat len) packet @ sent, rest))
                (socket_send (drop (nat len) packet) answers)
         else Some (packet, answers))
      else Some ([], answers))"

text \<open>\<open>write\<close> accepts at least one byte each time.\<close>

lemma socket_send_all:
  "packet \<noteq> [] \<Longrightarrow> \<forall>len \<in> set answers. 0 < len \<Longrightarrow> int (length packet) \<le> sum_list answers \<Longrightarrow>
   \<exists>rest. socket_send packet answers = Some (packet, rest)"
proof (induction packet answers rule: socket_send.induct)
  case (2 packet len answers)
  show ?case
  proof (cases "nat len < length packet")
    case True
    have "\<exists>rest. socket_send (drop (nat len) packet) answers = Some (drop (nat len) packet, rest)"
      using 2 True by (intro 2(1)) auto
    with 2(3) True show ?thesis by auto
  qed (use 2 in simp)
qed simp

text \<open>A failing \<open>write\<close> drops the rest of the packet: the peer gets a part from the front of it.\<close>

lemma socket_send_prefix:
  "socket_send packet answers = Some (sent, rest) \<Longrightarrow> \<exists>lost. packet = sent @ lost"
proof (induction packet answers arbitrary: sent rule: socket_send.induct)
  case (2 packet len answers)
  show ?case
  proof (cases "0 < len \<and> nat len < length packet")
    case True
    with 2(2) obtain s' where s': "socket_send (drop (nat len) packet) answers = Some (s', rest)"
      "sent = take (nat len) packet @ s'" by auto
    from 2(1) [OF _ _ s'(1)] True obtain lost where "drop (nat len) packet = s' @ lost" by blast
    then have "packet = sent @ lost" by (metis s'(2) append_assoc append_take_drop_id)
    then show ?thesis by blast
  qed (use 2 in \<open>auto split: if_splits\<close>)
qed simp

section \<open>Framing a stream\<close>

text \<open>
  \<open>StreamParser::processPacket\<close> for any \<open>getReceivedMessageSize\<close> (which may throw) and any
  \<open>onReceive\<close>. The state is the buffer of the parser and the state behind the handler; a size beyond
  the buffer makes the code read past it.
\<close>

function drain :: "(bytes \<Rightarrow> nat res) \<Rightarrow> (bytes \<Rightarrow> ('s, unit) op) \<Rightarrow> bytes \<Rightarrow> 's \<Rightarrow> unit res \<times> bytes \<times> 's" where
  "drain msgSize handle buffer s =
     (case msgSize buffer of
        Inl e \<Rightarrow> (Inl e, buffer, s)
      | Inr packetSize \<Rightarrow>
          if packetSize = 0 then (Inr (), buffer, s)
          else if length buffer < packetSize then (Inl (Undefined ''message size''), buffer, s)
          else
            let buffer' = drop packetSize buffer
            in (case handle (take packetSize buffer) s of
                 (Inl e, s') \<Rightarrow> (Inl e, buffer', s')
               | (Inr _, s') \<Rightarrow> drain msgSize handle buffer' s'))"
  by pat_completeness auto
termination
  by (relation "measure (\<lambda>(_, _, buffer, _). length buffer)") auto

declare drain.simps [simp del]

definition process_packet ::
  "(bytes \<Rightarrow> nat res) \<Rightarrow> (bytes \<Rightarrow> ('s, unit) op) \<Rightarrow> bytes \<Rightarrow> bytes \<Rightarrow> 's \<Rightarrow> unit res \<times> bytes \<times> 's" where
  "process_packet msgSize handle packet buffer s = drain msgSize handle (append_ref buffer packet) s"

text \<open>
  \<open>setStreamParser\<close> puts a parser in the place of the one before. What was read goes to the parser when
  there is one, and to \<open>onReceive\<close> as it is otherwise.
\<close>

record stream_parser =
  sp_size :: "bytes \<Rightarrow> nat res"
  sp_buffer :: bytes

definition stream_parser_new :: "(bytes \<Rightarrow> nat res) \<Rightarrow> stream_parser" where
  "stream_parser_new msgSize = \<lparr>sp_size = msgSize, sp_buffer = []\<rparr>"

definition set_stream_parser :: "stream_parser \<Rightarrow> stream_parser option \<Rightarrow> stream_parser option" where
  "set_stream_parser streamParser old = Some streamParser"

definition receive_packet ::
  "(bytes \<Rightarrow> ('s, unit) op) \<Rightarrow> bytes \<Rightarrow> (stream_parser option \<times> 's, unit) op" where
  "receive_packet onReceive packet st =
     (case st of
        (Some p, s) \<Rightarrow>
          (case process_packet (sp_size p) onReceive packet (sp_buffer p) s of
             (r, buffer', s') \<Rightarrow> (r, Some (p\<lparr>sp_buffer := buffer'\<rparr>), s'))
      | (None, s) \<Rightarrow> (case onReceive packet s of (r, s') \<Rightarrow> (r, None, s')))"

fun feed :: "(bytes \<Rightarrow> nat res) \<Rightarrow> (bytes \<Rightarrow> ('s, unit) op) \<Rightarrow> bytes list \<Rightarrow> bytes \<Rightarrow> 's \<Rightarrow> unit res \<times> bytes \<times> 's" where
  "feed msgSize handle [] buffer s = (Inr (), buffer, s)"
| "feed msgSize handle (packet # packets) buffer s =
     (case process_packet msgSize handle packet buffer s of
        (Inl e, buffer', s') \<Rightarrow> (Inl e, buffer', s')
      | (Inr _, buffer', s') \<Rightarrow> feed msgSize handle packets buffer' s')"

text \<open>
  A framing of a stream: how long the first message is, known once it is complete, and stable; what
  cannot be the start of a message does not become one.
\<close>

locale framing =
  fixes msg_size :: "bytes \<Rightarrow> nat res"
  assumes size_within: "msg_size buffer = Inr n \<Longrightarrow> n \<le> length buffer"
    and size_stable: "msg_size buffer = Inr n \<Longrightarrow> 0 < n \<Longrightarrow> msg_size (buffer @ later) = Inr n"
    and size_error: "msg_size buffer = Inl e \<Longrightarrow> msg_size (buffer @ later) = Inl e"
begin

lemma drain_append:
  "drain msg_size handle buffer s = (Inr (), rest, s') \<Longrightarrow>
   drain msg_size handle (buffer @ later) s = drain msg_size handle (rest @ later) s'"
proof (induction "length buffer" arbitrary: buffer s rule: less_induct)
  case less
  obtain n where n: "msg_size buffer = Inr n"
    using less.prems by (cases "msg_size buffer") (simp_all add: drain.simps [of _ _ buffer])
  show ?case
  proof (cases "n = 0")
    case True
    with n less.prems show ?thesis by (simp add: drain.simps [of _ _ buffer])
  next
    case False
    have len: "n \<le> length buffer" by (rule size_within [OF n])
    obtain r s2 where run: "handle (take n buffer) s = (r, s2)" by fastforce
    have r: "r = Inr ()" and tail: "drain msg_size handle (drop n buffer) s2 = (Inr (), rest, s')"
      using less.prems n False len run
      by (cases r; simp add: drain.simps [of _ _ buffer] Let_def)+
    have "drain msg_size handle (buffer @ later) s = drain msg_size handle (drop n buffer @ later) s2"
      using size_stable [OF n] False len run r
      by (subst drain.simps) (simp add: Let_def)
    also have "\<dots> = drain msg_size handle (rest @ later) s'"
      using less.hyps [OF _ tail] False len by simp
    finally show ?thesis .
  qed
qed

lemma drain_rest:
  "drain msg_size handle buffer s = (Inr (), rest, s') \<Longrightarrow> msg_size rest = Inr 0"
proof (induction "length buffer" arbitrary: buffer s rule: less_induct)
  case less
  obtain n where n: "msg_size buffer = Inr n"
    using less.prems by (cases "msg_size buffer") (simp_all add: drain.simps [of _ _ buffer])
  show ?case
  proof (cases "n = 0")
    case True
    with n less.prems show ?thesis by (simp add: drain.simps [of _ _ buffer])
  next
    case False
    have len: "n \<le> length buffer" by (rule size_within [OF n])
    obtain q t where run: "handle (take n buffer) s = (q, t)" by fastforce
    with less.prems n False len have "drain msg_size handle (drop n buffer) t = (Inr (), rest, s')"
      by (cases q; simp add: drain.simps [of _ _ buffer] Let_def)
    with less.hyps [of "drop n buffer" t] False len show ?thesis by simp
  qed
qed

lemma drain_front:
  "drain msg_size handle (buffer @ later) s = (Inr (), rest, s') \<Longrightarrow>
   \<exists>b2 s2. drain msg_size handle buffer s = (Inr (), b2, s2)"
proof (induction "length buffer" arbitrary: buffer s rule: less_induct)
  case less
  show ?case
  proof (cases "msg_size buffer")
    case (Inl e)
    with size_error less.prems show ?thesis by (simp add: drain.simps [of _ _ "buffer @ later"])
  next
    case (Inr n)
    show ?thesis
    proof (cases "n = 0")
      case True
      with Inr show ?thesis by (simp add: drain.simps [of _ _ buffer])
    next
      case False
      have len: "n \<le> length buffer" by (rule size_within [OF Inr])
      obtain q t where run: "handle (take n buffer) s = (q, t)" by fastforce
      have q: "q = Inr ()" and tail: "drain msg_size handle (drop n buffer @ later) t = (Inr (), rest, s')"
        using less.prems size_stable [OF Inr] False len run
        by (cases q; simp add: drain.simps [of _ _ "buffer @ later"] Let_def)+
      from less.hyps [OF _ tail] False len obtain b2 s2 where
        "drain msg_size handle (drop n buffer) t = (Inr (), b2, s2)" by fastforce
      with Inr False len run q show ?thesis by (simp add: drain.simps [of _ _ buffer] Let_def)
    qed
  qed
qed

text \<open>How the bytes were cut into packets makes no difference.\<close>

lemma feed_iff:
  "msg_size buffer = Inr 0 \<Longrightarrow>
   feed msg_size handle packets buffer s = (Inr (), rest, s') \<longleftrightarrow>
   process_packet msg_size handle (concat packets) buffer s = (Inr (), rest, s')"
proof (induction packets arbitrary: buffer s)
  case Nil
  then show ?case by (simp add: process_packet_def drain.simps)
next
  case (Cons p ps)
  obtain r b2 s2 where first: "drain msg_size handle (buffer @ p) s = (r, b2, s2)" by (metis prod_cases3)
  show ?case
  proof (cases r)
    case (Inl e)
    then have "drain msg_size handle ((buffer @ p) @ concat ps) s \<noteq> (Inr (), rest, s')"
      using drain_front [of handle "buffer @ p" "concat ps" s rest s'] first by auto
    with Inl first show ?thesis by (simp add: process_packet_def)
  next
    case (Inr u)
    with first have d: "drain msg_size handle (buffer @ p) s = (Inr (), b2, s2)" by simp
    from Cons.IH [OF drain_rest [OF d]] drain_append [OF d, of "concat ps"] d show ?thesis
      by (simp add: process_packet_def)
  qed
qed

text \<open>A stream of whole messages and a part of another: every message is handled, in order.\<close>

lemma drain_messages:
  "\<forall>m \<in> set msgs. m \<noteq> [] \<and> msg_size m = Inr (length m) \<Longrightarrow> msg_size tail = Inr 0 \<Longrightarrow>
   process_all handle msgs s = (Inr (), s') \<Longrightarrow>
   drain msg_size handle (concat msgs @ tail) s = (Inr (), tail, s')"
proof (induction msgs arbitrary: s)
  case Nil
  then show ?case by (simp add: drain.simps)
next
  case (Cons m ms)
  then have m: "m \<noteq> []" "msg_size m = Inr (length m)" by simp_all
  then have size: "msg_size (concat (m # ms) @ tail) = Inr (length m)"
    using size_stable [OF m(2), of "concat ms @ tail"] by simp
  obtain r t where run: "handle m s = (r, t)" by fastforce
  then have "r = Inr ()" "process_all handle ms t = (Inr (), s')"
    using Cons.prems(3) by (cases r; simp add: op_bind_def)+
  with Cons run m size show ?case
    by (subst drain.simps) (simp add: Let_def)
qed

text \<open>Whatever packets a stream of whole messages arrives in, each message is handled, in order.\<close>

lemma feed_messages:
  assumes "\<forall>m \<in> set msgs. m \<noteq> [] \<and> msg_size m = Inr (length m)" "msg_size [] = Inr 0"
    and "process_all handle msgs s = (Inr (), s')" "concat packets = concat msgs"
  shows "feed msg_size handle packets [] s = (Inr (), [], s')"
  using drain_messages [OF assms(1-3)]
  unfolding feed_iff [OF assms(2)] assms(4) by (simp add: process_packet_def)

text \<open>The front of a stream of whole messages: those that have arrived whole are handled, the rest is kept.\<close>

lemma drain_prefix:
  assumes "\<forall>m \<in> set msgs. m \<noteq> [] \<and> msg_size m = Inr (length m)" "buffer @ later = concat msgs"
    and "drain msg_size handle buffer s = (Inr (), rest, s')"
  shows "\<exists>n \<le> length msgs. rest @ later = concat (drop n msgs) \<and> process_all handle (take n msgs) s = (Inr (), s')"
  using assms
proof (induction msgs arbitrary: buffer s)
  case Nil
  then show ?case by (simp add: drain.simps split: sum.splits if_splits)
next
  case (Cons m ms)
  then have m: "m \<noteq> []" "msg_size m = Inr (length m)" by simp_all
  note whole = size_stable [OF m(2)]
  show ?case
  proof (cases "length m \<le> length buffer")
    case False
    then have "buffer @ drop (length buffer) m = m"
      using Cons.prems(2) by (metis append_eq_append_conv_if append_take_drop_id concat.simps(2) nat_le_linear)
    then have "msg_size buffer \<noteq> Inl e" "0 < n \<Longrightarrow> msg_size buffer \<noteq> Inr n" for e n
      using False m(2) size_error [of buffer e "drop (length buffer) m"] size_stable [of buffer n "drop (length buffer) m"]
        size_within [of buffer n] by auto
    then have "msg_size buffer = Inr 0" by (metis obj_sumE not_gr_zero)
    with Cons.prems(2,3) show ?thesis by (intro exI [of _ 0]) (simp add: drain.simps)
  next
    case True
    then obtain tail where buffer: "buffer = m @ tail" "tail @ later = concat ms"
      using Cons.prems(2) by (metis append_eq_append_conv_if append_eq_conv_conj append_take_drop_id concat.simps(2))
    obtain r t where run: "handle m s = (r, t)" by fastforce
    with Cons.prems(3) whole [of tail] m(1) have "r = Inr ()" "drain msg_size handle tail t = (Inr (), rest, s')"
      unfolding buffer by (cases r; simp add: drain.simps [of _ _ "m @ tail"] Let_def)+
    moreover from Cons.IH [OF _ buffer(2) this(2)] Cons.prems(1) obtain n where
      "n \<le> length ms" "rest @ later = concat (drop n ms)" "process_all handle (take n ms) t = (Inr (), s')" by auto
    ultimately show ?thesis using run by (intro exI [of _ "Suc n"]) (simp add: op_bind_def)
  qed
qed

end

section \<open>Receiving\<close>

datatype read_result = Data bytes | End_of_file | Read_error int

text \<open>\<open>Socket::receive\<close>: it returns, with the socket closed, when reading ends or fails.\<close>

fun socket_receive ::
  "(bytes \<Rightarrow> ('s, unit) op) \<Rightarrow> read_result list \<Rightarrow> socket_base \<Rightarrow> int list \<Rightarrow> 's \<Rightarrow>
   (unit res \<times> socket_base \<times> int list \<times> 's) option" where
  "socket_receive process [] sock closed s = None"
| "socket_receive process (Data packet # answers) sock closed s =
     (case process packet s of
        (Inl e, s') \<Rightarrow> Some (Inl e, sock, closed, s')
      | (Inr _, s') \<Rightarrow> socket_receive process answers sock closed s')"
| "socket_receive process (_ # answers) sock closed s =
     (case socket_base_close sock closed of (sock', closed') \<Rightarrow> Some (Inr (), sock', closed', s))"

text \<open>\<open>ReconnectingClient::cleanup\<close> tries again until there is a connection.\<close>

fun reconnect :: "int list \<Rightarrow> socket_base \<Rightarrow> (socket_base \<times> int list) option" where
  "reconnect answers sock =
     (if connected sock then Some (sock, answers)
      else case answers of
        [] \<Rightarrow> None
      | fd # answers' \<Rightarrow> reconnect answers' (sock\<lparr>sb_fd := fd\<rparr>))"

lemma reconnect_first:
  assumes "\<not> connected sock" "\<forall>fd \<in> set failed. fd < 0" "0 \<le> fd"
  shows "reconnect (failed @ fd # answers) sock = Some (sock\<lparr>sb_fd := fd\<rparr>, answers)"
  using assms
proof (induction failed arbitrary: sock)
  case Nil
  then show ?case by (simp add: reconnect.simps [of "_ # _"] reconnect.simps [of answers] connected_def)
next
  case (Cons f fs)
  then have "reconnect (fs @ fd # answers) (sock\<lparr>sb_fd := f\<rparr>) = Some (sock\<lparr>sb_fd := fd\<rparr>, answers)"
    by (subst Cons.IH) (simp_all add: connected_def)
  with Cons show ?case by (simp add: reconnect.simps [of "_ # _"])
qed

section \<open>The connections of a manager\<close>

text \<open>
  The vector of owning pointers, by their addresses; \<open>dangling\<close> tells which objects have no thread.
\<close>

definition connections_add :: "nat \<Rightarrow> nat list \<Rightarrow> nat list" where
  "connections_add connection clients = clients @ [connection]"

definition erase :: "nat \<Rightarrow> 'a list \<Rightarrow> 'a list" where
  "erase i xs = take i xs @ drop (Suc i) xs"

lemma length_erase [simp]: "i < length xs \<Longrightarrow> length (erase i xs) = length xs - 1"
  by (simp add: erase_def)

text \<open>
  \<open>remove\<close>: the iterator is the index. After an erased element the iterator stands on its
  successor, which is the end when the last element was erased.
\<close>

function connections_remove_loop ::
  "(nat \<Rightarrow> bool) \<Rightarrow> nat \<Rightarrow> bool \<Rightarrow> nat \<Rightarrow> nat list \<Rightarrow> nat option res \<times> nat list" where
  "connections_remove_loop dangling connection takeIt i clients =
     (if i \<ge> length clients then (Inr None, clients)
      else
        let clients' = (if dangling (clients ! i) then erase i clients else clients)
        in if i \<ge> length clients' then (Inl (Undefined ''end of _clients''), clients')
           else if clients' ! i = connection
           then (Inr (if takeIt then Some connection else None), erase i clients')
           else connections_remove_loop dangling connection takeIt (Suc i) clients')"
  by pat_completeness auto
termination
  by (relation "measure (\<lambda>(_, _, _, i, clients). length clients - i)") (auto split: if_splits)

declare connections_remove_loop.simps [simp del]

definition connections_remove ::
  "(nat \<Rightarrow> bool) \<Rightarrow> nat \<Rightarrow> bool \<Rightarrow> nat list \<Rightarrow> nat option res \<times> nat list" where
  "connections_remove dangling connection takeIt clients =
     connections_remove_loop dangling connection takeIt 0 clients"

text \<open>
  \<open>IncomingConnection::moveTo\<close>, from one vector to another; \<open>same\<close> is that the connection is in the
  vector of that manager already.
\<close>

definition move_to ::
  "(nat \<Rightarrow> bool) \<Rightarrow> nat \<Rightarrow> bool \<Rightarrow> nat list \<Rightarrow> nat list \<Rightarrow> unit res \<times> nat list \<times> nat list" where
  "move_to dangling connection same from to =
     (if same then (Inr (), from, to)
      else case connections_remove dangling connection True from of
        (Inl e, from') \<Rightarrow> (Inl e, from', to)
      | (Inr None, from') \<Rightarrow> (Inl (Runtime_error ''Cannot take connection from manager''), from', to)
      | (Inr (Some holder), from') \<Rightarrow> (Inr (), from', connections_add holder to))"

lemma connections_remove_none_dangling:
  assumes "\<forall>c \<in> set clients. \<not> dangling c"
  shows "connections_remove_loop dangling connection takeIt i clients =
    (if connection \<in> set (drop i clients)
     then (Inr (if takeIt then Some connection else None), take i clients @ remove1 connection (drop i clients))
     else (Inr None, clients))"
proof (induction "length clients - i" arbitrary: i)
  case 0
  then show ?case by (simp add: connections_remove_loop.simps)
next
  case (Suc n)
  then have i: "i < length clients" by simp
  then have d: "drop i clients = clients ! i # drop (Suc i) clients" by (simp add: Cons_nth_drop_Suc)
  have nd: "\<not> dangling (clients ! i)" using assms i by simp
  have t: "take (Suc i) clients = take i clients @ [clients ! i]" using i by (simp add: take_Suc_conv_app_nth)
  show ?case
  proof (cases "clients ! i = connection")
    case True
    with i nd d show ?thesis by (subst connections_remove_loop.simps) (simp add: erase_def)
  next
    case False
    with i nd have "connections_remove_loop dangling connection takeIt i clients =
        connections_remove_loop dangling connection takeIt (Suc i) clients"
      by (subst connections_remove_loop.simps) simp
    with Suc(1) [of "Suc i"] Suc(2) False d t show ?thesis by simp
  qed
qed

text \<open>With no dangling connection, moving takes the connection from its vector and puts it into the other.\<close>

lemma move_to_moves:
  assumes "\<forall>c \<in> set from. \<not> dangling c"
  shows "move_to dangling connection False from to =
    (if connection \<in> set from then (Inr (), remove1 connection from, to @ [connection])
     else (Inl (Runtime_error ''Cannot take connection from manager''), from, to))"
  using connections_remove_none_dangling [OF assms, of connection True 0]
  by (simp add: move_to_def connections_remove_def connections_add_def)

end
