(* ===== verification/Doubles.thy ===== *)
theory Doubles
  imports Prelude Complex_Main
begin

text \<open>
  The \<open>double\<close> arithmetic the pool uses for difficulties: IEEE 754 binary64 with rounding to
  nearest, ties to even, written out over the rationals so that every operation computes. A finite
  double is its exact value. The sign of zero is not kept: the code never divides by a zero whose
  sign could be negative, and comparisons do not see it.
\<close>

section \<open>Rounding\<close>

datatype dbl = Fin rat | PInf | MInf | NaN

fun bit_length :: "nat \<Rightarrow> nat" where
  "bit_length n = (if n = 0 then 0 else Suc (bit_length (n div 2)))"

declare bit_length.simps [simp del]

definition binade :: "rat \<Rightarrow> int" where
  "binade q =
     (let (n, d) = quotient_of q;
          e0 = int (bit_length (nat n)) - int (bit_length (nat d))
      in if 2 powi e0 \<le> q then e0 else e0 - 1)"

definition round_half_even :: "rat \<Rightarrow> int" where
  "round_half_even q =
     (let f = \<lfloor>q\<rfloor>; d = q - of_int f in
      if d < 1 / 2 then f else if d > 1 / 2 then f + 1 else if even f then f else f + 1)"

definition unit_in_last_place :: "rat \<Rightarrow> int" where
  "unit_in_last_place q = max (binade q - 52) (-1074)"

definition round_dbl :: "rat \<Rightarrow> dbl" where
  "round_dbl q =
     (if q = 0 then Fin 0
      else let s = unit_in_last_place \<bar>q\<bar>;
               r = of_int (round_half_even (\<bar>q\<bar> / 2 powi s)) * 2 powi s
           in if r \<ge> 2 powi 1024 then (if q > 0 then PInf else MInf) else Fin (sgn q * r))"

lemma exp2_less_iff: "(2 :: rat) powi a < 2 powi b \<longleftrightarrow> a < b"
proof
  assume "a < b"
  then show "(2 :: rat) powi a < 2 powi b" by (rule power_int_strict_increasing) simp
next
  assume "(2 :: rat) powi a < 2 powi b"
  moreover have "b \<le> a \<Longrightarrow> (2 :: rat) powi b \<le> 2 powi a"
    by (rule power_int_increasing) simp_all
  ultimately show "a < b" by (meson leD leI)
qed

lemma bit_length_bounds: "0 < n \<Longrightarrow> 2 ^ (bit_length n - 1) \<le> n \<and> n < 2 ^ bit_length n"
proof (induction n rule: bit_length.induct)
  case (1 n)
  show ?case
  proof (cases "n = 1")
    case True
    then show ?thesis by (simp add: bit_length.simps)
  next
    case False
    with 1 have IH: "2 ^ (bit_length (n div 2) - 1) \<le> n div 2" "n div 2 < 2 ^ bit_length (n div 2)"
      by auto
    have "bit_length (n div 2) \<noteq> 0" using False "1.prems" by (simp add: bit_length.simps)
    then obtain k where k: "bit_length (n div 2) = Suc k" using not0_implies_Suc by blast
    have "bit_length n = Suc (bit_length (n div 2))"
      using "1.prems" by (subst bit_length.simps) simp
    with IH k show ?thesis by simp linarith
  qed
qed

lemma binade_bounds:
  assumes "0 < q"
  shows "2 powi binade q \<le> q \<and> q < 2 powi (binade q + 1)"
proof -
  obtain n d where nd: "quotient_of q = (n, d)" by (cases "quotient_of q")
  have d: "0 < d" using nd quotient_of_denom_pos by blast
  have q: "q = of_int n / of_int d" using nd quotient_of_div by blast
  then have n: "0 < n" using assms d by (simp add: zero_less_divide_iff)
  define bn bd where "bn = bit_length (nat n)" and "bd = bit_length (nat d)"
  have bounds: "0 < m \<Longrightarrow> 2 powi (int (bit_length (nat m)) - 1) \<le> (of_int m :: rat) \<and>
      (of_int m :: rat) < 2 powi (int (bit_length (nat m)))" for m :: int
  proof -
    assume m: "0 < m"
    then have b: "2 ^ (bit_length (nat m) - 1) \<le> nat m" "nat m < 2 ^ bit_length (nat m)"
      using bit_length_bounds [of "nat m"] by auto
    have pos: "bit_length (nat m) \<noteq> 0" using m by (simp add: bit_length.simps)
    have "of_nat (2 ^ (bit_length (nat m) - 1)) \<le> (of_nat (nat m) :: rat)"
      and "(of_nat (nat m) :: rat) < of_nat (2 ^ bit_length (nat m))"
      using b by (simp_all only: of_nat_le_iff of_nat_less_iff)
    moreover have "int (bit_length (nat m)) - 1 = int (bit_length (nat m) - 1)" using pos by simp
    ultimately show ?thesis using m by (simp only: power_int_of_nat) simp
  qed
  have ln: "2 powi (int bn - 1) \<le> (of_int n :: rat)" and un: "of_int n < (2 powi (int bn) :: rat)"
    using bounds [OF n] by (auto simp: bn_def)
  have ld: "2 powi (int bd - 1) \<le> (of_int d :: rat)" and ud: "of_int d < (2 powi (int bd) :: rat)"
    using bounds [OF d] by (auto simp: bd_def)
  have dpos: "0 < (of_int d :: rat)" using d by simp
  have "2 powi (int bn - int bd - 1) = (2 powi (int bn - 1) / 2 powi (int bd) :: rat)"
    by (subst power_int_diff [symmetric]) (simp_all add: algebra_simps)
  also have "\<dots> \<le> of_int n / of_int d"
    using ln ud dpos n by (intro frac_le) auto
  finally have low: "2 powi (int bn - int bd - 1) \<le> q" using q by simp
  have "q < 2 powi (int bn) / 2 powi (int bd - 1)"
    unfolding q using un ld dpos n by (intro frac_less) auto
  also have "\<dots> = (2 powi (int bn - int bd + 1) :: rat)"
    by (subst power_int_diff [symmetric]) (simp_all add: algebra_simps)
  finally have up: "q < 2 powi (int bn - int bd + 1)" .
  from low up show ?thesis
    by (auto simp: binade_def nd Let_def bn_def bd_def)
qed

lemma round_half_even_of_int [simp]: "round_half_even (of_int k) = k"
  by (simp add: round_half_even_def Let_def)

lemma round_half_even_error: "\<bar>of_int (round_half_even q) - q\<bar> \<le> 1 / 2"
proof -
  have "of_int \<lfloor>q\<rfloor> \<le> q" "q < of_int \<lfloor>q\<rfloor> + 1" by linarith+
  then show ?thesis
    unfolding round_half_even_def Let_def abs_le_iff by (simp split: if_split) linarith
qed

lemma round_half_even_nonneg: "0 \<le> q \<Longrightarrow> 0 \<le> round_half_even q"
  by (simp add: round_half_even_def Let_def)

text \<open>A rational that a double can hold is rounded to itself.\<close>

definition representable :: "rat \<Rightarrow> bool" where
  "representable q \<longleftrightarrow>
     (\<exists>m k. q = of_int m * 2 powi k \<and> \<bar>m\<bar> < 2 ^ 53 \<and> -1074 \<le> k) \<and> \<bar>q\<bar> < 2 powi 1024"

lemma representableI:
  "q = of_int m * 2 powi k \<Longrightarrow> \<bar>m\<bar> < 2 ^ 53 \<Longrightarrow> -1074 \<le> k \<Longrightarrow> \<bar>q\<bar> < 2 powi 1024 \<Longrightarrow> representable q"
  unfolding representable_def by blast

lemma unit_le_exponent:
  assumes q: "\<bar>q\<bar> = of_int m * 2 powi k" "q \<noteq> 0" "\<bar>m\<bar> < 2 ^ 53" "-1074 \<le> k"
  shows "unit_in_last_place \<bar>q\<bar> \<le> k"
proof -
  have "2 powi binade \<bar>q\<bar> \<le> \<bar>q\<bar>" using binade_bounds [of "\<bar>q\<bar>"] q(2) by simp
  also have "\<bar>q\<bar> = \<bar>of_int m\<bar> * 2 powi k"
    using q(1) by (metis abs_abs abs_mult abs_of_pos zero_less_numeral zero_less_power_int)
  also have "\<dots> < 2 ^ 53 * 2 powi k"
  proof -
    have "\<bar>of_int m\<bar> < (of_int (2 ^ 53) :: rat)"
      using q(3) by (simp only: of_int_abs [symmetric] of_int_less_iff)
    then show ?thesis by (intro mult_strict_right_mono) simp_all
  qed
  also have "\<dots> = (2 powi (53 + k) :: rat)"
    by (simp add: power_int_add)
  finally have "binade \<bar>q\<bar> < 53 + k"
    by (simp only: exp2_less_iff)
  then show ?thesis using q(4) by (simp add: unit_in_last_place_def)
qed

lemma round_dbl_representable:
  assumes "representable q"
  shows "round_dbl q = Fin q"
proof (cases "q = 0")
  case True
  then show ?thesis by (simp add: round_dbl_def)
next
  case False
  from assms obtain m k where mk: "q = of_int m * 2 powi k" "\<bar>m\<bar> < 2 ^ 53" "-1074 \<le> k"
    and small: "\<bar>q\<bar> < 2 powi 1024"
    unfolding representable_def by blast
  have absq: "\<bar>q\<bar> = of_int \<bar>m\<bar> * 2 powi k" by (simp add: mk(1) abs_mult)
  define s where "s = unit_in_last_place \<bar>q\<bar>"
  have "s \<le> k"
    unfolding s_def by (rule unit_le_exponent [OF absq False _ mk(3)]) (use mk(2) in simp)
  then have "2 powi (k - s) = (2 ^ nat (k - s) :: rat)"
    by (simp add: power_int_def)
  then have "2 powi k / 2 powi s = (2 ^ nat (k - s) :: rat)"
    by (subst (asm) power_int_diff) simp_all
  then have "\<bar>q\<bar> / 2 powi s = of_int (\<bar>m\<bar> * 2 ^ nat (k - s))"
    unfolding absq by (simp add: times_divide_eq_right [symmetric] del: times_divide_eq_right)
  then have "round_half_even (\<bar>q\<bar> / 2 powi s) = \<bar>m\<bar> * 2 ^ nat (k - s)"
    by (metis round_half_even_of_int)
  moreover have "of_int (\<bar>m\<bar> * 2 ^ nat (k - s)) * 2 powi s = \<bar>q\<bar>"
    using \<open>\<bar>q\<bar> / 2 powi s = of_int (\<bar>m\<bar> * 2 ^ nat (k - s))\<close> by (simp add: field_simps)
  ultimately show ?thesis
    using False small by (simp add: round_dbl_def s_def [symmetric] sgn_mult_abs Let_def)
qed

lemma round_dbl_0 [simp]: "round_dbl 0 = Fin 0"
  by (simp add: round_dbl_def)

text \<open>In the normal range, rounding is off by at most half a unit in the last of 53 digits.\<close>

lemma round_dbl_error:
  assumes "2 powi (-1022) \<le> \<bar>q\<bar>" and "round_dbl q = Fin r"
  shows "\<bar>r - q\<bar> \<le> \<bar>q\<bar> * 2 powi (-53)"
proof -
  have q0: "q \<noteq> 0" using assms(1) by (auto simp: not_le)
  define s where "s = unit_in_last_place \<bar>q\<bar>"
  define m where "m = round_half_even (\<bar>q\<bar> / 2 powi s)"
  have r: "r = sgn q * (of_int m * 2 powi s)"
    using assms(2) q0 by (auto simp: round_dbl_def s_def m_def Let_def split: if_splits)
  have b: "2 powi binade \<bar>q\<bar> \<le> \<bar>q\<bar>" "\<bar>q\<bar> < 2 powi (binade \<bar>q\<bar> + 1)"
    using binade_bounds [of "\<bar>q\<bar>"] q0 by auto
  have "2 powi (-1022) < (2 powi (binade \<bar>q\<bar> + 1) :: rat)" using assms(1) b(2) by linarith
  then have "-1022 < binade \<bar>q\<bar> + 1" by (simp only: exp2_less_iff)
  then have s: "s = binade \<bar>q\<bar> - 52" by (simp add: s_def unit_in_last_place_def)
  have "\<bar>of_int m - \<bar>q\<bar> / 2 powi s\<bar> \<le> 1 / 2"
    unfolding m_def by (rule round_half_even_error)
  then have "\<bar>of_int m - \<bar>q\<bar> / 2 powi s\<bar> * 2 powi s \<le> 1 / 2 * 2 powi s"
    by (rule mult_right_mono) simp
  moreover have "\<bar>of_int m - \<bar>q\<bar> / 2 powi s\<bar> * 2 powi s = \<bar>of_int m * 2 powi s - \<bar>q\<bar>\<bar>"
  proof -
    have "(of_int m - \<bar>q\<bar> / 2 powi s) * 2 powi s = of_int m * 2 powi s - \<bar>q\<bar>"
      by (simp add: field_simps)
    then show ?thesis by (metis abs_mult abs_of_pos zero_less_numeral zero_less_power_int)
  qed
  ultimately have "\<bar>of_int m * 2 powi s - \<bar>q\<bar>\<bar> \<le> 1 / 2 * 2 powi s" by linarith
  moreover have "1 / 2 * 2 powi s = 2 powi binade \<bar>q\<bar> * (2 powi (-53) :: rat)"
    unfolding s by (simp add: power_int_diff power_int_minus)
  moreover have "\<bar>r - q\<bar> = \<bar>of_int m * 2 powi s - \<bar>q\<bar>\<bar>"
  proof -
    have "r - q = sgn q * (of_int m * 2 powi s - \<bar>q\<bar>)"
      unfolding r by (simp add: right_diff_distrib sgn_mult_abs)
    then show ?thesis using q0 by (simp add: abs_mult abs_sgn_eq)
  qed
  moreover have "2 powi binade \<bar>q\<bar> * 2 powi (-53) \<le> \<bar>q\<bar> * 2 powi (-53)"
    using b(1) by (intro mult_right_mono) simp_all
  ultimately show ?thesis by linarith
qed

text \<open>What rounding returns has at most 53 binary digits, and scales exactly by powers of two.\<close>

lemma round_half_even_upper: "q < of_int n \<Longrightarrow> round_half_even q \<le> n"
proof -
  assume "q < of_int n"
  then have "\<lfloor>q\<rfloor> < n" by (simp add: floor_less_iff)
  then show ?thesis by (auto simp: round_half_even_def Let_def)
qed

lemma round_dbl_digits:
  assumes "round_dbl q = Fin r" "q \<noteq> 0"
  shows "\<exists>m. \<bar>r\<bar> = of_int m * 2 powi unit_in_last_place \<bar>q\<bar> \<and> 0 \<le> m \<and> m \<le> 2 ^ 53"
proof -
  let ?s = "unit_in_last_place \<bar>q\<bar>"
  let ?m = "round_half_even (\<bar>q\<bar> / 2 powi ?s)"
  have r: "r = sgn q * (of_int ?m * 2 powi ?s)"
    using assms by (auto simp: round_dbl_def Let_def split: if_splits)
  have nonneg: "0 \<le> ?m" by (intro round_half_even_nonneg) simp
  have "\<bar>q\<bar> < 2 powi (binade \<bar>q\<bar> + 1)" using binade_bounds [of "\<bar>q\<bar>"] assms(2) by simp
  also have "\<dots> \<le> (2 powi (53 + ?s) :: rat)"
    by (rule power_int_increasing) (simp_all add: unit_in_last_place_def)
  also have "\<dots> = 2 ^ 53 * 2 powi ?s" by (simp add: power_int_add)
  finally have "\<bar>q\<bar> / 2 powi ?s < of_int (2 ^ 53)" by (simp add: divide_less_eq)
  then have "?m \<le> 2 ^ 53" by (rule round_half_even_upper)
  moreover have "\<bar>r\<bar> = of_int ?m * 2 powi ?s"
    using nonneg assms(2) by (simp add: r abs_mult abs_sgn_eq)
  ultimately show ?thesis using nonneg by blast
qed

lemma representable_bounded:
  assumes "\<bar>r\<bar> = of_int m * 2 powi k" "0 \<le> m" "m \<le> 2 ^ 53" "-1074 \<le> k" "k \<le> 970"
  shows "representable r"
proof -
  have size: "\<bar>r\<bar> < 2 powi 1024"
  proof -
    have "of_int m \<le> (of_int (2 ^ 53) :: rat)" using assms(3) by (simp only: of_int_le_iff)
    then have "\<bar>r\<bar> \<le> 2 ^ 53 * 2 powi k" unfolding assms(1) by (intro mult_right_mono) simp_all
    also have "\<dots> = (2 powi (53 + k) :: rat)" by (simp add: power_int_add)
    also have "\<dots> < (2 powi 1024 :: rat)" using assms(5) by (simp only: exp2_less_iff)
    finally show ?thesis .
  qed
  have r: "r = of_int (if r < 0 then - m else m) * 2 powi k" using assms(1) by auto
  show ?thesis
  proof (cases "m = 2 ^ 53")
    case False
    with assms show ?thesis by (intro representableI [OF r _ assms(4) size]) auto
  next
    case True
    have r': "r = of_int (if r < 0 then - (2 ^ 52) else 2 ^ 52) * 2 powi (k + 1)"
      using r True by (auto simp: power_int_add)
    show ?thesis by (rule representableI [OF r' _ _ size]) (use assms(4) in auto)
  qed
qed

lemma round_dbl_finite:
  assumes "\<bar>q\<bar> < 2 powi 1000"
  shows "\<exists>r. round_dbl q = Fin r"
proof (cases "q = 0")
  case True
  then show ?thesis by simp
next
  case False
  let ?s = "unit_in_last_place \<bar>q\<bar>"
  have b: "2 powi binade \<bar>q\<bar> \<le> \<bar>q\<bar>" "\<bar>q\<bar> < 2 powi (binade \<bar>q\<bar> + 1)"
    using binade_bounds [of "\<bar>q\<bar>"] False by auto
  then have "binade \<bar>q\<bar> < 1000" using assms exp2_less_iff le_less_trans by blast
  then have s: "?s \<le> 970" by (simp add: unit_in_last_place_def)
  have "\<bar>q\<bar> < 2 ^ 53 * 2 powi ?s"
  proof -
    have "(2 powi (binade \<bar>q\<bar> + 1) :: rat) \<le> 2 powi (53 + ?s)"
      by (rule power_int_increasing) (simp_all add: unit_in_last_place_def)
    with b(2) show ?thesis by (simp add: power_int_add)
  qed
  then have "\<bar>q\<bar> / 2 powi ?s < of_int (2 ^ 53)" by (simp add: divide_less_eq)
  then have m: "round_half_even (\<bar>q\<bar> / 2 powi ?s) \<le> 2 ^ 53" by (rule round_half_even_upper)
  have "of_int (round_half_even (\<bar>q\<bar> / 2 powi ?s)) \<le> (of_int (2 ^ 53) :: rat)"
    using m by (simp only: of_int_le_iff)
  then have "of_int (round_half_even (\<bar>q\<bar> / 2 powi ?s)) * 2 powi ?s \<le> (2 ^ 53 * 2 powi ?s :: rat)"
    by (intro mult_right_mono) simp_all
  also have "\<dots> = (2 powi (53 + ?s) :: rat)" by (simp add: power_int_add)
  also have "\<dots> < (2 powi 1024 :: rat)" using s by (simp only: exp2_less_iff)
  finally show ?thesis using False by (simp add: round_dbl_def Let_def)
qed

lemma round_dbl_scaled:
  assumes "round_dbl q = Fin r" "2 powi (-400) \<le> \<bar>q\<bar>" "\<bar>q\<bar> < 2 powi 400" "\<bar>k\<bar> \<le> 500"
  shows "round_dbl (r * 2 powi k) = Fin (r * 2 powi k)"
proof -
  let ?s = "unit_in_last_place \<bar>q\<bar>"
  have q0: "q \<noteq> 0" using assms(2) by (auto simp: not_le)
  then have b: "2 powi binade \<bar>q\<bar> \<le> \<bar>q\<bar>" "\<bar>q\<bar> < 2 powi (binade \<bar>q\<bar> + 1)"
    using binade_bounds [of "\<bar>q\<bar>"] by auto
  then have "binade \<bar>q\<bar> < 400" "-400 < binade \<bar>q\<bar> + 1"
    using assms(2,3) exp2_less_iff le_less_trans by blast+
  then have s: "-453 \<le> ?s" "?s \<le> 400" by (simp_all add: unit_in_last_place_def)
  obtain m where m: "\<bar>r\<bar> = of_int m * 2 powi ?s" "0 \<le> m" "m \<le> 2 ^ 53"
    using round_dbl_digits [OF assms(1) q0] by blast
  have "\<bar>r * 2 powi k\<bar> = of_int m * 2 powi (?s + k)"
    by (simp add: abs_mult m(1) power_int_add)
  then have "representable (r * 2 powi k)"
    by (rule representable_bounded) (use m s assms(4) in auto)
  then show ?thesis by (rule round_dbl_representable)
qed

text \<open>Rounding is monotone, and in the normal range it commutes with powers of two.\<close>

lemma round_half_even_mono: "x \<le> y \<Longrightarrow> round_half_even x \<le> round_half_even y"
proof -
  assume xy: "x \<le> y"
  show ?thesis
  proof (cases "\<lfloor>x\<rfloor> = \<lfloor>y\<rfloor>")
    case True
    with xy show ?thesis by (auto simp: round_half_even_def Let_def)
  next
    case False
    with floor_mono [OF xy] have "\<lfloor>x\<rfloor> + 1 \<le> \<lfloor>y\<rfloor>" by linarith
    moreover have "round_half_even x \<le> \<lfloor>x\<rfloor> + 1" "\<lfloor>y\<rfloor> \<le> round_half_even y"
      by (auto simp: round_half_even_def Let_def)
    ultimately show ?thesis by linarith
  qed
qed

lemma binade_unique:
  assumes "2 powi b \<le> q" "q < 2 powi (b + 1)"
  shows "binade q = b"
proof -
  have "0 < q" using assms(1) by (rule less_le_trans [rotated]) simp
  from binade_bounds [OF this] assms
  have "(2 powi b :: rat) < 2 powi (binade q + 1)" "(2 powi binade q :: rat) < 2 powi (b + 1)"
    by (blast intro: le_less_trans)+
  then show ?thesis by (simp only: exp2_less_iff)
qed

lemma round_dbl_pos_eq:
  assumes "0 < q" "q < 2 powi 1000"
  shows "round_dbl q =
    Fin (of_int (round_half_even (q / 2 powi unit_in_last_place q)) * 2 powi unit_in_last_place q)"
  using round_dbl_finite [of q] assms by (auto simp: round_dbl_def Let_def split: if_splits)

lemma round_dbl_mono:
  assumes "0 < q" "q \<le> q'" "q' < 2 powi 1000"
  shows "\<exists>r r'. round_dbl q = Fin r \<and> round_dbl q' = Fin r' \<and> r \<le> r' \<and> 0 \<le> r"
proof -
  let ?s = "unit_in_last_place q" and ?s' = "unit_in_last_place q'"
  let ?m = "round_half_even (q / 2 powi ?s)" and ?m' = "round_half_even (q' / 2 powi ?s')"
  have q': "0 < q'" using assms by linarith
  note b = binade_bounds [OF assms(1)] and b' = binade_bounds [OF q']
  have "(2 powi binade q :: rat) < 2 powi (binade q' + 1)" using b b' assms(2) by linarith
  then have binades: "binade q \<le> binade q'" by (simp only: exp2_less_iff)
  have "of_int ?m * 2 powi ?s \<le> (of_int ?m' * 2 powi ?s' :: rat)"
  proof (cases "?s = ?s'")
    case True
    have "?m \<le> round_half_even (q' / 2 powi ?s)"
      using assms(2) by (intro round_half_even_mono divide_right_mono) simp_all
    then show ?thesis unfolding True by (intro mult_right_mono) simp_all
  next
    case False
    then have s: "?s' = binade q' - 52" "?s \<le> binade q' - 53" "binade q + 1 \<le> binade q'"
      using binades by (auto simp: unit_in_last_place_def)
    obtain k :: nat where k: "binade q' - ?s = int k" using s(2) by (metis diff_ge_0_iff_ge nonneg_int_cases order_trans diff_le_eq add_increasing2 zero_le_numeral zle_iff_zadd)
    have "q < 2 powi binade q'"
      using b s(3) power_int_increasing [of "binade q + 1" "binade q'" "2 :: rat"] by (auto intro: less_le_trans)
    also have pow: "(2 powi binade q' :: rat) = 2 ^ k * 2 powi ?s"
      using k by (metis power_int_add power_int_of_nat diff_add_cancel zero_neq_numeral)
    finally have "q / 2 powi ?s < of_int (2 ^ k)" by (simp add: divide_less_eq)
    then have "?m \<le> 2 ^ k" by (rule round_half_even_upper)
    then have "(of_int ?m :: rat) \<le> of_int (2 ^ k)" by (simp only: of_int_le_iff)
    then have "of_int ?m * 2 powi ?s \<le> (2 ^ k * 2 powi ?s :: rat)"
      by (intro mult_right_mono) simp_all
    also have "\<dots> = 2 powi binade q'" by (rule pow [symmetric])
    also have "\<dots> = of_int (2 ^ 52) * 2 powi ?s'"
      unfolding s(1) by (simp add: power_int_diff)
    also have "\<dots> \<le> of_int ?m' * 2 powi ?s'"
    proof -
      have "2 powi binade q' / 2 powi ?s' = (of_int (2 ^ 52) :: rat)"
        unfolding s(1) by (simp add: power_int_diff)
      then have "of_int (2 ^ 52) \<le> q' / 2 powi ?s'"
        using b' by (metis divide_right_mono zero_le_power_int zero_le_numeral)
      then have "2 ^ 52 \<le> ?m'" using round_half_even_mono [of "of_int (2 ^ 52)" "q' / 2 powi ?s'"] by (simp only: round_half_even_of_int)
      then have "(of_int (2 ^ 52) :: rat) \<le> of_int ?m'" by (simp only: of_int_le_iff)
      then show ?thesis by (rule mult_right_mono) simp
    qed
    finally show ?thesis .
  qed
  moreover have "0 \<le> ?m" using assms(1) by (intro round_half_even_nonneg) simp
  ultimately show ?thesis
    using round_dbl_pos_eq [OF assms(1)] round_dbl_pos_eq [OF q' assms(3)] assms by auto
qed

lemma round_dbl_exp2:
  assumes "2 powi (-400) \<le> q" "q < 2 powi 400" "\<bar>k\<bar> \<le> 400" "round_dbl q = Fin r"
  shows "round_dbl (q * 2 powi k) = Fin (r * 2 powi k)"
proof -
  have q: "0 < q" using assms(1) by (rule less_le_trans [rotated]) simp
  note b = binade_bounds [OF q]
  have "(2 powi (-400) :: rat) < 2 powi (binade q + 1)" "(2 powi binade q :: rat) < 2 powi 400"
    using b assms(1,2) by linarith+
  then have range: "-400 \<le> binade q" "binade q < 400" by (simp_all only: exp2_less_iff)
  have scaled: "binade (q * 2 powi k) = binade q + k"
  proof (rule binade_unique)
    show "2 powi (binade q + k) \<le> q * 2 powi k"
      using b by (simp add: power_int_add mult_right_mono)
    have "2 powi (binade q + k + 1) = (2 powi (binade q + 1) * 2 powi k :: rat)"
      by (simp add: power_int_add)
    then show "q * 2 powi k < 2 powi (binade q + k + 1)"
      using b by (simp add: mult_strict_right_mono)
  qed
  then have unit: "unit_in_last_place (q * 2 powi k) = unit_in_last_place q + k"
    using range assms(3) by (simp add: unit_in_last_place_def)
  have "q * 2 powi k < 2 powi (binade q + k + 1)"
    using binade_bounds [of "q * 2 powi k"] q scaled by simp
  also have "\<dots> < (2 powi 1000 :: rat)" using range assms(3) by (simp only: exp2_less_iff)
  finally have size: "q * 2 powi k < 2 powi 1000" .
  have "q < 2 powi 1000"
    using assms(2) exp2_less_iff [of 400 1000] by linarith
  from round_dbl_pos_eq [OF q this] assms(4)
  have r: "r = of_int (round_half_even (q / 2 powi unit_in_last_place q)) * 2 powi unit_in_last_place q"
    by simp
  have "q * 2 powi k / 2 powi (unit_in_last_place q + k) = q / 2 powi unit_in_last_place q"
    by (simp add: power_int_add)
  then show ?thesis
    using round_dbl_pos_eq [OF _ size] q unfolding unit r by (simp add: power_int_add)
qed

section \<open>Operations\<close>

definition dbl_of_rat :: "rat \<Rightarrow> dbl" where "dbl_of_rat q = round_dbl q"

fun dneg :: "dbl \<Rightarrow> dbl" where
  "dneg (Fin a) = Fin (- a)"
| "dneg PInf = MInf"
| "dneg MInf = PInf"
| "dneg NaN = NaN"

fun dadd :: "dbl \<Rightarrow> dbl \<Rightarrow> dbl" where
  "dadd (Fin a) (Fin b) = round_dbl (a + b)"
| "dadd NaN _ = NaN"
| "dadd _ NaN = NaN"
| "dadd PInf MInf = NaN"
| "dadd MInf PInf = NaN"
| "dadd PInf _ = PInf"
| "dadd MInf _ = MInf"
| "dadd _ PInf = PInf"
| "dadd _ MInf = MInf"

definition inf_signed :: "rat \<Rightarrow> dbl" where
  "inf_signed a = (if a = 0 then NaN else if a > 0 then PInf else MInf)"

fun dmul :: "dbl \<Rightarrow> dbl \<Rightarrow> dbl" where
  "dmul (Fin a) (Fin b) = round_dbl (a * b)"
| "dmul NaN _ = NaN"
| "dmul _ NaN = NaN"
| "dmul (Fin a) PInf = inf_signed a"
| "dmul (Fin a) MInf = inf_signed (- a)"
| "dmul PInf (Fin b) = inf_signed b"
| "dmul MInf (Fin b) = inf_signed (- b)"
| "dmul PInf PInf = PInf"
| "dmul MInf MInf = PInf"
| "dmul PInf MInf = MInf"
| "dmul MInf PInf = MInf"

fun ddiv :: "dbl \<Rightarrow> dbl \<Rightarrow> dbl" where
  "ddiv (Fin a) (Fin b) = (if b = 0 then inf_signed a else round_dbl (a / b))"
| "ddiv NaN _ = NaN"
| "ddiv _ NaN = NaN"
| "ddiv (Fin a) _ = Fin 0"
| "ddiv PInf (Fin b) = (if b < 0 then MInf else PInf)"
| "ddiv MInf (Fin b) = (if b < 0 then PInf else MInf)"
| "ddiv _ _ = NaN"

fun dless :: "dbl \<Rightarrow> dbl \<Rightarrow> bool" where
  "dless NaN _ = False"
| "dless _ NaN = False"
| "dless (Fin a) (Fin b) = (a < b)"
| "dless MInf b = (b \<noteq> MInf)"
| "dless _ MInf = False"
| "dless (Fin _) PInf = True"
| "dless PInf _ = False"

fun deq :: "dbl \<Rightarrow> dbl \<Rightarrow> bool" where
  "deq NaN _ = False"
| "deq _ NaN = False"
| "deq a b = (a = b)"

definition dle :: "dbl \<Rightarrow> dbl \<Rightarrow> bool" where
  "dle a b \<longleftrightarrow> dless a b \<or> deq a b"

lemma dless_irrefl [simp]: "\<not> dless a a"
  by (cases a) auto

lemma dless_trans: "dless a b \<Longrightarrow> dless b c \<Longrightarrow> dless a c"
  by (cases a; cases b; cases c) auto

lemma not_dless_dle: "\<not> dless a b \<Longrightarrow> a \<noteq> NaN \<Longrightarrow> b \<noteq> NaN \<Longrightarrow> dle b a"
  by (cases a; cases b) (auto simp: dle_def)

lemma dle_not_dless: "dle a b \<Longrightarrow> \<not> dless b a"
  by (cases a; cases b) (auto simp: dle_def)

lemma dle_Fin [simp]: "dle (Fin a) (Fin b) \<longleftrightarrow> a \<le> b"
  by (auto simp: dle_def)

lemma deq_refl [simp]: "a \<noteq> NaN \<Longrightarrow> deq a a"
  by (cases a) auto

end
