(* ===== verification/Json.thy ===== *)
theory Json
  imports ByteStrings Doubles
begin

text \<open>
  The JSON library the program links (\<open>nlohmann::json\<close>, not part of the repository) as a record of
  the operations the program calls, over an arbitrary type of JSON values. Every definition that
  builds, reads, parses or prints JSON takes such a record; what a property needs of it is a
  hypothesis of that property.
\<close>

record 'j json_api =
  j_parse :: "bytes \<Rightarrow> 'j res"
  j_dump :: "'j \<Rightarrow> string"
  j_is_object :: "'j \<Rightarrow> bool"
  j_is_array :: "'j \<Rightarrow> bool"
  j_is_string :: "'j \<Rightarrow> bool"
  j_is_null :: "'j \<Rightarrow> bool"
  j_member :: "'j \<Rightarrow> string \<Rightarrow> 'j option"
  j_size :: "'j \<Rightarrow> nat"
  j_at :: "'j \<Rightarrow> nat \<Rightarrow> 'j"
  j_get_int :: "'j \<Rightarrow> u32 res"
  j_get_string :: "'j \<Rightarrow> string res"
  j_get_strings :: "'j \<Rightarrow> string list res"
  j_get_uint64 :: "'j \<Rightarrow> u64 res"
  j_get_uint32 :: "'j \<Rightarrow> u32 res"
  j_elements :: "'j \<Rightarrow> 'j list"
  j_null :: 'j
  j_bool :: "bool \<Rightarrow> 'j"
  j_int :: "u32 \<Rightarrow> 'j"
  j_uint :: "u64 \<Rightarrow> 'j"
  j_double :: "dbl \<Rightarrow> 'j"
  j_string :: "string \<Rightarrow> 'j"
  j_array :: "'j list \<Rightarrow> 'j"
  j_init :: "'j list \<Rightarrow> 'j"
  j_set :: "'j \<Rightarrow> string \<Rightarrow> 'j \<Rightarrow> 'j"

text \<open>
  \<open>operator[]\<close> with a key on a \<open>const\<close> value: without such a member the library's behaviour is
  undefined. An \<open>int\<close> is kept as its 32-bit pattern.
\<close>

definition j_const_member :: "'j json_api \<Rightarrow> 'j \<Rightarrow> string \<Rightarrow> 'j res" where
  "j_const_member api v key =
     (case j_member api v key of None \<Rightarrow> Inl (Undefined ''const json operator[]'') | Some x \<Rightarrow> Inr x)"

text \<open>
  \<open>operator[]\<close> with a key on a value that may change: an object gets a null member, any other
  value but null makes the library throw.
\<close>

definition j_index :: "'j json_api \<Rightarrow> 'j \<Rightarrow> string \<Rightarrow> 'j res" where
  "j_index api v key =
     (if j_is_object api v then (case j_member api v key of None \<Rightarrow> Inr (j_null api) | Some x \<Rightarrow> Inr x)
      else if j_is_null api v then Inr (j_null api)
      else Inl Json_exception)"

definition j_contains :: "'j json_api \<Rightarrow> 'j \<Rightarrow> string \<Rightarrow> bool" where
  "j_contains api v key \<longleftrightarrow> j_is_object api v \<and> j_member api v key \<noteq> None"

text \<open>A braced pair of a key and a value.\<close>

definition j_pair :: "'j json_api \<Rightarrow> string \<Rightarrow> 'j \<Rightarrow> 'j" where
  "j_pair api key v = j_init api [j_string api key, v]"

end
