(* ===== verification/MessageBus.thy ===== *)
theory MessageBus
  imports Sockets Json
begin

text \<open>
  Messages of the bus and its clients (\<open>lib/messagebus\<close>). A message has a class, a type and JSON
  content; on the wire it is a length and three strings with their lengths.
\<close>

section \<open>Messages\<close>

datatype bus_message =
    Opaque_message (om_class: string) (om_type: string) (om_content: string)
  | Set_subscriptions_message (ss_subscriptions: "string list")
  | Test_message (tm_message: string)

definition max_message_size :: nat where "max_message_size = 32768"

definition meta_class :: string where "meta_class = ''__meta__''"
definition set_subscriptions_type :: string where "set_subscriptions_type = ''setSubscriptions''"
definition test_class :: string where "test_class = ''test''"
definition test_type :: string where "test_type = ''helloWorld''"

fun message_class :: "bus_message \<Rightarrow> string" where
  "message_class (Opaque_message c t x) = c"
| "message_class (Set_subscriptions_message subs) = meta_class"
| "message_class (Test_message text) = test_class"

fun message_type :: "bus_message \<Rightarrow> string" where
  "message_type (Opaque_message c t x) = t"
| "message_type (Set_subscriptions_message subs) = set_subscriptions_type"
| "message_type (Test_message text) = test_type"

text \<open>\<open>encodeContent\<close> of the three classes.\<close>

definition opaque_content :: "'j json_api \<Rightarrow> string \<Rightarrow> 'j res" where
  [simp]: "opaque_content api content = j_parse api (str_bytes content)"

definition subscriptions_content :: "'j json_api \<Rightarrow> string list \<Rightarrow> 'j res" where
  [simp]: "subscriptions_content api subs =
     Inr (j_init api [j_pair api ''subscriptions'' (j_array api (map (j_string api) subs))])"

definition test_content :: "'j json_api \<Rightarrow> string \<Rightarrow> 'j res" where
  [simp]: "test_content api text = Inr (j_init api [j_pair api ''message'' (j_string api text)])"

fun encode_content :: "'j json_api \<Rightarrow> bus_message \<Rightarrow> 'j res" where
  "encode_content api (Opaque_message c t x) = opaque_content api x"
| "encode_content api (Set_subscriptions_message subs) = subscriptions_content api subs"
| "encode_content api (Test_message text) = test_content api text"

text \<open>
  \<open>is\<close> compares the names, and \<open>as\<close> casts without a check when they agree: a message of the right
  names that is of another class in the program is read as what it is not.
\<close>

definition message_is :: "string \<Rightarrow> string \<Rightarrow> bus_message \<Rightarrow> bool" where
  "message_is messageClass messageType m \<longleftrightarrow> message_class m = messageClass \<and> message_type m = messageType"

definition message_as :: "string \<Rightarrow> string \<Rightarrow> (bus_message \<Rightarrow> 'a option) \<Rightarrow> bus_message \<Rightarrow> 'a res" where
  "message_as messageClass messageType members m =
     (if \<not> message_is messageClass messageType m then Inl (Runtime_error ''Invalid runtime cast'')
      else (case members m of None \<Rightarrow> Inl (Undefined ''cast to another class'') | Some x \<Rightarrow> Inr x))"

definition as_subscriptions :: "bus_message \<Rightarrow> string list res" where
  "as_subscriptions = message_as meta_class set_subscriptions_type
     (\<lambda>m. case m of Set_subscriptions_message subs \<Rightarrow> Some subs | _ \<Rightarrow> None)"

definition write_parts :: "string \<Rightarrow> string \<Rightarrow> string \<Rightarrow> bytes" where
  "write_parts messageClass messageType content =
     write_string (write_string (write_string [] messageClass) messageType) content"

definition message_encode :: "'j json_api \<Rightarrow> bus_message \<Rightarrow> bytes res" where
  "message_encode api m =
     rbind (encode_content api m) (\<lambda>content.
       let payload = write_parts (message_class m) (message_type m) (j_dump api content)
       in Inr (write_ref [] payload))"

text \<open>
  \<open>raw\<close>, for the log: the content that was set, or that of now; a message does not change, so that is
  the same.
\<close>

definition message_raw :: "'j json_api \<Rightarrow> 'j option \<Rightarrow> bus_message \<Rightarrow> string res" where
  "message_raw api content m =
     (case content of
        None \<Rightarrow> rbind (encode_content api m) (\<lambda>content. Inr (j_dump api content))
      | Some content \<Rightarrow> Inr (j_dump api content))"

lemma message_encode_raw:
  "message_encode api m =
     rbind (message_raw api None m) (\<lambda>text. Inr (write_ref [] (write_parts (message_class m) (message_type m) text)))"
  by (simp add: message_encode_def message_raw_def rbind_def Let_def split: sum.split)

type_synonym instantiator = "string \<Rightarrow> string \<Rightarrow> string \<Rightarrow> bus_message res"

definition do_decode :: "instantiator \<Rightarrow> bytes \<Rightarrow> bus_message res" where
  "do_decode instantiator message =
     (if length message > max_message_size then Inl (Runtime_error ''Message too large'')
      else
        rbind (reader_u32 message) (\<lambda>(messageSize, reader).
        if unat messageSize \<noteq> reader_remaining reader
        then Inl (Runtime_error ''Message does not match header size'')
        else
          rbind (reader_string reader) (\<lambda>(messageClass, reader).
          rbind (reader_string reader) (\<lambda>(messageType, reader).
          rbind (reader_string reader) (\<lambda>(content, reader).
          if reader_remaining reader \<noteq> 0 then Inl (Runtime_error ''Message does not match content size'')
          else instantiator messageClass messageType content)))))"

definition opaque_make :: instantiator where
  "opaque_make messageClass messageType content = Inr (Opaque_message messageClass messageType content)"

text \<open>
  \<open>json["subscriptions"]\<close> on a value without it is null, and null is no list of strings: the library
  throws in both cases.
\<close>

definition set_subscriptions_make :: "'j json_api \<Rightarrow> instantiator" where
  "set_subscriptions_make api messageClass messageType content =
     rbind (j_parse api (str_bytes content)) (\<lambda>v.
     case j_member api v ''subscriptions'' of
       None \<Rightarrow> Inl Json_exception
     | Some subs \<Rightarrow> rbind (j_get_strings api subs) (\<lambda>ss. Inr (Set_subscriptions_message ss)))"

section \<open>The factory\<close>

type_synonym implementation = "string \<times> string \<times> instantiator"

fun factory_register ::
  "string \<Rightarrow> string \<Rightarrow> instantiator \<Rightarrow> implementation list \<Rightarrow> implementation list" where
  "factory_register messageClass messageType inst implementations =
     (if list_ex (\<lambda>(c, t, _). c = messageClass \<and> t = messageType) implementations
      then implementations
      else implementations @ [(messageClass, messageType, inst)])"

definition factory_make :: "implementation list \<Rightarrow> instantiator" where
  "factory_make implementations messageClass messageType content =
     (case find (\<lambda>(c, t, _). c = messageClass \<and> t = messageType) implementations of
        Some (_, _, inst) \<Rightarrow> inst messageClass messageType content
      | None \<Rightarrow> Inl (Runtime_error ''Unsupported message bus message''))"

text \<open>What the library registers; a program adds the messages of its own.\<close>

definition registered :: "'j json_api \<Rightarrow> implementation list" where
  "registered api =
     factory_register meta_class set_subscriptions_type (set_subscriptions_make api) []"

definition decode_opaque :: "bytes \<Rightarrow> bus_message res" where
  "decode_opaque message = do_decode opaque_make message"

definition message_decode :: "implementation list \<Rightarrow> bytes \<Rightarrow> bus_message res" where
  "message_decode implementations message = do_decode (factory_make implementations) message"

section \<open>The framing of the stream\<close>

definition message_stream_size :: "bytes \<Rightarrow> nat res" where
  "message_stream_size buffer =
     (if length buffer < 4 then Inr 0
      else
        rbind (reader_u32 buffer) (\<lambda>(packetSize, reader).
        if unat packetSize > max_message_size
        then Inl (Runtime_error ''Received invalid message bus packet: message too long'')
        else if reader_remaining reader < unat packetSize then Inr 0
        else Inr (4 + unat packetSize)))"

lemma reader_u32_split:
  "4 \<le> length bs \<Longrightarrow> reader_u32 bs = Inr (mem_u32 (take 4 bs), drop 4 bs)"
  by (simp add: reader_u32_def reader_advance_def)

lemma message_stream_size_eq:
  "message_stream_size buffer =
     (let n = unat (mem_u32 (take 4 buffer)) in
      if length buffer < 4 then Inr 0
      else if n > max_message_size then Inl (Runtime_error ''Received invalid message bus packet: message too long'')
      else if length buffer < 4 + n then Inr 0 else Inr (4 + n))"
  by (auto simp: message_stream_size_def reader_u32_split reader_remaining_def Let_def)

interpretation bus_framing: framing message_stream_size
  by unfold_locales
    (auto simp: message_stream_size_eq Let_def split: if_splits)

section \<open>The wire format\<close>

interpretation two_strings: codec_pair "write_string []" reader_string short_string
  "write_string []" reader_string short_string
  by (intro codec_pair.intro string_codec.codec_axioms)

interpretation three_strings: codec_pair "write_string []" reader_string short_string
  "\<lambda>(x, y). write_string [] x @ write_string [] y"
  "\<lambda>bs. rbind (reader_string bs) (\<lambda>(x, r). rbind (reader_string r) (\<lambda>(y, s). Inr ((x, y), s)))"
  "\<lambda>(x, y). short_string x \<and> short_string y"
  by (intro codec_pair.intro string_codec.codec_axioms two_strings.both.codec_axioms)

lemma write_parts_eq:
  "write_parts c t x = write_string [] c @ write_string [] t @ write_string [] x"
  by (simp add: write_parts_def write_string_def byte_simps)

lemma read_parts:
  "rbind (reader_string bs) (\<lambda>(c, r). rbind (reader_string r) (\<lambda>(t, r'). rbind (reader_string r') (\<lambda>(x, rest).
     f c t x rest))) = Inr v \<longleftrightarrow>
   (\<exists>c t x rest. short_string c \<and> short_string t \<and> short_string x \<and>
      bs = write_parts c t x @ rest \<and> f c t x rest = Inr v)"
proof -
  have "rbind (reader_string bs) (\<lambda>(c, r). rbind (reader_string r) (\<lambda>(t, r'). rbind (reader_string r') (\<lambda>(x, rest).
     f c t x rest))) = Inr v \<longleftrightarrow>
    (\<exists>c r t r' x rest. reader_string bs = Inr (c, r) \<and> reader_string r = Inr (t, r') \<and>
       reader_string r' = Inr (x, rest) \<and> f c t x rest = Inr v)"
    by (auto simp: rbind_eq_Inr)
  also have "\<dots> \<longleftrightarrow> (\<exists>c t x rest. short_string c \<and> short_string t \<and> short_string x \<and>
      bs = write_parts c t x @ rest \<and> f c t x rest = Inr v)"
    unfolding string_codec.dec_iff write_parts_eq append_assoc by blast
  finally show ?thesis .
qed

text \<open>What is decoded is exactly the encoding of its three parts, of at most the maximal size.\<close>

lemma do_decode_iff:
  "do_decode inst message = Inr m \<longleftrightarrow>
   (\<exists>c t x. message = write_ref [] (write_parts c t x) \<and> length message \<le> max_message_size \<and>
      inst c t x = Inr m)"
proof -
  have small: "short_string c \<and> short_string t \<and> short_string x \<and> unat (word_of_nat (length (write_parts c t x)) :: u32) =
      length (write_parts c t x)" if "length (write_parts c t x) \<le> max_message_size" for c t x
  proof -
    have "length (write_parts c t x) = length c + length t + length x + 12"
      by (simp add: write_parts_eq write_string_def byte_simps)
    moreover have "unat (word_of_nat (length (write_parts c t x)) :: u32) = length (write_parts c t x)"
      using that by (intro unat_u32_small) (simp add: max_message_size_def)
    ultimately show ?thesis using that by (simp add: short_string_def max_message_size_def)
  qed
  have "do_decode inst message = Inr m \<longleftrightarrow> length message \<le> max_message_size \<and>
    (\<exists>n reader. reader_u32 message = Inr (n, reader) \<and> unat n = length reader \<and>
      (\<exists>c t x. short_string c \<and> short_string t \<and> short_string x \<and> reader = write_parts c t x \<and>
         inst c t x = Inr m))"
  proof -
    have inner: "rbind (reader_string reader) (\<lambda>(c, r). rbind (reader_string r) (\<lambda>(t, r'). rbind (reader_string r') (\<lambda>(x, rest).
        if reader_remaining rest \<noteq> 0 then Inl (Runtime_error ''Message does not match content size'')
        else inst c t x))) = Inr m \<longleftrightarrow>
      (\<exists>c t x. short_string c \<and> short_string t \<and> short_string x \<and> reader = write_parts c t x \<and> inst c t x = Inr m)"
      for reader
      unfolding read_parts by (auto simp: reader_remaining_def)
    show ?thesis
    proof (cases "reader_u32 message")
      case (Inl e)
      then show ?thesis by (simp add: do_decode_def)
    next
      case (Inr p)
      obtain n reader where p: "p = (n, reader)" by fastforce
      have guards: "((if A then Inl e else if B then Inl e' else X) = Inr m) = (\<not> A \<and> \<not> B \<and> X = Inr m)"
        for A B e e' and X :: "bus_message res" by auto
      have "do_decode inst message = Inr m \<longleftrightarrow> \<not> max_message_size < length message \<and>
          unat n = reader_remaining reader \<and>
          rbind (reader_string reader) (\<lambda>(c, r). rbind (reader_string r) (\<lambda>(t, r'). rbind (reader_string r') (\<lambda>(x, rest).
            if reader_remaining rest \<noteq> 0 then Inl (Runtime_error ''Message does not match content size'')
            else inst c t x))) = Inr m"
        unfolding do_decode_def Inr p rbind_Inr prod.case guards not_not by (rule refl)
      then show ?thesis unfolding inner Inr p by (auto simp: reader_remaining_def)
    qed
  qed
  also have "\<dots> \<longleftrightarrow> length message \<le> max_message_size \<and>
    (\<exists>c t x n. message = u32_mem n @ write_parts c t x \<and> unat n = length (write_parts c t x) \<and>
       short_string c \<and> short_string t \<and> short_string x \<and> inst c t x = Inr m)"
    unfolding u32_codec.dec_iff by blast
  also have "\<dots> \<longleftrightarrow> (\<exists>c t x. message = write_ref [] (write_parts c t x) \<and>
      length message \<le> max_message_size \<and> inst c t x = Inr m)"
  proof (rule iffI)
    assume "length message \<le> max_message_size \<and>
      (\<exists>c t x n. message = u32_mem n @ write_parts c t x \<and> unat n = length (write_parts c t x) \<and>
         short_string c \<and> short_string t \<and> short_string x \<and> inst c t x = Inr m)"
    then obtain c t x n where *: "length message \<le> max_message_size" "message = u32_mem n @ write_parts c t x"
      "unat n = length (write_parts c t x)" "inst c t x = Inr m" by blast
    have "n = word_of_nat (unat n)" by simp
    then have "n = word_of_nat (length (write_parts c t x))" using *(3) by metis
    with * show "\<exists>c t x. message = write_ref [] (write_parts c t x) \<and>
      length message \<le> max_message_size \<and> inst c t x = Inr m" by (auto simp: byte_simps)
  next
    assume "\<exists>c t x. message = write_ref [] (write_parts c t x) \<and>
      length message \<le> max_message_size \<and> inst c t x = Inr m"
    then obtain c t x where *: "message = u32_mem (word_of_nat (length (write_parts c t x))) @ write_parts c t x"
      "length message \<le> max_message_size" "inst c t x = Inr m" by (auto simp: byte_simps)
    then have "length (write_parts c t x) \<le> max_message_size" by simp
    from small [OF this] * show "length message \<le> max_message_size \<and>
      (\<exists>c t x n. message = u32_mem n @ write_parts c t x \<and> unat n = length (write_parts c t x) \<and>
         short_string c \<and> short_string t \<and> short_string x \<and> inst c t x = Inr m)" by blast
  qed
  finally show ?thesis .
qed

text \<open>The length of an encoding, and what framing and decoding make of it.\<close>

lemma encoded_frame:
  assumes "length payload \<le> max_message_size"
  shows "message_stream_size (write_ref [] payload) = Inr (length (write_ref [] payload))"
proof -
  have "unat (word_of_nat (length payload) :: u32) = length payload"
    using assms by (intro unat_u32_small) (simp add: max_message_size_def)
  with assms show ?thesis
    by (simp add: message_stream_size_eq byte_simps mem_u32_u32_mem max_message_size_def)
qed

lemma decode_opaque_encoded:
  "decode_opaque (write_ref [] (write_parts c t x)) =
     (if length (write_ref [] (write_parts c t x)) \<le> max_message_size then Inr (Opaque_message c t x)
      else Inl (Runtime_error ''Message too large''))"
proof (cases "length (write_ref [] (write_parts c t x)) \<le> max_message_size")
  case True
  then have "do_decode opaque_make (write_ref [] (write_parts c t x)) = Inr (Opaque_message c t x)"
    unfolding do_decode_iff opaque_make_def by blast
  with True show ?thesis by (simp add: decode_opaque_def)
qed (simp add: decode_opaque_def do_decode_def)

section \<open>Clients\<close>

record bus_client =
  bc_subscriptions :: "string list"
  bc_sent :: "bytes list"

definition client_broadcast :: "'j json_api \<Rightarrow> bus_message \<Rightarrow> (bus_client, unit) op" where
  "client_broadcast api message c =
     (case message_encode api message of
        Inl e \<Rightarrow> (Inl e, c)
      | Inr packet \<Rightarrow> (Inr (), c\<lparr>bc_sent := bc_sent c @ [packet]\<rparr>))"

definition broadcast_subscriptions :: "'j json_api \<Rightarrow> (bus_client, unit) op" where
  "broadcast_subscriptions api c = client_broadcast api (Set_subscriptions_message (bc_subscriptions c)) c"

definition set_subscriptions :: "'j json_api \<Rightarrow> string list \<Rightarrow> (bus_client, unit) op" where
  "set_subscriptions api messageClasses c =
     (if messageClasses \<noteq> bc_subscriptions c
      then op_bind (client_broadcast api (Set_subscriptions_message messageClasses))
             (\<lambda>_. op_set (\<lambda>c. c\<lparr>bc_subscriptions := messageClasses\<rparr>)) c
      else (Inr (), c))"

definition subscribe :: "'j json_api \<Rightarrow> string \<Rightarrow> (bus_client, unit) op" where
  "subscribe api messageClass c =
     (if messageClass \<in> set (bc_subscriptions c) then (Inr (), c)
      else broadcast_subscriptions api (c\<lparr>bc_subscriptions := bc_subscriptions c @ [messageClass]\<rparr>))"

definition unsubscribe :: "'j json_api \<Rightarrow> string \<Rightarrow> (bus_client, unit) op" where
  "unsubscribe api messageClass c =
     (if messageClass \<in> set (bc_subscriptions c)
      then broadcast_subscriptions api (c\<lparr>bc_subscriptions := remove1 messageClass (bc_subscriptions c)\<rparr>)
      else (Inr (), c))"

definition bus_on_reconnect :: "'j json_api \<Rightarrow> (bus_client, unit) op" where
  "bus_on_reconnect api = broadcast_subscriptions api"

text \<open>\<open>handle\<close> is what the application does with a message; nothing it throws gets out.\<close>

definition bus_on_receive ::
  "implementation list \<Rightarrow> (bus_message \<Rightarrow> ('s, unit) op) \<Rightarrow> bytes \<Rightarrow> ('s, unit) op" where
  "bus_on_receive implementations handle packet s =
     (case message_decode implementations packet of
        Inl e \<Rightarrow> (Inr (), s)
      | Inr message \<Rightarrow> (case handle message s of (_, s') \<Rightarrow> (Inr (), s')))"

text \<open>
  What is needed of the JSON library for subscriptions to arrive: the text of a list of strings
  under a key is read back as that list.
\<close>

definition json_subscriptions :: "'j json_api \<Rightarrow> bool" where
  "json_subscriptions api \<longleftrightarrow>
     (\<forall>subs. \<exists>v w.
        j_parse api (str_bytes (j_dump api
          (j_init api [j_pair api ''subscriptions'' (j_array api (map (j_string api) subs))]))) = Inr v \<and>
        j_member api v ''subscriptions'' = Some w \<and> j_get_strings api w = Inr subs)"

lemma message_decode_subscriptions:
  assumes "json_subscriptions api" "message_encode api (Set_subscriptions_message subs) = Inr packet"
    and "length packet \<le> max_message_size"
  shows "message_decode (registered api) packet = Inr (Set_subscriptions_message subs)"
proof -
  let ?content = "j_dump api (j_init api [j_pair api ''subscriptions'' (j_array api (map (j_string api) subs))])"
  have packet: "packet = write_ref [] (write_parts meta_class set_subscriptions_type ?content)"
    using assms(2) by (simp add: message_encode_def)
  obtain v w where "j_parse api (str_bytes ?content) = Inr v"
    "j_member api v ''subscriptions'' = Some w" "j_get_strings api w = Inr subs"
    using assms(1) unfolding json_subscriptions_def by blast
  then have "factory_make (registered api) meta_class set_subscriptions_type ?content = Inr (Set_subscriptions_message subs)"
    by (simp add: factory_make_def registered_def set_subscriptions_make_def)
  with packet assms(3) show ?thesis
    unfolding message_decode_def do_decode_iff by blast
qed

definition subscriptions_inv :: "bus_client \<Rightarrow> bool" where
  "subscriptions_inv c \<longleftrightarrow> distinct (bc_subscriptions c)"

lemma broadcast_subscriptions_same [simp]:
  "bc_subscriptions (snd (broadcast_subscriptions api c)) = bc_subscriptions c"
  by (simp add: broadcast_subscriptions_def client_broadcast_def split: sum.split)

lemma subscribe_subscriptions:
  "bc_subscriptions (snd (subscribe api x c)) =
     (if x \<in> set (bc_subscriptions c) then bc_subscriptions c else bc_subscriptions c @ [x])"
  by (simp add: subscribe_def)

lemma unsubscribe_subscriptions:
  "bc_subscriptions (snd (unsubscribe api x c)) = remove1 x (bc_subscriptions c)"
  by (simp add: unsubscribe_def remove1_idem)

lemma keeps_subscriptions:
  "keeps subscriptions_inv (subscribe api x)" "keeps subscriptions_inv (unsubscribe api x)"
  by (auto simp: keeps_def subscriptions_inv_def subscribe_subscriptions unsubscribe_subscriptions)

end
