(* ===== verification/Relay.thy ===== *)
theory Relay
  imports MessageBus
begin

text \<open>
  The relay of the message bus (\<open>mbus-relayd\<close>): it keeps what each connection is subscribed to and
  queues every other message for the connections subscribed to its class; a worker per connection
  sends what is queued.
\<close>

section \<open>Connections\<close>

record bus_connection =
  rc_subscriptions :: "string list"
  rc_queue :: "bus_message queue"
  rc_sent :: "bytes list"

definition bus_connection_new :: bus_connection where
  "bus_connection_new = \<lparr>rc_subscriptions = [], rc_queue = queue_new, rc_sent = []\<rparr>"

fun any_entry :: "string list \<Rightarrow> string \<Rightarrow> bool" where
  "any_entry [] messageClass = False"
| "any_entry (entry # entries) messageClass =
     (if entry = messageClass then True else any_entry entries messageClass)"

definition is_subscribed_to :: "string \<Rightarrow> bus_connection \<Rightarrow> bool" where
  "is_subscribed_to messageClass c = any_entry (rc_subscriptions c) messageClass"

definition queue_message_if_subscribed :: "bus_message \<Rightarrow> bus_connection \<Rightarrow> bus_connection" where
  "queue_message_if_subscribed message c =
     (if is_subscribed_to (message_class message) c
      then c\<lparr>rc_queue := queue_push message (rc_queue c)\<rparr> else c)"

definition process_protocol_meta_message :: "bus_message \<Rightarrow> (bus_connection, unit) op" where
  "process_protocol_meta_message message c =
     (if message_is meta_class set_subscriptions_type message
      then (case as_subscriptions message of
              Inl e \<Rightarrow> (Inl e, c)
            | Inr subs \<Rightarrow> (Inr (), c\<lparr>rc_subscriptions := subs\<rparr>))
      else (Inl (Runtime_error ''Unsupported protocol meta message''), c))"

text \<open>What the worker of a connection does with a message: encode and send it.\<close>

definition send_event :: "'j json_api \<Rightarrow> bus_message \<Rightarrow> (bytes list, unit) op" where
  "send_event api event sent =
     (case message_encode api event of
        Inl e \<Rightarrow> (Inl e, sent)
      | Inr packet \<Rightarrow> (Inr (), sent @ [packet]))"

definition run_worker :: "'j json_api \<Rightarrow> bus_connection \<Rightarrow> unit res \<times> bus_connection" where
  "run_worker api c =
     (case worker_main (send_event api) (length (q_items (rc_queue c))) (rc_queue c) (rc_sent c) of
        (r, q, sent) \<Rightarrow> (r, c\<lparr>rc_queue := q, rc_sent := sent\<rparr>))"

section \<open>The server\<close>

definition broadcast_to_clients :: "bus_message \<Rightarrow> bus_connection list \<Rightarrow> bus_connection list" where
  "broadcast_to_clients message connections = map (queue_message_if_subscribed message) connections"

definition effective_broadcast_clients :: "string \<Rightarrow> bus_connection list \<Rightarrow> nat" where
  "effective_broadcast_clients messageClass connections =
     fold (\<lambda>c matching. if is_subscribed_to messageClass c then matching + 1 else matching) connections 0"

text \<open>
  \<open>BusConnection::onReceive\<close> of connection number \<open>i\<close>. The first decoding is outside every \<open>try\<close>:
  what it throws leaves the handler and ends the thread.
\<close>

definition relay_on_receive ::
  "'j json_api \<Rightarrow> nat \<Rightarrow> bytes \<Rightarrow> (bus_connection list, unit) op" where
  "relay_on_receive api i packet connections =
     (case decode_opaque packet of
        Inl e \<Rightarrow> (Inl e, connections)
      | Inr message \<Rightarrow>
          if message_class message = meta_class
          then
            (case message_decode (registered api) packet of
               Inl _ \<Rightarrow> (Inr (), connections)
             | Inr meta \<Rightarrow>
                 (case process_protocol_meta_message meta (connections ! i) of
                    (_, c) \<Rightarrow> (Inr (), connections[i := c])))
          else (Inr (), broadcast_to_clients message connections))"

section \<open>Delivery\<close>

lemma any_entry_iff: "any_entry entries x \<longleftrightarrow> x \<in> set entries"
  by (induction entries) auto

lemma is_subscribed_iff: "is_subscribed_to x c \<longleftrightarrow> x \<in> set (rc_subscriptions c)"
  by (simp add: is_subscribed_to_def any_entry_iff)

lemma effective_broadcast_clients_eq:
  "effective_broadcast_clients x cs = length (filter (is_subscribed_to x) cs)"
proof -
  have "fold (\<lambda>c matching. if is_subscribed_to x c then matching + 1 else matching) cs n =
      n + length (filter (is_subscribed_to x) cs)" for n
    by (induction cs arbitrary: n) auto
  then show ?thesis by (simp add: effective_broadcast_clients_def)
qed

text \<open>An encoded message of an application class reaches the queues of the subscribers, and no other.\<close>

lemma relay_delivers_to_subscribers:
  assumes "packet = write_ref [] (write_parts c t x)" "length packet \<le> max_message_size" "c \<noteq> meta_class"
  shows "relay_on_receive api i packet connections =
    (Inr (), map (\<lambda>conn. if c \<in> set (rc_subscriptions conn)
       then conn\<lparr>rc_queue := queue_push (Opaque_message c t x) (rc_queue conn)\<rparr> else conn) connections)"
proof -
  have "decode_opaque packet = Inr (Opaque_message c t x)"
    using assms decode_opaque_encoded [of c t x] by simp
  with assms(3) show ?thesis
    by (simp add: relay_on_receive_def broadcast_to_clients_def queue_message_if_subscribed_def
        is_subscribed_iff cong: map_cong)
qed

text \<open>A client's subscriptions become those of its connection.\<close>

lemma relay_subscribes:
  assumes "json_subscriptions api"
    and "message_encode api (Set_subscriptions_message subs) = Inr packet" "length packet \<le> max_message_size"
    and "i < length connections"
  shows "relay_on_receive api i packet connections =
    (Inr (), connections[i := (connections ! i)\<lparr>rc_subscriptions := subs\<rparr>])"
proof -
  let ?content = "j_dump api (j_init api [j_pair api ''subscriptions'' (j_array api (map (j_string api) subs))])"
  have "packet = write_ref [] (write_parts meta_class set_subscriptions_type ?content)"
    using assms(2) by (simp add: message_encode_def)
  then have "decode_opaque packet = Inr (Opaque_message meta_class set_subscriptions_type ?content)"
    using decode_opaque_encoded assms(3) by simp
  moreover have "message_decode (registered api) packet = Inr (Set_subscriptions_message subs)"
    using message_decode_subscriptions assms by blast
  ultimately show ?thesis
    by (simp add: relay_on_receive_def process_protocol_meta_message_def message_is_def
        as_subscriptions_def message_as_def)
qed

lemma subscribe_sends:
  assumes "subscribe api x c = (Inr (), c')"
  shows "bc_sent c' = bc_sent c \<and> c' = c \<or>
    (\<exists>packet. bc_sent c' = bc_sent c @ [packet] \<and>
       message_encode api (Set_subscriptions_message (bc_subscriptions c')) = Inr packet)"
  using assms
  by (auto simp: subscribe_def broadcast_subscriptions_def client_broadcast_def split: if_splits sum.splits)

text \<open>A client that subscribes sends one packet, and the relay takes over what it says.\<close>

lemma relay_follows_client:
  assumes "json_subscriptions api" "subscribe api x c = (Inr (), c')" "x \<notin> set (bc_subscriptions c)"
    and "i < length connections"
  shows "\<exists>packet. bc_sent c' = bc_sent c @ [packet] \<and> bc_subscriptions c' = bc_subscriptions c @ [x] \<and>
    (length packet \<le> max_message_size \<longrightarrow>
      relay_on_receive api i packet connections =
        (Inr (), connections[i := (connections ! i)\<lparr>rc_subscriptions := bc_subscriptions c'\<rparr>]))"
proof -
  have subs: "bc_subscriptions c' = bc_subscriptions c @ [x]"
    using assms(2,3) subscribe_subscriptions [of api x c] by simp
  then have "c' \<noteq> c" by auto
  with subscribe_sends [OF assms(2)] obtain packet where packet: "bc_sent c' = bc_sent c @ [packet]"
    "message_encode api (Set_subscriptions_message (bc_subscriptions c')) = Inr packet" by auto
  with subs relay_subscribes [OF assms(1) packet(2) _ assms(4)] show ?thesis by blast
qed

text \<open>What is queued is sent in order; content is parsed again on the way, and text that is no JSON ends the worker.\<close>

definition can_encode :: "'j json_api \<Rightarrow> bus_message \<Rightarrow> bool" where
  "can_encode api m \<longleftrightarrow> (case message_encode api m of Inl _ \<Rightarrow> False | Inr _ \<Rightarrow> True)"

definition encoded :: "'j json_api \<Rightarrow> bus_message \<Rightarrow> bytes" where
  "encoded api m = (case message_encode api m of Inl _ \<Rightarrow> [] | Inr packet \<Rightarrow> packet)"

lemma process_all_send:
  "list_all (can_encode api) ms \<Longrightarrow>
   process_all (send_event api) ms sent = (Inr (), sent @ map (encoded api) ms)"
  by (induction ms arbitrary: sent)
    (auto simp: op_bind_def send_event_def can_encode_def encoded_def split: sum.splits)

lemma run_worker_sends:
  assumes "queue_ok (rc_queue c)" "list_all (can_encode api) (q_items (rc_queue c))"
  shows "fst (run_worker api c) = Inr () \<and>
    rc_sent (snd (run_worker api c)) = rc_sent c @ map (encoded api) (q_items (rc_queue c))"
proof -
  obtain r q sent where run:
    "worker_main (send_event api) (length (q_items (rc_queue c))) (rc_queue c) (rc_sent c) = (r, q, sent)"
    by (metis prod_cases3)
  have "(r, sent) = process_all (send_event api) (q_items (rc_queue c)) (rc_sent c)"
    using worker_main_in_order [OF assms(1) order_refl, of "send_event api" "rc_sent c"] run by simp
  with process_all_send [OF assms(2)] run show ?thesis by (simp add: run_worker_def)
qed

end
