(* ===== verification/Hashes.thy ===== *)
theory Hashes
  imports ByteStrings Doubles "HOL-Library.List_Lexorder"
begin

text \<open>
  \<open>lib/mining/Hash.cpp\<close>, \<open>Hash160.h\<close>, \<open>Hash256.cpp\<close>, \<open>swap32.h\<close> and the plugin
  interface \<open>lib/interfaces/plugins/HashPlugin.h\<close> with its two plugins and the plugin manager of
  \<open>hashplugin.cpp\<close>. A hash is the array of its bytes; \<open>wf_hash\<close> is the array's length, which the
  C++ type fixes. The hash functions themselves (\<open>CSHA256\<close>, \<open>allium_hash\<close>) are not part of the
  repository and are parameters.
\<close>

section \<open>Hash values\<close>

datatype hash256 = Hash256 (raw256: bytes)
datatype hash160 = Hash160 (raw160: bytes)

definition wf_hash :: "hash256 \<Rightarrow> bool" where "wf_hash h \<longleftrightarrow> length (raw256 h) = 32"
definition wf_hash160 :: "hash160 \<Rightarrow> bool" where "wf_hash160 h \<longleftrightarrow> length (raw160 h) = 20"

definition hash_from_ref :: "nat \<Rightarrow> bytes \<Rightarrow> bytes res" where
  "hash_from_ref s src =
     (if length src \<noteq> s then Inl (Runtime_error ''Cannot interpret data as hash'')
      else Inr (take s src))"

definition hash256_from :: "bytes \<Rightarrow> hash256 res" where
  "hash256_from src = rbind (hash_from_ref 32 src) (\<lambda>r. Inr (Hash256 r))"

definition hash160_from :: "bytes \<Rightarrow> hash160 res" where
  "hash160_from src = rbind (hash_from_ref 20 src) (\<lambda>r. Inr (Hash160 r))"

definition hash256_zero :: hash256 where "hash256_zero = Hash256 (replicate 32 0)"
definition hash160_zero :: hash160 where "hash160_zero = Hash160 (replicate 20 0)"

text \<open>\<open>memcmp\<close> over the first \<open>n\<close> bytes: the sign of the first difference.\<close>

fun memcmp :: "bytes \<Rightarrow> bytes \<Rightarrow> nat \<Rightarrow> int" where
  "memcmp (x # xs) (y # ys) (Suc n) =
     (if x = y then memcmp xs ys n else if x < y then - 1 else 1)"
| "memcmp _ _ _ = 0"

definition hash_is_equal :: "bytes \<Rightarrow> bytes \<Rightarrow> nat \<Rightarrow> bool" where
  "hash_is_equal this them s \<longleftrightarrow> memcmp this them s = 0"

definition hash_is_lower :: "bytes \<Rightarrow> bytes \<Rightarrow> bool \<Rightarrow> nat \<Rightarrow> bool" where
  "hash_is_lower this them orEqual s \<longleftrightarrow> memcmp this them s < (if orEqual then 1 else 0)"

definition hash256_eq :: "hash256 \<Rightarrow> hash256 \<Rightarrow> bool" where
  "hash256_eq a b = hash_is_equal (raw256 a) (raw256 b) 32"

definition hash256_lt :: "hash256 \<Rightarrow> hash256 \<Rightarrow> bool" where
  "hash256_lt a b = hash_is_lower (raw256 a) (raw256 b) False 32"

definition hash256_le :: "hash256 \<Rightarrow> hash256 \<Rightarrow> bool" where
  "hash256_le a b = hash_is_lower (raw256 a) (raw256 b) True 32"

definition hash160_eq :: "hash160 \<Rightarrow> hash160 \<Rightarrow> bool" where
  "hash160_eq a b = hash_is_equal (raw160 a) (raw160 b) 20"

definition hash160_lt :: "hash160 \<Rightarrow> hash160 \<Rightarrow> bool" where
  "hash160_lt a b = hash_is_lower (raw160 a) (raw160 b) False 20"

text \<open>\<open>return this->isLower(them), true;\<close> is a comma expression: the comparison is discarded.\<close>

definition hash160_le :: "hash160 \<Rightarrow> hash160 \<Rightarrow> bool" where
  "hash160_le a b = (let _ = hash_is_lower (raw160 a) (raw160 b) False 20 in True)"

text \<open>The order of the library on byte lists is the lexicographic one.\<close>

instantiation hash256 :: linorder
begin

definition less_eq_hash256 :: "hash256 \<Rightarrow> hash256 \<Rightarrow> bool" where
  "less_eq_hash256 a b \<longleftrightarrow> raw256 a \<le> raw256 b"

definition less_hash256 :: "hash256 \<Rightarrow> hash256 \<Rightarrow> bool" where
  "less_hash256 a b \<longleftrightarrow> raw256 a < raw256 b"

instance
  by standard (auto simp: less_eq_hash256_def less_hash256_def hash256.expand)

end

lemma memcmp_lex:
  "length xs = n \<Longrightarrow> length ys = n \<Longrightarrow>
   memcmp xs ys n = (if xs = ys then 0 else if xs < ys then - 1 else 1)"
proof (induction xs ys n rule: memcmp.induct)
  case (1 x xs y ys n)
  then show ?case by (auto simp: Cons_less_Cons)
qed auto

lemma hash256_order:
  assumes "wf_hash a" "wf_hash b"
  shows "hash256_eq a b \<longleftrightarrow> a = b" "hash256_lt a b \<longleftrightarrow> a < b" "hash256_le a b \<longleftrightarrow> a \<le> b"
  using assms
  by (auto simp: wf_hash_def hash256_eq_def hash256_lt_def hash256_le_def hash_is_equal_def
      hash_is_lower_def memcmp_lex less_eq_hash256_def less_hash256_def hash256.expand)

text \<open>The 256-bit number a hash is read as, most significant byte first.\<close>

definition be_nat :: "bytes \<Rightarrow> nat" where "be_nat bs = le_nat (rev bs)"

lemma be_nat_Nil [simp]: "be_nat [] = 0"
  and be_nat_Cons [simp]: "be_nat (b # bs) = unat b * 256 ^ length bs + be_nat bs"
  by (simp_all add: be_nat_def le_nat_append)

lemma be_nat_append: "be_nat (xs @ ys) = be_nat xs * 256 ^ length ys + be_nat ys"
  by (simp add: be_nat_def le_nat_append)

lemma be_nat_bound: "be_nat bs < 256 ^ length bs"
  using le_nat_bound [of "rev bs"] by (simp add: be_nat_def)

lemma be_nat_less_iff: "length xs = length ys \<Longrightarrow> be_nat xs < be_nat ys \<longleftrightarrow> xs < ys"
proof (induction xs ys rule: list_induct2)
  case Nil
  then show ?case by simp
next
  case (Cons x xs y ys)
  let ?p = "256 ^ length ys :: nat"
  have b: "be_nat xs < ?p" "be_nat ys < ?p"
    using be_nat_bound [of xs] be_nat_bound [of ys] Cons.hyps by auto
  have step: "unat u < unat v \<Longrightarrow> unat u * ?p + r < unat v * ?p + t" if "r < ?p" for u v :: u8 and r t
  proof -
    assume "unat u < unat v"
    then have "Suc (unat u) * ?p \<le> unat v * ?p" by (intro mult_le_mono1) simp
    with that show ?thesis by simp
  qed
  consider "x = y" | "x < y" | "y < x" by (rule linorder_cases)
  then show ?case
  proof cases
    case 1
    then show ?thesis using Cons by (simp add: Cons_less_Cons)
  next
    case 2
    then show ?thesis
      using step [of "be_nat xs" x y "be_nat ys"] b Cons.hyps
      by (simp add: Cons_less_Cons word_less_nat_alt)
  next
    case 3
    then have "be_nat (y # ys) < be_nat (x # xs)"
      using step [of "be_nat ys" y x "be_nat xs"] b Cons.hyps by (simp add: word_less_nat_alt)
    with 3 show ?thesis by (auto simp: Cons_less_Cons)
  qed
qed

lemma hash256_numeric:
  assumes "wf_hash a" "wf_hash b"
  shows "hash256_le a b \<longleftrightarrow> be_nat (raw256 a) \<le> be_nat (raw256 b)"
  using be_nat_less_iff [of "raw256 b" "raw256 a"] assms
  by (simp add: hash256_order wf_hash_def less_eq_hash256_def not_less [symmetric])

section \<open>Byte swapping\<close>

definition read_be32 :: "bytes \<Rightarrow> u32" where
  "read_be32 int32 =
     push_bit 24 (ucast (int32 ! 0)) OR push_bit 16 (ucast (int32 ! 1))
     OR push_bit 8 (ucast (int32 ! 2)) OR ucast (int32 ! 3)"

definition swap32 :: "u32 \<Rightarrow> u32" where
  "swap32 x = read_be32 (u32_mem x)"

definition swap32_at :: "bytes \<Rightarrow> nat \<Rightarrow> bytes" where
  "swap32_at int256 i =
     take i int256 @ u32_mem (read_be32 (take 4 (drop i int256))) @ drop (i + 4) int256"

definition swap32_256 :: "bytes \<Rightarrow> bytes" where
  "swap32_256 int256 = fold (\<lambda>k v. swap32_at v (4 * k)) [0..<8] int256"

lemma byte_of_u32: "(word_of_nat (unat (w :: u32) div 2 ^ k) :: u8) = ucast (drop_bit k w)"
proof -
  have "unat w div 2 ^ k = unat (drop_bit k w)"
    using take_bit_nat_eq_self [of "unat w" 32] unsigned_less [of w, where ?'a = nat]
    by (simp only: unsigned_drop_bit_eq) (simp add: drop_bit_eq_div)
  then show ?thesis by (simp only: of_nat_unat)
qed

lemma le_bytes_4:
  "le_bytes 4 v = [word_of_nat v, word_of_nat (v div 2 ^ 8), word_of_nat (v div 2 ^ 16), word_of_nat (v div 2 ^ 24)]"
proof -
  have "4 = Suc (Suc (Suc (Suc 0)))" by simp
  then have "le_bytes 4 v = [word_of_nat v, word_of_nat (v div 256), word_of_nat (v div 256 div 256),
      word_of_nat (v div 256 div 256 div 256)]"
    by (simp only: le_bytes.simps)
  then show ?thesis by (simp add: div_mult2_eq [symmetric])
qed

lemma u32_mem_bytes:
  "u32_mem w = [ucast w, ucast (drop_bit 8 w), ucast (drop_bit 16 w), ucast (drop_bit 24 w)]"
  unfolding u32_mem_def le_bytes_4 byte_of_u32 by (simp only: of_nat_unat)

lemma length_4_cases: "length bs = 4 \<Longrightarrow> \<exists>a b c d. bs = [a, b, c, d]"
  by (auto simp: numeral_eq_Suc length_Suc_conv)

lemma u32_mem_read_be32 [le_simps]:
  assumes "length bs = 4"
  shows "u32_mem (read_be32 bs) = rev bs"
proof -
  obtain a b c d where bs: "bs = [a, b, c, d]" using length_4_cases [OF assms] by blast
  define w where "w = read_be32 bs"
  have "ucast w = d" "ucast (drop_bit 8 w) = c" "ucast (drop_bit 16 w) = b" "ucast (drop_bit 24 w) = a"
    unfolding w_def bs read_be32_def
    by (rule bit_eqI; auto simp: bit_simps dest: bit_imp_le_length)+
  then show ?thesis unfolding w_def [symmetric] u32_mem_bytes by (simp add: bs)
qed

lemma read_be32_eq: "length bs = 4 \<Longrightarrow> read_be32 bs = mem_u32 (rev bs)"
  using u32_mem_read_be32 [of bs] mem_u32_u32_mem [of "read_be32 bs"] by simp

lemma swap32_swap32 [simp]: "swap32 (swap32 x) = x"
  by (simp add: swap32_def le_simps read_be32_eq)

lemma u32_mem_swap32: "u32_mem (swap32 x) = rev (u32_mem x)"
  by (simp add: swap32_def u32_mem_read_be32)

lemma unat_read_be32: "length bs = 4 \<Longrightarrow> unat (read_be32 bs) = be_nat bs"
  using be_nat_bound [of bs]
  by (simp add: read_be32_eq mem_u32_def be_nat_def unat_of_nat)

text \<open>Swapping the bytes of every word of a hash twice gives the hash back.\<close>

fun swap_words :: "bytes \<Rightarrow> bytes" where
  "swap_words (a # b # c # d # bs) = d # c # b # a # swap_words bs"
| "swap_words bs = bs"

lemma length_swap_words [simp]: "length (swap_words bs) = length bs"
  by (induction bs rule: swap_words.induct) auto

lemma swap_words_swap_words [simp]: "swap_words (swap_words bs) = bs"
  by (induction bs rule: swap_words.induct) auto

lemma swap_words_append: "4 dvd length xs \<Longrightarrow> swap_words (xs @ ys) = swap_words xs @ swap_words ys"
proof (induction xs rule: swap_words.induct)
  case (1 a b c d bs)
  then have "4 dvd length bs" by (simp add: dvd_add_triv_left_iff) presburger
  with 1 show ?case by simp
qed (auto dest: dvd_imp_le)

lemma swap32_at_prefix:
  assumes "length v = 32" "k < 8" "take (4 * k) v = swap_words (take (4 * k) u)"
    and "drop (4 * k) v = drop (4 * k) u" "length u = 32"
  shows "take (4 * Suc k) (swap32_at v (4 * k)) = swap_words (take (4 * Suc k) u) \<and>
    drop (4 * Suc k) (swap32_at v (4 * k)) = drop (4 * Suc k) u"
proof -
  define w where "w = take 4 (drop (4 * k) u)"
  have lw: "length w = 4" using assms by (simp add: w_def)
  obtain a b c d where w: "w = [a, b, c, d]" using length_4_cases [OF lw] by blast
  have "swap32_at v (4 * k) = take (4 * k) v @ rev w @ drop (4 * k + 4) v"
    using assms(4) lw by (simp add: swap32_at_def w_def u32_mem_read_be32)
  moreover have "take (4 * Suc k) u = take (4 * k) u @ w"
    by (simp add: w_def take_add [symmetric] add.commute)
  moreover have "drop (4 * k + 4) v = drop (4 * k + 4) u"
    using assms(4) by (metis add.commute drop_drop)
  ultimately show ?thesis
    using assms w by (simp add: swap_words_append add.commute)
qed

lemma swap32_256_eq:
  assumes "length u = 32"
  shows "swap32_256 u = swap_words u"
proof -
  have "n \<le> 8 \<Longrightarrow>
      (let v = fold (\<lambda>k v. swap32_at v (4 * k)) [0..<n] u in
       length v = 32 \<and> take (4 * n) v = swap_words (take (4 * n) u) \<and> drop (4 * n) v = drop (4 * n) u)" for n
  proof (induction n)
    case 0
    then show ?case using assms by simp
  next
    case (Suc n)
    define v where "v = fold (\<lambda>k v. swap32_at v (4 * k)) [0..<n] u"
    have lv: "length v = 32" and v: "take (4 * n) v = swap_words (take (4 * n) u)" "drop (4 * n) v = drop (4 * n) u"
      using Suc by (simp_all add: Let_def v_def)
    have "length (swap32_at v (4 * n)) = 32"
      using lv Suc.prems by (simp add: swap32_at_def)
    then show ?case
      using swap32_at_prefix [OF lv _ v assms] Suc.prems by (simp add: Let_def v_def)
  qed
  from this [of 8] assms show ?thesis
    by (simp add: swap32_256_def Let_def del: upt_rec_numeral) (metis order_refl take_all)
qed

section \<open>Dividing hashes\<close>

text \<open>
  \<open>operator/\<close> reads four bytes of each operand from its first non-zero byte on (at most byte 28) as
  a number, divides these, and scales by the distance of the two positions.
\<close>

function find_first_non_zero_byte :: "bytes \<Rightarrow> nat \<Rightarrow> nat \<Rightarrow> nat" where
  "find_first_non_zero_byte data limit idx =
     (if idx < limit \<and> data ! idx = 0 then find_first_non_zero_byte data limit (Suc idx) else idx)"
  by pat_completeness auto
termination
  by (relation "measure (\<lambda>(data, limit, idx). limit - idx)") auto

declare find_first_non_zero_byte.simps [simp del]

fun scale_up :: "nat \<Rightarrow> dbl \<Rightarrow> dbl" where
  "scale_up 0 f = f"
| "scale_up (Suc n) f = scale_up n (dmul f (Fin 256))"

fun scale_down :: "nat \<Rightarrow> dbl \<Rightarrow> dbl" where
  "scale_down 0 f = f"
| "scale_down (Suc n) f = scale_down n (ddiv f (Fin 256))"

definition base_factor :: "int \<Rightarrow> dbl" where
  "base_factor idxDiff =
     (let f = Fin 1;
          f' = (if idxDiff < 0 then scale_up (nat (- idxDiff)) f else f);
          idxDiff' = (if idxDiff < 0 then 0 else idxDiff)
      in if idxDiff' > 0 then scale_down (nat idxDiff') f' else f')"

definition dbl_of_u32 :: "u32 \<Rightarrow> dbl" where
  "dbl_of_u32 w = round_dbl (of_nat (unat w))"

definition hash256_div :: "hash256 \<Rightarrow> hash256 \<Rightarrow> dbl" where
  "hash256_div this operand =
     (let idxMe = find_first_non_zero_byte (raw256 this) 28 0;
          idxOp = find_first_non_zero_byte (raw256 operand) 28 0;
          baseFactor = base_factor (int idxMe - int idxOp)
      in dmul (ddiv (dbl_of_u32 (read_be32 (take 4 (drop idxMe (raw256 this)))))
                    (dbl_of_u32 (read_be32 (take 4 (drop idxOp (raw256 operand)))))) baseFactor)"

definition hash256_diff1 :: hash256 where
  "hash256_diff1 = Hash256 ([0x00, 0x00, 0x0f, 0xff, 0xff] @ replicate 27 0)"

lemma wf_diff1 [simp]: "wf_hash hash256_diff1"
  and wf_zero [simp]: "wf_hash hash256_zero"
  by (simp_all add: wf_hash_def hash256_diff1_def hash256_zero_def)

lemma find_first_zeros:
  "idx \<le> limit \<Longrightarrow> limit \<le> length data \<Longrightarrow>
   (let r = find_first_non_zero_byte data limit idx in
    idx \<le> r \<and> r \<le> limit \<and> (\<forall>i. idx \<le> i \<and> i < r \<longrightarrow> data ! i = 0) \<and> (r < limit \<longrightarrow> data ! r \<noteq> 0))"
proof (induction data limit idx rule: find_first_non_zero_byte.induct)
  case (1 data limit idx)
  show ?case
  proof (cases "idx < limit \<and> data ! idx = 0")
    case True
    with 1 have IH: "let r = find_first_non_zero_byte data limit (Suc idx) in
        Suc idx \<le> r \<and> r \<le> limit \<and> (\<forall>i. Suc idx \<le> i \<and> i < r \<longrightarrow> data ! i = 0) \<and> (r < limit \<longrightarrow> data ! r \<noteq> 0)"
      by auto
    have "idx \<le> i \<Longrightarrow> i = idx \<or> Suc idx \<le> i" for i by arith
    with IH True show ?thesis
      by (subst find_first_non_zero_byte.simps) (auto simp: Let_def)
  next
    case False
    with 1 show ?thesis by (subst find_first_non_zero_byte.simps) (auto simp: Let_def)
  qed
qed

lemma be_nat_zeros [simp]: "be_nat (replicate n 0) = 0"
  by (simp add: be_nat_def)

text \<open>The window of a hash: the four bytes \<open>operator/\<close> reads, and the bytes it ignores.\<close>

definition window_at :: "hash256 \<Rightarrow> nat" where
  "window_at h = find_first_non_zero_byte (raw256 h) 28 0"

definition window :: "hash256 \<Rightarrow> nat" where
  "window h = be_nat (take 4 (drop (window_at h) (raw256 h)))"

lemma window_split:
  assumes "wf_hash h"
  shows "window_at h \<le> 28"
    and "\<exists>low. be_nat (raw256 h) = window h * 256 ^ (28 - window_at h) + low \<and>
           low < 256 ^ (28 - window_at h) \<and> (low = 0 \<or> 2 ^ 24 \<le> window h)"
    and "window h < 2 ^ 32"
proof -
  let ?d = "raw256 h" and ?r = "window_at h"
  have len: "length ?d = 32" using assms by (simp add: wf_hash_def)
  then have r: "?r \<le> 28" "\<forall>i<?r. ?d ! i = 0" "?r < 28 \<Longrightarrow> ?d ! ?r \<noteq> 0"
    using find_first_zeros [of 0 28 ?d] by (auto simp: window_at_def Let_def)
  show "?r \<le> 28" by (rule r(1))
  let ?w = "take 4 (drop ?r ?d)" and ?low = "drop (?r + 4) ?d"
  have "take ?r ?d = replicate ?r 0"
    by (rule nth_equalityI) (use r len in auto)
  moreover have "?d = take ?r ?d @ ?w @ ?low"
    by (metis add.commute append_take_drop_id drop_drop)
  ultimately have "be_nat ?d = be_nat (replicate ?r 0 @ ?w @ ?low)" by metis
  then have "be_nat ?d = window h * 256 ^ (28 - ?r) + be_nat ?low"
    using len by (simp add: be_nat_append window_def)
  moreover have "be_nat ?low < 256 ^ (28 - ?r)" using be_nat_bound [of ?low] len by simp
  moreover have "be_nat ?low = 0 \<or> 2 ^ 24 \<le> window h"
  proof (cases "?r < 28")
    case True
    then have "?w = ?d ! ?r # take 3 (drop (Suc ?r) ?d)"
      using len by (simp add: Cons_nth_drop_Suc [symmetric] take_Suc_Cons numeral_eq_Suc)
    moreover have "1 \<le> unat (?d ! ?r)" using r(3) [OF True] by (simp add: Suc_leI unat_gt_0)
    ultimately show ?thesis using True len by (simp add: window_def)
  next
    case False
    with len show ?thesis by simp
  qed
  ultimately show "\<exists>low. be_nat ?d = window h * 256 ^ (28 - ?r) + low \<and> low < 256 ^ (28 - ?r) \<and>
      (low = 0 \<or> 2 ^ 24 \<le> window h)" by blast
  show "window h < 2 ^ 32" using be_nat_bound [of ?w] len r(1) by (simp add: window_def)
qed

text \<open>The scaling loops are exact.\<close>

lemma representable_exp2: "\<bar>k\<bar> \<le> 500 \<Longrightarrow> representable (2 powi k)"
proof (rule representableI [of _ 1 k])
  assume k: "\<bar>k\<bar> \<le> 500"
  then have "(2 :: rat) powi k < 2 powi 1024" by (simp only: exp2_less_iff)
  then show "\<bar>2 powi k :: rat\<bar> < 2 powi 1024" by (simp only: abs_of_pos zero_less_power_int zero_less_numeral)
qed auto

lemma exp256: "(256 :: rat) = 2 powi 8"
  by (simp add: power_int_def)

lemma scale_up_exp2:
  "0 \<le> k \<Longrightarrow> k + 8 * int n \<le> 400 \<Longrightarrow> scale_up n (Fin (2 powi k)) = Fin (2 powi (k + 8 * int n))"
proof (induction n arbitrary: k)
  case 0
  show ?case by simp
next
  case (Suc n)
  have "(2 :: rat) powi k * 256 = 2 powi (k + 8)" unfolding exp256 by (simp add: power_int_add)
  then have "dmul (Fin (2 powi k)) (Fin 256) = Fin (2 powi (k + 8))"
    using round_dbl_representable [OF representable_exp2, of "k + 8"] Suc.prems by simp
  then show ?case using Suc.IH [of "k + 8"] Suc.prems by (simp add: algebra_simps)
qed

lemma scale_down_exp2:
  "k \<le> 0 \<Longrightarrow> - 400 \<le> k - 8 * int n \<Longrightarrow> scale_down n (Fin (2 powi k)) = Fin (2 powi (k - 8 * int n))"
proof (induction n arbitrary: k)
  case 0
  show ?case by simp
next
  case (Suc n)
  have "(2 :: rat) powi k / 256 = 2 powi (k - 8)" unfolding exp256 by (simp add: power_int_diff)
  then have "ddiv (Fin (2 powi k)) (Fin 256) = Fin (2 powi (k - 8))"
    using round_dbl_representable [OF representable_exp2, of "k - 8"] Suc.prems by simp
  then show ?case using Suc.IH [of "k - 8"] Suc.prems by (simp add: algebra_simps)
qed

lemma base_factor_exact: "\<bar>k\<bar> \<le> 28 \<Longrightarrow> base_factor k = Fin (2 powi (- 8 * k))"
  using scale_up_exp2 [of 0 "nat (- k)"] scale_down_exp2 [of 0 "nat k"]
  by (auto simp: base_factor_def Let_def)

lemma round_dbl_u32: "n < 2 ^ 32 \<Longrightarrow> round_dbl (of_nat n) = Fin (of_nat n)"
proof (rule round_dbl_representable, rule representableI [of _ "int n" 0])
  assume n: "n < 2 ^ 32"
  then have "(of_nat n :: rat) < of_nat (2 ^ 32)" by (simp only: of_nat_less_iff)
  also have "\<dots> = (2 powi 32 :: rat)" by (simp add: power_int_def)
  also have "\<dots> < 2 powi 1024" by (simp only: exp2_less_iff)
  finally show "\<bar>of_nat n\<bar> < (2 powi 1024 :: rat)" by simp
qed simp_all

lemma dbl_of_u32_be:
  assumes "length bs = 4"
  shows "dbl_of_u32 (read_be32 bs) = Fin (of_nat (be_nat bs))"
  using be_nat_bound [of bs] assms
  by (simp only: dbl_of_u32_def unat_read_be32) (rule round_dbl_u32, simp)

lemma hash256_div_eq:
  assumes "wf_hash a" "wf_hash b"
  shows "hash256_div a b =
    dmul (ddiv (Fin (of_nat (window a))) (Fin (of_nat (window b))))
         (Fin (2 powi (8 * (int (window_at b) - int (window_at a)))))"
proof -
  have len: "wf_hash h \<Longrightarrow> length (take 4 (drop (window_at h) (raw256 h))) = 4" for h
    using window_split(1) [of h] by (simp add: wf_hash_def)
  have "base_factor (int (window_at a) - int (window_at b)) =
      Fin (2 powi (8 * (int (window_at b) - int (window_at a))))"
    using base_factor_exact [of "int (window_at a) - int (window_at b)"]
      window_split(1) [OF assms(1)] window_split(1) [OF assms(2)]
    by (simp add: algebra_simps)
  then show ?thesis
    using len [OF assms(1)] len [OF assms(2)]
    by (simp only: hash256_div_def Let_def dbl_of_u32_be window_def flip: window_at_def)
qed

lemma quotient_within:
  fixes A B l m e :: rat
  assumes "0 < B" "0 \<le> l" "0 \<le> m" "l \<le> A * e" "m \<le> B * e" "0 \<le> A" "0 \<le> e"
  shows "A / B \<le> (A + l) / (B + m) * (1 + e)" and "(A + l) / (B + m) \<le> A / B * (1 + e)"
proof -
  have "A / B = A * (1 + e) / (B * (1 + e))" using assms by simp
  also have "\<dots> \<le> A * (1 + e) / (B + m)"
    using assms by (intro divide_left_mono) (auto simp: algebra_simps intro: mult_pos_pos add_pos_nonneg)
  also have "\<dots> \<le> (A + l) * (1 + e) / (B + m)"
    using assms by (intro divide_right_mono mult_right_mono) auto
  finally show "A / B \<le> (A + l) / (B + m) * (1 + e)" by simp
  have "(A + l) / (B + m) \<le> (A + l) / B"
    using assms by (intro divide_left_mono) (auto intro: add_pos_nonneg mult_pos_pos)
  also have "\<dots> \<le> A * (1 + e) / B"
    using assms by (intro divide_right_mono) (auto simp: algebra_simps)
  finally show "(A + l) / (B + m) \<le> A / B * (1 + e)" by simp
qed

lemma window_scaled:
  assumes "wf_hash h"
  shows "\<exists>l. (of_nat (be_nat (raw256 h)) :: rat) = (of_nat (window h) + l) * 2 powi (8 * (28 - int (window_at h))) \<and>
    0 \<le> l \<and> l \<le> of_nat (window h) * (1 / 2 ^ 24)"
proof -
  let ?n = "28 - window_at h"
  obtain low where V: "be_nat (raw256 h) = window h * 256 ^ ?n + low" and low: "low < 256 ^ ?n"
    and big: "low = 0 \<or> 2 ^ 24 \<le> window h"
    using window_split(2) [OF assms] by blast
  define p :: rat where "p = 256 ^ ?n"
  have p: "p = 2 powi (8 * (28 - int (window_at h)))" "0 < p"
  proof -
    have "8 * (28 - int (window_at h)) = 8 * int ?n" using window_split(1) [OF assms] by simp
    then show "p = 2 powi (8 * (28 - int (window_at h)))"
      unfolding p_def exp256 by (simp only: power_int_mult power_int_of_nat)
    show "0 < p" by (simp add: p_def)
  qed
  have lowp: "(of_nat low :: rat) < p"
    using low unfolding p_def by (metis of_nat_less_iff of_nat_numeral of_nat_power)
  have "of_nat low / p \<le> of_nat (window h) * (1 / 2 ^ 24)"
  proof (cases "low = 0")
    case False
    with big have "2 ^ 24 \<le> window h" by blast
    then have "(of_nat (2 ^ 24) :: rat) \<le> of_nat (window h)" by (simp only: of_nat_le_iff)
    then have "1 \<le> of_nat (window h) * (1 / 2 ^ 24 :: rat)" by simp
    moreover have "of_nat low / p \<le> 1" using lowp p(2) by (simp add: divide_le_eq_1)
    ultimately show ?thesis by linarith
  qed simp
  moreover have "(of_nat (be_nat (raw256 h)) :: rat) = (of_nat (window h) + of_nat low / p) * p"
    using p(2) by (simp add: V p_def field_simps)
  ultimately show ?thesis using p by (intro exI [of _ "of_nat low / p"]) simp
qed

lemma window_less: "wf_hash h \<Longrightarrow> (of_nat (window h) :: rat) < 2 powi 32"
proof -
  assume "wf_hash h"
  then have "(of_nat (window h) :: rat) < of_nat (2 ^ 32)"
    using window_split(3) by (simp only: of_nat_less_iff)
  then show ?thesis by (simp add: power_int_def)
qed

lemma rounded_quotient_within:
  fixes x r T :: rat
  assumes "0 \<le> x" "0 \<le> T" "\<bar>r - x\<bar> \<le> x * (1 / 2 ^ 53)"
    and "x \<le> T * (1 + 1 / 2 ^ 24)" "T \<le> x * (1 + 1 / 2 ^ 24)"
  shows "\<bar>r - T\<bar> \<le> T * (1 / 2 ^ 23)"
proof -
  have "r - x \<le> x * (1 / 2 ^ 53)" "x - r \<le> x * (1 / 2 ^ 53)" using assms(3) by linarith+
  then show ?thesis using assms(1,2,4,5) by (simp only: abs_le_iff) (simp add: field_simps; linarith)
qed

lemma hash256_div_error:
  assumes a: "wf_hash a" and b: "wf_hash b" and pos: "0 < be_nat (raw256 b)"
  defines "T \<equiv> of_nat (be_nat (raw256 a)) / of_nat (be_nat (raw256 b)) :: rat"
  shows "\<exists>q. hash256_div a b = Fin q \<and> \<bar>q - T\<bar> \<le> T * (1 / 2 ^ 23)"
proof -
  define A B :: rat where "A = of_nat (window a)" and "B = of_nat (window b)"
  define ka kb k where "ka = 8 * (28 - int (window_at a))" and "kb = 8 * (28 - int (window_at b))"
    and "k = 8 * (int (window_at b) - int (window_at a))"
  obtain l where l: "of_nat (be_nat (raw256 a)) = (A + l) * 2 powi ka" "0 \<le> l" "l \<le> A * (1 / 2 ^ 24)"
    using window_scaled [OF a] unfolding A_def ka_def by blast
  obtain m where m: "of_nat (be_nat (raw256 b)) = (B + m) * 2 powi kb" "0 \<le> m" "m \<le> B * (1 / 2 ^ 24)"
    using window_scaled [OF b] unfolding B_def kb_def by blast
  have "B \<noteq> 0" using pos m by auto
  then have B: "1 \<le> B" by (simp add: B_def)
  have k: "ka - kb = k" "\<bar>k\<bar> \<le> 500"
    using window_split(1) [OF a] window_split(1) [OF b] by (auto simp: ka_def kb_def k_def)
  have T: "T = (A + l) / (B + m) * 2 powi k"
    unfolding T_def l(1) m(1) k(1) [symmetric] by (simp add: power_int_diff)
  have div: "hash256_div a b = dmul (round_dbl (A / B)) (Fin (2 powi k))"
    using \<open>B \<noteq> 0\<close> by (simp only: hash256_div_eq [OF a b] A_def B_def k_def ddiv.simps if_False)
  show ?thesis
  proof (cases "A = 0")
    case True
    then show ?thesis using l by (simp add: div T)
  next
    case False
    then have A: "1 \<le> A" by (simp add: A_def)
    have up: "A < 2 powi 32" "B < 2 powi 32"
      using window_less [OF a] window_less [OF b] by (simp_all only: A_def B_def)
    have x: "2 powi (-32) \<le> A / B" "A / B < 2 powi 32"
    proof -
      have "1 / 2 powi 32 \<le> A / B" using A B up by (intro frac_le) auto
      then show "2 powi (-32) \<le> A / B" by (simp add: power_int_minus_divide)
      have "A / B \<le> A / 1" using A B by (intro divide_left_mono) auto
      with up show "A / B < 2 powi 32" by simp
    qed
    have lo: "2 powi (-1022) \<le> A / B" "2 powi (-400) \<le> A / B"
      using x(1) exp2_less_iff [of "-1022" "-32"] exp2_less_iff [of "-400" "-32"] by linarith+
    have hi: "A / B < 2 powi 1000" "A / B < 2 powi 400"
      using x(2) exp2_less_iff [of 32 1000] exp2_less_iff [of 32 400] by linarith+
    have absx: "\<bar>A / B\<bar> = A / B" using A B by simp
    obtain r where r: "round_dbl (A / B) = Fin r"
      using round_dbl_finite [of "A / B"] hi(1) unfolding absx by blast
    have q: "hash256_div a b = Fin (r * 2 powi k)"
      unfolding div r dmul.simps
      by (rule round_dbl_scaled [OF r _ _ k(2)]) (simp_all only: absx lo hi)
    have "\<bar>r - A / B\<bar> \<le> A / B * 2 powi (-53)"
      using round_dbl_error [OF _ r] lo(1) unfolding absx by blast
    moreover have "(2 :: rat) powi (-53) = 1 / 2 ^ 53" by (simp add: power_int_def power_one_over)
    ultimately have "\<bar>r - A / B\<bar> \<le> A / B * (1 / 2 ^ 53)" by (simp only:)
    then have "\<bar>r - (A + l) / (B + m)\<bar> \<le> (A + l) / (B + m) * (1 / 2 ^ 23)"
      using quotient_within [of B l m A "1 / 2 ^ 24"] l m A B
      by (intro rounded_quotient_within [of "A / B"]) auto
    then have "\<bar>r - (A + l) / (B + m)\<bar> * 2 powi k \<le> (A + l) / (B + m) * (1 / 2 ^ 23) * 2 powi k"
      by (rule mult_right_mono) simp
    moreover have "\<bar>r - (A + l) / (B + m)\<bar> * 2 powi k = \<bar>r * 2 powi k - T\<bar>"
    proof -
      have "\<bar>r - (A + l) / (B + m)\<bar> * \<bar>2 powi k\<bar> = \<bar>r * 2 powi k - T\<bar>"
        unfolding T abs_mult [symmetric] by (simp only: left_diff_distrib)
      then show ?thesis by simp
    qed
    ultimately have "\<bar>r * 2 powi k - T\<bar> \<le> T * (1 / 2 ^ 23)" by (simp add: T mult_ac)
    with q show ?thesis by blast
  qed
qed

section \<open>The difficulty falls as the hash grows\<close>

text \<open>The number \<open>operator/\<close> divides by: the hash with everything below its window cut off.\<close>

definition truncated :: "hash256 \<Rightarrow> nat" where
  "truncated h = window h * 256 ^ (28 - window_at h)"

lemma truncated_le: "wf_hash h \<Longrightarrow> truncated h \<le> be_nat (raw256 h)"
  using window_split(2) [of h] by (auto simp: truncated_def)

lemma truncated_eq_div:
  "wf_hash h \<Longrightarrow> truncated h = be_nat (raw256 h) div 256 ^ (28 - window_at h) * 256 ^ (28 - window_at h)"
  using window_split(2) [of h] by (auto simp: truncated_def)

lemma window_at_antimono:
  assumes "wf_hash a" "wf_hash b" "window_at a < window_at b"
  shows "be_nat (raw256 b) < truncated a"
proof -
  let ?ka = "28 - window_at a" and ?kb = "28 - window_at b"
  have at: "window_at b \<le> 28" by (rule window_split(1) [OF assms(2)])
  have len: "length (raw256 a) = 32" using assms(1) by (simp add: wf_hash_def)
  have "raw256 a ! window_at a \<noteq> 0"
    using find_first_zeros [of 0 28 "raw256 a"] len assms(3) at by (simp add: window_at_def Let_def)
  then have byte: "1 \<le> unat (raw256 a ! window_at a)" by (simp add: Suc_leI unat_gt_0)
  have "take 4 (drop (window_at a) (raw256 a)) =
      raw256 a ! window_at a # take 3 (drop (Suc (window_at a)) (raw256 a))"
    using len assms(3) at by (simp add: Cons_nth_drop_Suc [symmetric] take_Suc_Cons numeral_eq_Suc)
  then have "2 ^ 24 \<le> window a"
    using byte len assms(3) at by (simp add: window_def)
  then have top: "2 ^ 24 * 256 ^ ?ka \<le> truncated a" by (simp add: truncated_def)
  obtain low where low: "be_nat (raw256 b) = window b * 256 ^ ?kb + low" "low < 256 ^ ?kb"
    using window_split(2) [OF assms(2)] by blast
  have "be_nat (raw256 b) < (window b + 1) * 256 ^ ?kb" using low by simp
  also have "\<dots> \<le> 2 ^ 32 * 256 ^ ?kb"
    using window_split(3) [OF assms(2)] by (intro mult_right_mono) simp_all
  also have "\<dots> = 2 ^ 24 * (256 * 256 ^ ?kb)" by simp
  also have "\<dots> \<le> (2 ^ 24 * 256 ^ ?ka :: nat)"
  proof -
    have "(256 ^ Suc ?kb :: nat) \<le> 256 ^ ?ka"
      using assms(3) at by (intro power_increasing) simp_all
    then show ?thesis by simp
  qed
  also note top
  finally show ?thesis .
qed

lemma truncated_mono:
  assumes "wf_hash a" "wf_hash b" "be_nat (raw256 a) \<le> be_nat (raw256 b)"
  shows "truncated a \<le> truncated b"
proof (cases "window_at a" "window_at b" rule: linorder_cases)
  case less
  from window_at_antimono [OF assms(1,2) less] truncated_le [OF assms(1)] assms(3) show ?thesis by linarith
next
  case equal
  with assms show ?thesis by (simp add: truncated_eq_div div_le_mono)
next
  case greater
  from window_at_antimono [OF assms(2,1) greater] truncated_le [OF assms(1)] show ?thesis by linarith
qed

text \<open>The quotient of \<open>diff1\<close> and a hash, as one rounding of an exact quotient.\<close>

lemma diff1_window: "window_at hash256_diff1 = 2" "window hash256_diff1 = 0x0fffff00"
proof -
  show at: "window_at hash256_diff1 = 2"
    by (simp add: window_at_def hash256_diff1_def find_first_non_zero_byte.simps nth_Cons')
  have "take 4 (drop 2 (raw256 hash256_diff1)) = [0x0f, 0xff, 0xff, 0x00]"
    by (simp add: hash256_diff1_def numeral_eq_Suc)
  then show "window hash256_diff1 = 0x0fffff00"
    unfolding window_def at by (simp add: be_nat_def)
qed

definition diff1_ratio :: "hash256 \<Rightarrow> rat" where
  "diff1_ratio h = of_nat (0x0fffff00 * 256 ^ 26) / of_nat (truncated h)"

lemma exp2_256: "(2 :: rat) powi (8 * int n) = 256 ^ n"
proof -
  have "(2 :: rat) powi (8 * int n) = 2 powi int (8 * n)" by simp
  also have "\<dots> = 2 ^ (8 * n)" by (rule power_int_of_nat)
  also have "\<dots> = (2 ^ 8) ^ n" by (rule power_mult)
  finally show ?thesis by simp
qed

lemma truncated_pos: "0 < window h \<Longrightarrow> 0 < truncated h"
  by (simp add: truncated_def)

lemma truncated_less: "wf_hash h \<Longrightarrow> truncated h < 256 ^ 32"
  using truncated_le [of h] be_nat_bound [of "raw256 h"] by (simp add: wf_hash_def)

lemma diff1_div_eq:
  assumes h: "wf_hash h" and w: "0 < window h"
  shows "hash256_div hash256_diff1 h = round_dbl (diff1_ratio h)"
proof -
  let ?x = "of_nat 0x0fffff00 / of_nat (window h) :: rat" and ?k = "8 * (int (window_at h) - 2)"
  have wh: "(of_nat (window h) :: rat) < 2 powi 32" "1 \<le> (of_nat (window h) :: rat)"
    using window_less [OF h] w by simp_all
  have x1: "2 powi (-8) \<le> ?x"
  proof -
    have "of_nat (window h) * 2 powi (-8) \<le> (2 powi 32 * 2 powi (-8) :: rat)"
      using wh by (intro mult_right_mono) simp_all
    also have "\<dots> \<le> of_nat 0x0fffff00" by (simp add: power_int_def power_one_over)
    finally show ?thesis using wh by (simp add: le_divide_eq mult.commute)
  qed
  have "?x \<le> of_nat 0x0fffff00" using wh by (simp add: divide_le_eq)
  also have "\<dots> < (2 powi 28 :: rat)" by (simp add: power_int_def)
  finally have x2: "?x < 2 powi 28" .
  have pows: "(2 powi 28 :: rat) < 2 powi 400" "(2 powi 28 :: rat) < 2 powi 1000"
    "(2 powi (-400) :: rat) < 2 powi (-8)"
    by (simp_all only: exp2_less_iff)
  have pos: "0 \<le> ?x" by simp
  have low: "2 powi (-400) \<le> ?x" and high: "?x < 2 powi 400" and ranges:
      "2 powi (-400) \<le> \<bar>?x\<bar>" "\<bar>?x\<bar> < 2 powi 400" "\<bar>?x\<bar> < 2 powi 1000"
    using x1 x2 pows unfolding abs_of_nonneg [OF pos] by linarith+
  then obtain r where r: "round_dbl ?x = Fin r" using round_dbl_finite by blast
  have k: "\<bar>?k\<bar> \<le> 400" using window_split(1) [OF h] by auto
  have "hash256_div hash256_diff1 h = round_dbl (r * 2 powi ?k)"
    using w r by (simp add: hash256_div_eq h diff1_window)
  also have "\<dots> = Fin (r * 2 powi ?k)"
    by (rule round_dbl_scaled [OF r ranges(1,2)]) (use k in simp)
  also have "\<dots> = round_dbl (?x * 2 powi ?k)" by (rule round_dbl_exp2 [OF low high k r, symmetric])
  also have "?x * 2 powi ?k = diff1_ratio h"
  proof -
    have "2 powi ?k = (256 ^ 26 / 256 ^ (28 - window_at h) :: rat)"
    proof -
      have e: "?k = 8 * int 26 - 8 * int (28 - window_at h)"
        using window_split(1) [OF h] by (simp add: algebra_simps of_nat_diff)
      show ?thesis unfolding e by (subst power_int_diff) (simp, simp only: exp2_256)
    qed
    then show ?thesis by (simp add: diff1_ratio_def truncated_def)
  qed
  finally show ?thesis .
qed

lemma diff1_ratio_range:
  assumes "wf_hash h" "0 < window h"
  shows "2 powi (-40) \<le> diff1_ratio h" "diff1_ratio h < 2 powi 240"
proof -
  let ?D = "of_nat (0x0fffff00 * 256 ^ 26) :: rat" and ?t = "of_nat (truncated h) :: rat"
  have t1: "1 \<le> ?t" using truncated_pos [OF assms(2)] by simp
  have t2: "?t < 256 ^ 32"
    using truncated_less [OF assms(1)] by (metis of_nat_less_iff of_nat_numeral of_nat_power)
  have "?D \<le> ?D / 1" by simp
  have D: "(256 ^ 28 :: rat) \<le> ?D" "?D < 256 ^ 30" by simp_all
  have "2 powi (-40) \<le> (256 ^ 28 / 256 ^ 32 :: rat)" by (simp add: power_int_def power_one_over)
  also have "\<dots> \<le> ?D / ?t" using t1 t2 D by (intro frac_le) auto
  finally show "2 powi (-40) \<le> diff1_ratio h" by (simp only: diff1_ratio_def)
  have "?D / ?t \<le> ?D / 1" using t1 by (intro divide_left_mono) auto
  also have "\<dots> < 256 ^ 30" using D by simp
  also have "\<dots> = (2 powi 240 :: rat)" by (simp add: power_int_def)
  finally show "diff1_ratio h < 2 powi 240" by (simp only: diff1_ratio_def)
qed

lemma diff1_ratio_antimono:
  assumes "wf_hash a" "wf_hash b" "be_nat (raw256 a) \<le> be_nat (raw256 b)" "0 < window a"
  shows "diff1_ratio b \<le> diff1_ratio a"
proof -
  have "0 < truncated a" "truncated a \<le> truncated b"
    using truncated_pos [OF assms(4)] truncated_mono [OF assms(1-3)] by auto
  then show ?thesis unfolding diff1_ratio_def by (intro divide_left_mono) auto
qed

lemma window_zero_div: "wf_hash h \<Longrightarrow> window h = 0 \<Longrightarrow> hash256_div hash256_diff1 h = PInf"
  by (simp add: hash256_div_eq diff1_window inf_signed_def)

section \<open>Hash plugins\<close>

text \<open>
  A plugin is the function \<open>hash\<close> of its \<open>HashPlugin\<close> object: it may throw. \<open>sha\<close> stands for one
  run of \<open>CSHA256\<close> (\<open>Write\<close>, then \<open>Finalize\<close>), \<open>allium\<close> for the C function \<open>allium_hash\<close>.
\<close>

type_synonym hash_plugin = "bytes \<Rightarrow> hash256 res"

definition sha256d_hash :: "(bytes \<Rightarrow> hash256) \<Rightarrow> bytes \<Rightarrow> hash256" where
  "sha256d_hash sha data = (let hash = sha data in sha (raw256 hash))"

definition allium_hash_plugin :: "(bytes \<Rightarrow> hash256) \<Rightarrow> hash_plugin" where
  "allium_hash_plugin allium data =
     (if length data \<noteq> 80
      then Inl (Runtime_error ''Allium hashing only implemented for exactly 80 bytes of inputdata'')
      else Inr (allium data))"

text \<open>The output buffer of a hash function has 32 bytes.\<close>

definition hasher_ok :: "(bytes \<Rightarrow> hash256) \<Rightarrow> bool" where
  "hasher_ok h \<longleftrightarrow> (\<forall>d. wf_hash (h d))"

lemma hasher_okD [simp]: "hasher_ok h \<Longrightarrow> wf_hash (h d)"
  by (simp add: hasher_ok_def)

lemma hasher_ok_sha256d: "hasher_ok sha \<Longrightarrow> hasher_ok (sha256d_hash sha)"
  by (simp add: hasher_ok_def sha256d_hash_def Let_def)

text \<open>
  \<open>HashPluginManager\<close>: a map of the plugins loaded so far. \<open>dl\<close> is \<open>dlopen\<close> and \<open>dlsym\<close>: no
  library, a library without the initialiser, or the plugin its initialiser returns.
\<close>

datatype 'p dl_result = No_library | No_initializer | Plugin 'p

definition plugin_load :: "string \<Rightarrow> (string \<Rightarrow> 'p dl_result) \<Rightarrow> string \<Rightarrow> 'p res" where
  "plugin_load modulePath dl algorithm =
     (let filename = modulePath @ ''/hash_'' @ algorithm @ ''.so'' in
      case dl filename of
        No_library \<Rightarrow> Inl (Runtime_error ''Failed to load module as plugin'')
      | No_initializer \<Rightarrow> Inl (Runtime_error ''Module does not export initialize_plugin'')
      | Plugin p \<Rightarrow> Inr p)"

definition plugin_get ::
  "string \<Rightarrow> (string \<Rightarrow> 'p dl_result) \<Rightarrow> (string \<rightharpoonup> 'p) \<Rightarrow> string \<Rightarrow> 'p res \<times> (string \<rightharpoonup> 'p)" where
  "plugin_get modulePath dl manager algorithm =
     (case manager algorithm of
        Some plugin \<Rightarrow> (Inr plugin, manager)
      | None \<Rightarrow>
          (case plugin_load modulePath dl algorithm of
             Inl e \<Rightarrow> (Inl e, manager)
           | Inr plugin \<Rightarrow> (Inr plugin, manager(algorithm \<mapsto> plugin))))"

lemma plugin_get_cached:
  "plugin_get path dl m a = (Inr p, m') \<Longrightarrow> m' a = Some p \<and> m \<subseteq>\<^sub>m m' \<and> plugin_get path dl' m' a = (Inr p, m')"
  by (auto simp: plugin_get_def map_le_def split: option.splits sum.splits)

end
