(* ===== verification/Merkle.thy ===== *)
theory Merkle
  imports Hashes
begin

text \<open>
  Merkle trees (\<open>lib/mining/MerkleRoot\<close>, \<open>MerkleBranch\<close>). The routine works on a blob of raw
  transaction ids and calls itself for pairs and for the next row; a call on an empty blob calls
  itself with an empty blob again. The model takes fuel, one unit per nested call, and \<open>None\<close> is
  running out of it. The hash is a parameter; \<open>length div 32\<close> is an \<open>int\<close> in the code, so blobs are
  below 64 GiB.
\<close>

section \<open>The root of a blob of transaction ids\<close>

function merkle_blob :: "(bytes \<Rightarrow> hash256) \<Rightarrow> nat \<Rightarrow> bytes \<Rightarrow> hash256 res option"
  and merkle_row :: "(bytes \<Rightarrow> hash256) \<Rightarrow> nat \<Rightarrow> bytes \<Rightarrow> bytes \<Rightarrow> hash256 res option"
where
  "merkle_blob sha256d 0 txids = None"
| "merkle_blob sha256d (Suc fuel) txids =
     (let size = length txids div 32 in
      if length txids mod 32 \<noteq> 0
      then Some (Inl (Runtime_error ''Invalid input: raw txids array not divisible by transaction id size''))
      else if size = 1 then Some (hash256_from txids)
      else if size = 2 then Some (Inr (sha256d txids))
      else merkle_row sha256d fuel txids [])"
| "merkle_row sha256d fuel rest row =
     (if rest = [] then merkle_blob sha256d fuel row
      else
        let chunk = (if length rest \<ge> 64 then take 64 rest else append_self (take 32 rest)) in
        case merkle_blob sha256d fuel chunk of
          None \<Rightarrow> None
        | Some (Inl e) \<Rightarrow> Some (Inl e)
        | Some (Inr h) \<Rightarrow> merkle_row sha256d fuel (drop 64 rest) (append_ref row (raw256 h)))"
  by pat_completeness auto

termination
  by (relation "measures
        [\<lambda>x. case x of Inl (sha, fuel, txids) \<Rightarrow> 2 * fuel | Inr (sha, fuel, rest, row) \<Rightarrow> 2 * fuel + 1,
         \<lambda>x. case x of Inl (sha, fuel, txids) \<Rightarrow> 0 | Inr (sha, fuel, rest, row) \<Rightarrow> length rest]")
    auto

declare merkle_blob.simps [simp del] merkle_row.simps [simp del]

definition merkle_root_from_txids :: "(bytes \<Rightarrow> hash256) \<Rightarrow> nat \<Rightarrow> hash256 list \<Rightarrow> hash256 res option" where
  "merkle_root_from_txids sha256d fuel txs =
     (let rawBuffer = foldl (\<lambda>raw txid. append_ref raw (raw256 txid)) [] txs
      in merkle_blob sha256d fuel rawBuffer)"

section \<open>The branch of a leaf\<close>

fun branch_hash :: "(bytes \<Rightarrow> hash256) \<Rightarrow> hash256 \<Rightarrow> hash256 list \<Rightarrow> hash256" where
  "branch_hash sha256d hash [] = hash"
| "branch_hash sha256d hash (node # it) =
     branch_hash sha256d (sha256d (append_ref (append_ref [] (raw256 hash)) (raw256 node))) it"

definition branch_get_root :: "(bytes \<Rightarrow> hash256) \<Rightarrow> hash256 list \<Rightarrow> hash256 \<Rightarrow> hash256" where
  "branch_get_root sha256d branch leaf = branch_hash sha256d leaf branch"

definition branch_as_hex_array :: "hash256 list \<Rightarrow> string list" where
  "branch_as_hex_array branch = map (\<lambda>node. as_hex (raw256 node)) branch"

section \<open>The tree\<close>

text \<open>The specification: the rows of the tree, an odd last node paired with itself.\<close>

fun parents :: "(bytes \<Rightarrow> hash256) \<Rightarrow> hash256 list \<Rightarrow> hash256 list" where
  "parents sha (a # b # hs) = sha (raw256 a @ raw256 b) # parents sha hs"
| "parents sha [a] = [sha (raw256 a @ raw256 a)]"
| "parents sha [] = []"

lemma length_parents [simp]: "length (parents sha hs) = (length hs + 1) div 2"
  by (induction sha hs rule: parents.induct) auto

lemma parents_eq_Nil [simp]: "parents sha hs = [] \<longleftrightarrow> hs = []"
  by (cases "(sha, hs)" rule: parents.cases) auto

lemma parents_wf: "hasher_ok sha \<Longrightarrow> list_all wf_hash (parents sha hs)"
  by (induction sha hs rule: parents.induct) auto

function tree_root :: "(bytes \<Rightarrow> hash256) \<Rightarrow> hash256 list \<Rightarrow> hash256" where
  "tree_root sha hs =
     (case hs of [] \<Rightarrow> hash256_zero | [h] \<Rightarrow> h | _ \<Rightarrow> tree_root sha (parents sha hs))"
  by pat_completeness auto
termination
  by (relation "measure (length \<circ> snd)") auto

declare tree_root.simps [simp del]

lemma tree_root_simps [simp]:
  "tree_root sha [h] = h"
  "tree_root sha (a # b # hs) = tree_root sha (parents sha (a # b # hs))"
  by (subst tree_root.simps; simp)+

definition blob :: "hash256 list \<Rightarrow> bytes" where
  "blob hs = concat (map raw256 hs)"

lemma blob_simps [simp]:
  "blob [] = []" "blob (h # hs) = raw256 h @ blob hs" "blob (xs @ ys) = blob xs @ blob ys"
  by (simp_all add: blob_def)

lemma length_blob: "list_all wf_hash hs \<Longrightarrow> length (blob hs) = 32 * length hs"
  by (induction hs) (auto simp: wf_hash_def)

lemma hash256_from_raw: "wf_hash h \<Longrightarrow> hash256_from (raw256 h) = Inr h"
  by (simp add: hash256_from_def hash_from_ref_def wf_hash_def)

lemma merkle_blob_one: "wf_hash h \<Longrightarrow> merkle_blob sha (Suc n) (raw256 h) = Some (Inr h)"
  using hash256_from_raw [of h] by (simp add: merkle_blob.simps wf_hash_def)

lemma merkle_blob_two:
  "wf_hash a \<Longrightarrow> wf_hash b \<Longrightarrow>
   merkle_blob sha (Suc n) (raw256 a @ raw256 b) = Some (Inr (sha (raw256 a @ raw256 b)))"
  by (simp add: merkle_blob.simps wf_hash_def)

lemma merkle_row_parents:
  "list_all wf_hash hs \<Longrightarrow>
   merkle_row sha (Suc n) (blob hs) row = merkle_blob sha (Suc n) (row @ blob (parents sha hs))"
proof (induction sha hs arbitrary: row rule: parents.induct)
  case (1 sha a b hs)
  then have len: "length (raw256 a) = 32" "length (raw256 b) = 32" by (auto simp: wf_hash_def)
  then have "raw256 a \<noteq> []" by auto
  with 1 len show ?case
    by (subst merkle_row.simps) (simp add: merkle_blob_two)
next
  case (2 sha a)
  then have len: "length (raw256 a) = 32" by (auto simp: wf_hash_def)
  then have "raw256 a \<noteq> []" by auto
  with 2 len show ?case
    by (subst merkle_row.simps) (simp add: merkle_blob_two merkle_row.simps [of _ _ "[]"])
qed (simp add: merkle_row.simps)

lemma merkle_blob_tree:
  assumes "hasher_ok sha"
  shows "hs \<noteq> [] \<Longrightarrow> list_all wf_hash hs \<Longrightarrow> length hs \<le> n \<Longrightarrow>
    merkle_blob sha n (blob hs) = Some (Inr (tree_root sha hs))"
proof (induction n arbitrary: hs)
  case (Suc n)
  note len = length_blob [OF Suc.prems(2)]
  consider a where "hs = [a]" | a b where "hs = [a, b]" | a b c r where "hs = a # b # c # r"
    using Suc.prems(1) by (metis neq_Nil_conv)
  then show ?case
  proof cases
    case 1
    with Suc.prems show ?thesis by (simp add: merkle_blob_one)
  next
    case 2
    with Suc.prems show ?thesis by (simp add: merkle_blob_two)
  next
    case 3
    then obtain m where n: "n = Suc m" using Suc.prems(3) by (cases n) auto
    have "merkle_blob sha (Suc n) (blob hs) = merkle_row sha n (blob hs) []"
      using len 3 by (subst merkle_blob.simps) simp
    also have "\<dots> = merkle_blob sha n (blob (parents sha hs))"
      using Suc.prems(2) unfolding n by (simp add: merkle_row_parents)
    also have "\<dots> = Some (Inr (tree_root sha (parents sha hs)))"
      using Suc.prems(3) 3 by (intro Suc.IH) (auto simp: parents_wf [OF assms] simp del: parents.simps)
    also have "tree_root sha (parents sha hs) = tree_root sha hs" using 3 by simp
    finally show ?thesis .
  qed
qed simp

lemma blob_foldl: "foldl (\<lambda>raw txid. append_ref raw (raw256 txid)) raw txs = raw @ blob txs"
  by (induction txs arbitrary: raw) auto

text \<open>An empty blob is handed on for ever.\<close>

lemma merkle_blob_empty: "merkle_blob sha fuel [] = None"
proof (induction fuel)
  case (Suc n)
  then show ?case by (simp add: merkle_blob.simps merkle_row.simps)
qed (simp add: merkle_blob.simps)

text \<open>The siblings of the first leaf, row by row.\<close>

function first_branch :: "(bytes \<Rightarrow> hash256) \<Rightarrow> hash256 list \<Rightarrow> hash256 list" where
  "first_branch sha hs =
     (case hs of [] \<Rightarrow> [] | [h] \<Rightarrow> [] | _ # b # _ \<Rightarrow> b # first_branch sha (parents sha hs))"
  by pat_completeness auto
termination
  by (relation "measure (length \<circ> snd)") auto

declare first_branch.simps [simp del]

lemma first_branch_simps [simp]:
  "first_branch sha [h] = []"
  "first_branch sha (a # b # hs) = b # first_branch sha (parents sha (a # b # hs))"
  by (subst first_branch.simps; simp)+

lemma branch_of_first_leaf:
  "branch_hash sha leaf (first_branch sha (leaf # hs)) = tree_root sha (leaf # hs)"
proof (induction "length hs" arbitrary: leaf hs rule: less_induct)
  case less
  show ?case
  proof (cases hs)
    case Nil
    then show ?thesis by simp
  next
    case (Cons b r)
    then have "branch_hash sha (sha (raw256 leaf @ raw256 b))
        (first_branch sha (sha (raw256 leaf @ raw256 b) # parents sha r)) =
      tree_root sha (sha (raw256 leaf @ raw256 b) # parents sha r)"
      by (intro less) simp
    with Cons show ?thesis by simp
  qed
qed

text \<open>The branch of the first leaf is the same whatever the leaf is: it can be sent ahead.\<close>

lemma first_branch_leaf: "first_branch sha (leaf # hs) = first_branch sha (leaf' # hs)"
proof (induction "length hs" arbitrary: leaf leaf' hs rule: less_induct)
  case less
  show ?case
  proof (cases hs)
    case (Cons b r)
    then have "first_branch sha (sha (raw256 leaf @ raw256 b) # parents sha r) =
        first_branch sha (sha (raw256 leaf' @ raw256 b) # parents sha r)"
      by (intro less) simp
    with Cons show ?thesis by simp
  qed simp
qed

end
