(* ===== verification/TxScript.thy ===== *)
theory TxScript
  imports Hashes
begin

text \<open>
  \<open>lib/mining/txscript\<close>: the opcodes (\<open>Op.h\<close>), data pushes (\<open>PushData.cpp\<close>) and the script
  under construction (\<open>Script.h\<close>). The abstract side is \<open>script_pop\<close>, the way a Bitcoin node
  reads one element off a script; a push written by the code is one such element.
\<close>

section \<open>Opcodes\<close>

datatype op_code =
    OP_0 | OP_PUSHDATA1 | OP_PUSHDATA2 | OP_PUSHDATA4
  | OP_1 | OP_2 | OP_3 | OP_4 | OP_5 | OP_6 | OP_7 | OP_8
  | OP_9 | OP_10 | OP_11 | OP_12 | OP_13 | OP_14 | OP_15 | OP_16
  | OP_RETURN | OP_DUP | OP_EQUAL | OP_EQUALVERIFY | OP_HASH160 | OP_CHECKSIG

fun op_value :: "op_code \<Rightarrow> u8" where
  "op_value OP_0 = 0x00"
| "op_value OP_PUSHDATA1 = 0x4c"
| "op_value OP_PUSHDATA2 = 0x4d"
| "op_value OP_PUSHDATA4 = 0x4e"
| "op_value OP_1 = 0x51"
| "op_value OP_2 = 0x52"
| "op_value OP_3 = 0x53"
| "op_value OP_4 = 0x54"
| "op_value OP_5 = 0x55"
| "op_value OP_6 = 0x56"
| "op_value OP_7 = 0x57"
| "op_value OP_8 = 0x58"
| "op_value OP_9 = 0x59"
| "op_value OP_10 = 0x5a"
| "op_value OP_11 = 0x5b"
| "op_value OP_12 = 0x5c"
| "op_value OP_13 = 0x5d"
| "op_value OP_14 = 0x5e"
| "op_value OP_15 = 0x5f"
| "op_value OP_16 = 0x60"
| "op_value OP_RETURN = 0x6a"
| "op_value OP_DUP = 0x76"
| "op_value OP_EQUAL = 0x87"
| "op_value OP_EQUALVERIFY = 0x88"
| "op_value OP_HASH160 = 0xa9"
| "op_value OP_CHECKSIG = 0xac"

definition literal_start :: u8 where "literal_start = 0x01"
definition literal_last :: u8 where "literal_last = 0x10"
definition literal_offset :: u8 where "literal_offset = op_value OP_1 - literal_start"
definition direct_start :: nat where "direct_start = 0x01"
definition direct_last :: nat where "direct_last = 0x4b"

section \<open>Data pushes\<close>

text \<open>\<open>fromUInt\<close>: a loop that tests after its body.\<close>

function from_uint_loop :: "u64 \<Rightarrow> bytes \<Rightarrow> bytes" where
  "from_uint_loop integer encoded =
     (let encoded' = push_byte encoded (ucast integer);
          lastSignFlag = (integer AND 0x80 \<noteq> 0);
          integer' = integer div 0x100
      in if integer' \<noteq> 0 \<or> lastSignFlag then from_uint_loop integer' encoded' else encoded')"
  by pat_completeness auto
termination
proof (relation "measure (\<lambda>(integer, encoded). unat integer)", goal_cases)
  case 1
  show ?case by simp
next
  case (2 integer encoded e' flag integer')
  then have "integer \<noteq> 0" by auto
  then have "0 < unat integer" by (simp add: unat_gt_0)
  with 2 show ?case by (simp add: unat_div)
qed

declare from_uint_loop.simps [simp del]

definition from_uint :: "u64 \<Rightarrow> bytes" where
  "from_uint integer = from_uint_loop integer []"

definition pushdata_u32 :: "u32 \<Rightarrow> bytes" where "pushdata_u32 integer = from_uint (ucast integer)"
definition pushdata_u64 :: "u64 \<Rightarrow> bytes" where "pushdata_u64 integer = from_uint integer"
definition pushdata_ref :: "bytes \<Rightarrow> bytes" where "pushdata_ref data = data"

definition pushdata_raw :: "bytes \<Rightarrow> bytes" where
  "pushdata_raw data =
     (let len = length data in
      if len = 0 then push_byte [] (op_value OP_0)
      else if len = 1 \<and> data ! 0 = 0x00 then push_byte [] (op_value OP_0)
      else if len = 1 \<and> data ! 0 \<ge> literal_start \<and> data ! 0 \<le> literal_last
        then push_byte [] (data ! 0 + literal_offset)
      else
        let (raw, len) =
          (if direct_start \<le> len \<and> len \<le> direct_last then (push_byte [] (word_of_nat len), len)
           else if unat (op_value OP_PUSHDATA1) \<le> len \<and> len < 0x100
             then (push_byte (push_byte [] (op_value OP_PUSHDATA1)) (word_of_nat len), len)
           else if 0x100 \<le> len \<and> len < 0x10000
             then (push_byte (push_byte (push_byte [] (op_value OP_PUSHDATA2))
                    (word_of_nat len)) (word_of_nat (len div 0x100)), len)
           else
             let len = (if 0x100000000 \<le> len then 0xffffffff else len) in
             (push_byte (push_byte (push_byte (push_byte (push_byte [] (op_value OP_PUSHDATA4))
                (word_of_nat len)) (word_of_nat (len div 0x100)))
                (word_of_nat (len div 0x10000))) (word_of_nat (len div 0x1000000)), len))
        in append_ref raw (take len data))"

section \<open>Scripts\<close>

datatype script_item = Op op_code | Push bytes

fun script_append :: "bytes \<Rightarrow> script_item \<Rightarrow> bytes" where
  "script_append this (Op oc) = push_byte this (op_value oc)"
| "script_append this (Push data) = append_ref this (pushdata_raw data)"

definition script_build :: "script_item list \<Rightarrow> bytes" where
  "script_build items = foldl script_append [] items"

lemma script_append_eq:
  "script_append this item = this @ (case item of Op oc \<Rightarrow> [op_value oc] | Push d \<Rightarrow> pushdata_raw d)"
  by (cases item) (simp_all add: push_byte_def)

lemma foldl_script_append:
  "foldl script_append s items =
     s @ concat (map (\<lambda>i. case i of Op oc \<Rightarrow> [op_value oc] | Push d \<Rightarrow> pushdata_raw d) items)"
  by (induction items arbitrary: s) (simp_all add: script_append_eq)

lemma script_build_simps [simp]:
  "script_build [] = []"
  "script_build (Op oc # items) = op_value oc # script_build items"
  "script_build (Push d # items) = pushdata_raw d @ script_build items"
  by (simp_all add: script_build_def foldl_script_append script_append_eq)

section \<open>Numbers pushed by the code\<close>

lemma from_uint_loop_append: "from_uint_loop n acc = acc @ from_uint_loop n []"
proof (induction "unat n" arbitrary: n acc rule: less_induct)
  case less
  let ?more = "n div 0x100 \<noteq> 0 \<or> n AND 0x80 \<noteq> 0"
  show ?case
  proof (cases ?more)
    case True
    then have "n \<noteq> 0" by auto
    then have "unat (n div 0x100) < unat n" by (simp add: unat_div unat_gt_0)
    then have "from_uint_loop (n div 0x100) xs = xs @ from_uint_loop (n div 0x100) []" for xs
      by (rule less)
    from this [of "acc @ [ucast n]"] this [of "[ucast n]"] True show ?thesis
      by (simp add: from_uint_loop.simps [of n acc] from_uint_loop.simps [of n "[]"] push_byte_def Let_def)
  next
    case False
    then show ?thesis
      by (simp add: from_uint_loop.simps [of n acc] from_uint_loop.simps [of n "[]"] push_byte_def Let_def)
  qed
qed

lemma from_uint_rec:
  "from_uint n = ucast n # (if n div 0x100 \<noteq> 0 \<or> n AND 0x80 \<noteq> 0 then from_uint (n div 0x100) else [])"
  unfolding from_uint_def
  by (subst from_uint_loop.simps)
    (simp add: push_byte_def Let_def from_uint_loop_append [of "n div 0x100" "[ucast n]"])

lemma unat_ucast_u8: "unat (ucast (n :: u64) :: u8) = unat n mod 256"
proof -
  have "(ucast n :: u8) = word_of_nat (unat n)" by simp
  then show ?thesis by (simp only: unat_of_nat_u8)
qed

lemma and_0x80: "(n :: u64) AND 0x80 = 0 \<longleftrightarrow> \<not> bit n 7"
  using and_exp_eq_0_iff_not_bit [of n 7] by simp

lemma from_uint_induct [case_names step]:
  assumes "\<And>n. (n div 0x100 \<noteq> 0 \<or> n AND 0x80 \<noteq> 0 \<Longrightarrow> P (n div 0x100)) \<Longrightarrow> P n"
  shows "P (n :: u64)"
proof (induction "unat n" arbitrary: n rule: less_induct)
  case less
  show ?case
  proof (rule assms)
    assume "n div 0x100 \<noteq> 0 \<or> n AND 0x80 \<noteq> 0"
    then have "n \<noteq> 0" by auto
    then show "P (n div 0x100)" by (intro less) (simp add: unat_div unat_gt_0)
  qed
qed

lemma le_nat_from_uint: "le_nat (from_uint n) = unat n"
proof (induction n rule: from_uint_induct)
  case (step n)
  let ?more = "n div 0x100 \<noteq> 0 \<or> n AND 0x80 \<noteq> 0"
  have "le_nat (if ?more then from_uint (n div 0x100) else []) = unat n div 256"
  proof (cases ?more)
    case True
    with step show ?thesis by (simp add: unat_div)
  next
    case False
    then have "unat (n div 0x100) = 0" by simp
    then show ?thesis using False by (simp add: unat_div)
  qed
  then show ?case by (subst from_uint_rec) (simp add: unat_ucast_u8)
qed

lemma small_even_div_128: "(m :: nat) < 256 \<Longrightarrow> even (m div 128) \<Longrightarrow> m < 128"
proof (rule ccontr)
  assume "m < 256" "even (m div 128)" "\<not> m < 128"
  then have "m div 128 = 1" by (intro div_nat_eqI) simp_all
  with \<open>even (m div 128)\<close> show False by simp
qed

text \<open>The last byte has its top bit clear, so the number is read as positive.\<close>

lemma last_from_uint: "unat (last (from_uint n)) < 128"
proof (induction n rule: from_uint_induct)
  case (step n)
  show ?case
  proof (cases "n div 0x100 \<noteq> 0 \<or> n AND 0x80 \<noteq> 0")
    case True
    have "from_uint (n div 0x100) \<noteq> []" by (subst from_uint_rec) simp
    with step True show ?thesis by (subst from_uint_rec) simp
  next
    case False
    have small: "unat n < 256"
    proof -
      have "unat (n div 0x100) = 0" using False by simp
      then show ?thesis by (simp add: unat_div)
    qed
    have "\<not> bit n 7" using False and_0x80 by blast
    then have "\<not> bit (unat n) 7" by (simp add: bit_unsigned_iff)
    then have "even (unat n div 128)" by (simp add: bit_iff_odd)
    with small have "unat n < 128"
      using small_even_div_128 by blast
    then have "unat (ucast n :: u8) < 128" unfolding unat_ucast_u8 by simp
    moreover have "from_uint n = [ucast n]"
      by (subst from_uint_rec, subst if_not_P [OF False]) (rule refl)
    ultimately show ?thesis by (simp only: last.simps if_True simp_thms)
  qed
qed

lemma from_uint_nonempty [simp]: "from_uint n \<noteq> []"
  by (subst from_uint_rec) simp

section \<open>Reading a script\<close>

text \<open>
  One element off the front of a script as a node reads it: the opcodes up to \<open>OP_PUSHDATA4\<close> push
  the bytes behind them, \<open>OP_1\<close> to \<open>OP_16\<close> push the number of their name, the others stand for
  themselves.
\<close>

datatype script_elem = Pushed bytes | Opcode u8

definition take_push :: "nat \<Rightarrow> bytes \<Rightarrow> (script_elem \<times> bytes) res" where
  "take_push n s =
     (if length s < n then Inl (Out_of_range ''script'') else Inr (Pushed (take n s), drop n s))"

definition sized_push :: "nat \<Rightarrow> bytes \<Rightarrow> (script_elem \<times> bytes) res" where
  "sized_push k s =
     (if length s < k then Inl (Out_of_range ''script'')
      else take_push (le_nat (take k s)) (drop k s))"

fun script_pop :: "bytes \<Rightarrow> (script_elem \<times> bytes) res" where
  "script_pop [] = Inl (Out_of_range ''script'')"
| "script_pop (b # s) =
     (if b \<le> 0x4b then take_push (unat b) s
      else if b = 0x4c then sized_push 1 s
      else if b = 0x4d then sized_push 2 s
      else if b = 0x4e then sized_push 4 s
      else if 0x51 \<le> b \<and> b \<le> 0x60 then Inr (Pushed [b - 0x50], s)
      else Inr (Opcode b, s))"

text \<open>A number on the script stack: little-endian, the top bit of the last byte is its sign.\<close>

definition script_num :: "bytes \<Rightarrow> int" where
  "script_num bs =
     (if bs = [] then 0
      else let h = 128 * 256 ^ (length bs - 1) in
           if le_nat bs < h then int (le_nat bs) else - int (le_nat bs - h))"

lemma script_num_positive:
  assumes "bs \<noteq> []" "unat (last bs) < 128"
  shows "script_num bs = int (le_nat bs)"
proof -
  obtain xs x where bs: "bs = xs @ [x]" using assms(1) rev_exhaust by blast
  have "le_nat bs = le_nat xs + 256 ^ length xs * unat x" by (simp add: bs le_nat_append)
  also have "\<dots> < 256 ^ length xs * Suc (unat x)" using le_nat_bound [of xs] by simp
  also have "\<dots> \<le> 256 ^ length xs * 128" using assms(2) bs by (intro mult_le_mono2) simp
  finally show ?thesis using assms(1) by (simp add: script_num_def Let_def bs mult.commute)
qed

text \<open>The size classes of \<open>PushData::raw\<close>.\<close>

lemma pushdata_raw_cases:
  assumes "data \<noteq> []" "length data < 2 ^ 32"
  shows "pushdata_raw data =
    (let len = length data in
     if len = 1 \<and> hd data = 0 then [0]
     else if len = 1 \<and> 1 \<le> hd data \<and> hd data \<le> 0x10 then [hd data + 0x50]
     else if len \<le> 75 then word_of_nat len # data
     else if len < 256 then 0x4c # word_of_nat len # data
     else if len < 65536 then 0x4d # le_bytes 2 len @ data
     else 0x4e # le_bytes 4 len @ data)"
proof -
  have four: "le_bytes 4 n = [word_of_nat n, word_of_nat (n div 0x100), word_of_nat (n div 0x10000),
      word_of_nat (n div 0x1000000)]" for n
    by (simp add: le_bytes_4)
  have two: "le_bytes 2 n = [word_of_nat n, word_of_nat (n div 0x100)]" for n
    by (simp add: numeral_2_eq_2)
  have "Suc 0 \<le> length data" using assms(1) by (cases data) auto
  then show ?thesis
    using assms
    by (auto simp: pushdata_raw_def Let_def push_byte_def hd_conv_nth literal_start_def literal_last_def
        literal_offset_def direct_start_def direct_last_def four two)
qed

text \<open>A push is read back as its data, whatever follows it; only a single zero byte is not.\<close>

lemma take_push_append: "length d = n \<Longrightarrow> take_push n (d @ rest) = Inr (Pushed d, rest)"
  by (auto simp: take_push_def)

lemma sized_push_append:
  assumes "length d < 256 ^ k"
  shows "sized_push k (le_bytes k (length d) @ d @ rest) = Inr (Pushed d, rest)"
  using assms by (simp add: sized_push_def le_nat_le_bytes take_push_append)

lemma literal_pop:
  assumes "1 \<le> b" "b \<le> (0x10 :: u8)"
  shows "script_pop ((b + 0x50) # rest) = Inr (Pushed [b], rest)"
proof -
  have "unat (b + 0x50) = unat b + 0x50"
    using assms by (subst unat_add_lem [THEN iffD1]) (auto simp: word_le_nat_alt)
  with assms have "0x51 \<le> b + 0x50" "b + 0x50 \<le> 0x60" by (simp_all add: word_le_nat_alt)
  moreover have "\<not> c \<le> 0x4b \<and> c \<noteq> 0x4c \<and> c \<noteq> 0x4d \<and> c \<noteq> 0x4e" if "0x51 \<le> c" for c :: u8
    using that by (auto simp: word_le_nat_alt)
  ultimately have "script_pop ((b + 0x50) # rest) = Inr (Pushed [b + 0x50 - 0x50], rest)"
    by (simp only: script_pop.simps if_True if_False simp_thms)
  then show ?thesis by simp
qed

lemma script_pop_pushdata_raw:
  assumes "length data < 2 ^ 32" "data \<noteq> [0]"
  shows "script_pop (pushdata_raw data @ rest) = Inr (Pushed data, rest)"
proof (cases "data = []")
  case True
  then show ?thesis by (simp add: pushdata_raw_def push_byte_def take_push_def)
next
  case False
  let ?n = "length data"
  have not0: "\<not> (?n = 1 \<and> hd data = 0)" using assms(2) by (cases data) auto
  have raw: "pushdata_raw data =
    (if ?n = 1 \<and> 1 \<le> hd data \<and> hd data \<le> 0x10 then [hd data + 0x50]
     else if ?n \<le> 75 then word_of_nat ?n # data
     else if ?n < 256 then 0x4c # word_of_nat ?n # data
     else if ?n < 65536 then 0x4d # le_bytes 2 ?n @ data
     else 0x4e # le_bytes 4 ?n @ data)"
    using pushdata_raw_cases [OF False assms(1)] not0 by (simp add: Let_def)
  consider (lit) "?n = 1 \<and> 1 \<le> hd data \<and> hd data \<le> 0x10"
    | (direct) "\<not> (?n = 1 \<and> 1 \<le> hd data \<and> hd data \<le> 0x10)" "?n \<le> 75"
    | (one) "75 < ?n" "?n < 256" | (two) "256 \<le> ?n" "?n < 65536" | (four) "65536 \<le> ?n"
    by linarith
  then show ?thesis
  proof cases
    case lit
    then have "data = [hd data]" by (cases data) auto
    then show ?thesis using lit raw literal_pop [of "hd data" rest] by simp
  next
    case direct
    then have "unat (word_of_nat ?n :: u8) = ?n" by (simp add: unat_of_nat_u8)
    moreover from this direct have "(word_of_nat ?n :: u8) \<le> 0x4b" by (simp add: word_le_nat_alt)
    ultimately show ?thesis
      unfolding raw using direct by (simp only: if_False if_True append_Cons script_pop.simps take_push_append)
  next
    case one
    have "le_bytes 1 ?n = [word_of_nat ?n]" by simp
    then show ?thesis using one raw sized_push_append [of data 1 rest] by simp
  next
    case two
    then show ?thesis using raw sized_push_append [of data 2 rest] by simp
  next
    case four
    then show ?thesis using raw assms sized_push_append [of data 4 rest] by simp
  qed
qed

definition pushable :: "bytes \<Rightarrow> bool" where
  "pushable data \<longleftrightarrow> length data < 2 ^ 32 \<and> data \<noteq> [0]"

definition pop_push :: "bytes \<Rightarrow> (bytes \<times> bytes) res" where
  "pop_push s =
     rbind (script_pop s)
       (\<lambda>(e, s'). case e of Pushed d \<Rightarrow> Inr (d, s') | Opcode _ \<Rightarrow> Inl (Runtime_error ''not a push''))"

interpretation push_code: prefix_code pushdata_raw pop_push pushable
  by unfold_locales (simp add: pop_push_def pushable_def script_pop_pushdata_raw)

lemma length_from_uint: "length (from_uint n) \<le> 9"
proof -
  have "length (from_uint n) \<le> Suc k" if "unat n < 128 * 256 ^ k" for n k
    using that
  proof (induction k arbitrary: n)
    case 0
    have "\<not> bit (unat n) 7" using 0 by (simp add: bit_iff_odd)
    then have "n AND 0x80 = 0" by (simp add: and_0x80 bit_unsigned_iff)
    moreover have "n div 0x100 = 0" using 0 by (simp add: word_unat_eq_iff unat_div)
    ultimately show ?case by (subst from_uint_rec) simp
  next
    case (Suc k)
    have "unat (n div 0x100) < 128 * 256 ^ k" using Suc.prems by (simp add: unat_div)
    then show ?case using Suc.IH by (subst from_uint_rec) simp
  qed
  moreover have "unat n < 128 * 256 ^ 8"
    using unsigned_less [of n, where ?'a = nat] by simp
  ultimately show ?thesis by fastforce
qed

end
