(* ===== verification/Coinbase.thy ===== *)
theory Coinbase
  imports TxScript
begin

text \<open>
  The coinbase transaction of \<open>lib/mining\<close>: variable-length integers and data (\<open>VarInt\<close>,
  \<open>VarData\<close>), the kinds of outputs and their scripts (\<open>AbstractCoinbaseOutput\<close> and its
  subclasses), the balancing of the outputs against the block reward (\<open>CoinbaseOutputs\<close>), and the
  transaction itself with the two parts a miner puts its nonces between (\<open>CoinbaseTransaction\<close>).
\<close>

section \<open>Variable-length integers and data\<close>

definition varint_encode :: "u64 \<Rightarrow> bytes" where
  "varint_encode raw =
     (if raw < 0xfd then take 1 (u64_mem raw)
      else if raw < 0x10000 then append_ref (push_byte [] 0xfd) (take 2 (u64_mem raw))
      else if raw < 0x100000000 then append_ref (push_byte [] 0xfe) (take 4 (u64_mem raw))
      else append_ref (push_byte [] 0xff) (take 8 (u64_mem raw)))"

definition vardata_encode :: "bytes \<Rightarrow> bytes" where
  "vardata_encode constData =
     append_ref (append_ref [] (varint_encode (word_of_nat (length constData)))) constData"

text \<open>The reader of the Bitcoin wire format, which the program has not.\<close>

definition read_le :: "nat \<Rightarrow> bytes \<Rightarrow> (u64 \<times> bytes) res" where
  "read_le n s =
     (if length s < n then Inl (Out_of_range ''varint'')
      else Inr (word_of_nat (le_nat (take n s)), drop n s))"

fun varint_read :: "bytes \<Rightarrow> (u64 \<times> bytes) res" where
  "varint_read [] = Inl (Out_of_range ''varint'')"
| "varint_read (b # s) =
     (if b < 0xfd then Inr (ucast b, s)
      else if b = 0xfd then read_le 2 s
      else if b = 0xfe then read_le 4 s
      else read_le 8 s)"

definition vardata_read :: "bytes \<Rightarrow> (bytes \<times> bytes) res" where
  "vardata_read s =
     rbind (varint_read s) (\<lambda>(n, s').
       if length s' < unat n then Inl (Out_of_range ''vardata'')
       else Inr (take (unat n) s', drop (unat n) s'))"

definition u64_sized :: "bytes \<Rightarrow> bool" where
  "u64_sized d \<longleftrightarrow> length d < 2 ^ 64"

lemma take_le_bytes: "n \<le> m \<Longrightarrow> take n (le_bytes m v) = le_bytes n v"
proof (induction n arbitrary: m v)
  case (Suc n)
  then show ?case by (cases m) auto
qed simp

lemma take_u64_mem: "n \<le> 8 \<Longrightarrow> take n (u64_mem w) = le_bytes n (unat w)"
  by (simp add: u64_mem_def take_le_bytes)

lemma read_le_le_bytes:
  assumes "unat (w :: u64) < 256 ^ n"
  shows "read_le n (le_bytes n (unat w) @ rest) = Inr (w, rest)"
  using assms by (simp add: read_le_def le_nat_le_bytes)

lemma varint_read_encode: "varint_read (varint_encode w @ rest) = Inr (w, rest)"
proof -
  consider "w < 0xfd" | "\<not> w < 0xfd" "w < 0x10000" | "\<not> w < 0x10000" "w < 0x100000000" | "\<not> w < 0x100000000"
    by blast
  then show ?thesis
  proof cases
    case 1
    then have small: "unat w < 0xfd" by (simp add: word_less_nat_alt)
    have b: "unat (word_of_nat (unat w) :: u8) = unat w"
      unfolding unat_of_nat_u8 using small by simp
    have "take 1 (u64_mem w) = [word_of_nat (unat w)]" by (simp add: take_u64_mem)
    moreover have "(word_of_nat (unat w) :: u8) < 0xfd"
      unfolding word_less_nat_alt b using small by simp
    moreover have "(ucast (word_of_nat (unat w) :: u8) :: u64) = w"
      by (metis b of_nat_unat ucast_id)
    ultimately show ?thesis
      using 1 by (simp only: varint_encode_def if_True append_Cons append_Nil varint_read.simps)
  next
    case 2
    then have "unat w < 256 ^ 2" by (simp add: word_less_nat_alt)
    with 2 show ?thesis
      by (simp add: varint_encode_def push_byte_def take_u64_mem read_le_le_bytes)
  next
    case 3
    then have "unat w < 256 ^ 4" by (simp add: word_less_nat_alt)
    moreover have "\<not> w < 0xfd" using 3 by (auto simp: word_less_nat_alt)
    ultimately show ?thesis
      using 3 by (simp add: varint_encode_def push_byte_def take_u64_mem read_le_le_bytes)
  next
    case 4
    have "unat w < 256 ^ 8" using unsigned_less [of w, where ?'a = nat] by simp
    moreover have "\<not> w < 0xfd" "\<not> w < 0x10000" using 4 by (auto simp: word_less_nat_alt)
    ultimately show ?thesis
      using 4 by (simp add: varint_encode_def push_byte_def u64_mem_def read_le_le_bytes)
  qed
qed

interpretation varint_code: prefix_code varint_encode varint_read "\<lambda>_. True"
  by unfold_locales (rule varint_read_encode)

lemma vardata_encode_eq: "vardata_encode d = varint_encode (word_of_nat (length d)) @ d"
  by (simp add: vardata_encode_def)

interpretation vardata_code: prefix_code vardata_encode vardata_read u64_sized
  by unfold_locales
    (simp add: vardata_read_def vardata_encode_eq varint_read_encode u64_sized_def unat_of_nat)

section \<open>Outputs\<close>

datatype output_type = P2PKH | P2SH | P2WPKH

text \<open>What the subclasses of \<open>AbstractCoinbaseOutput\<close> add to the amount of coins.\<close>

datatype output_kind =
    Coinbase_output (destination: hash160) (outputType: output_type)
  | Coinbase_commitment (commitment: bytes)

record coinbase_output =
  coins :: u64
  kind :: output_kind

definition p2pkh :: "hash160 \<Rightarrow> u64 \<Rightarrow> coinbase_output" where
  "p2pkh dest c = \<lparr>coins = c, kind = Coinbase_output dest P2PKH\<rparr>"

definition p2sh :: "hash160 \<Rightarrow> u64 \<Rightarrow> coinbase_output" where
  "p2sh dest c = \<lparr>coins = c, kind = Coinbase_output dest P2SH\<rparr>"

definition p2wpkh :: "hash160 \<Rightarrow> u64 \<Rightarrow> coinbase_output" where
  "p2wpkh dest c = \<lparr>coins = c, kind = Coinbase_output dest P2WPKH\<rparr>"

definition coinbase_commitment :: "bytes \<Rightarrow> coinbase_output" where
  "coinbase_commitment comm = \<lparr>coins = 0, kind = Coinbase_commitment comm\<rparr>"

fun redeem_script :: "output_kind \<Rightarrow> bytes" where
  "redeem_script (Coinbase_output dest P2PKH) =
     script_build [Op OP_DUP, Op OP_HASH160, Push (raw160 dest), Op OP_EQUALVERIFY, Op OP_CHECKSIG]"
| "redeem_script (Coinbase_output dest P2SH) =
     script_build [Op OP_HASH160, Push (raw160 dest), Op OP_EQUAL]"
| "redeem_script (Coinbase_output dest P2WPKH) = script_build [Op OP_0, Push (raw160 dest)]"
| "redeem_script (Coinbase_commitment comm) = script_build [Op OP_RETURN, Push comm]"

definition output_encode :: "coinbase_output \<Rightarrow> bytes" where
  "output_encode out =
     append_ref (append_le64 [] (coins out)) (vardata_encode (redeem_script (kind out)))"

definition is_commitment :: "coinbase_output \<Rightarrow> bool" where
  "is_commitment out \<longleftrightarrow> redeem_script (kind out) ! 0 = op_value OP_RETURN"

lemma is_commitment_iff: "is_commitment out \<longleftrightarrow> (\<exists>c. kind out = Coinbase_commitment c)"
  by (cases "kind out" rule: redeem_script.cases) (auto simp: is_commitment_def)

section \<open>The witness commitment\<close>

definition witness_magic :: bytes where
  "witness_magic = [0xaa, 0x21, 0xa9, 0xed]"

definition strip_op_return :: "bytes \<Rightarrow> bytes" where
  "strip_op_return rawData =
     (if length rawData \<ge> 2 \<and> rawData ! 0 = op_value OP_RETURN then drop 2 rawData else rawData)"

definition witness_from_raw :: "bytes \<Rightarrow> coinbase_output" where
  "witness_from_raw rawData = coinbase_commitment (strip_op_return rawData)"

definition witness_from_hash :: "hash256 \<Rightarrow> coinbase_output" where
  "witness_from_hash h = coinbase_commitment (append_ref witness_magic (raw256 h))"

definition witness_for_coinbase_only :: "(bytes \<Rightarrow> hash256) \<Rightarrow> coinbase_output" where
  "witness_for_coinbase_only sha256d =
     (let coinbaseWitness = hash256_zero;
          comm = sha256d (append_ref (append_ref [] (raw256 coinbaseWitness)) (raw256 coinbaseWitness))
      in witness_from_hash comm)"

text \<open>A commitment of up to 75 bytes survives the trip through its script.\<close>

lemma witness_script_roundtrip:
  assumes "2 \<le> length comm" "length comm \<le> 75"
  shows "witness_from_raw (redeem_script (Coinbase_commitment comm)) = coinbase_commitment comm"
proof -
  have "pushdata_raw comm = word_of_nat (length comm) # comm"
    using assms by (subst pushdata_raw_cases) (auto simp: Let_def)
  then show ?thesis by (simp add: witness_from_raw_def strip_op_return_def)
qed

section \<open>Balancing the outputs\<close>

text \<open>
  The vector of outputs holds owning pointers, \<open>None\<close> is a null one (\<open>JobManager\<close> puts one in
  front before it fills it). All sums and products are of \<open>uint64_t\<close>.
\<close>

type_synonym coinbase_outputs = "coinbase_output option list"

definition satoshis_per_coin :: u64 where "satoshis_per_coin = 100000000"
definition total_coinbase_coins :: u64 where "total_coinbase_coins = 100 * satoshis_per_coin"
definition correction_precision :: u64 where "correction_precision = 1000000"

definition total_shares :: "coinbase_output list \<Rightarrow> u64" where
  "total_shares outs = fold (\<lambda>out t. t + coins out) outs 0"

definition correct_output :: "u64 \<Rightarrow> coinbase_output \<Rightarrow> coinbase_output" where
  "correct_output correctionFactor out =
     out\<lparr>coins := coins out * correctionFactor div correction_precision\<rparr>"

text \<open>
  One pass of \<open>rebalance\<close> over outputs that are all there; \<open>Done\<close> is a return, \<open>Again\<close> the
  recursive call.
\<close>

datatype rebalance_result = Done "coinbase_output list" | Again "coinbase_output list"

definition rebalance_pass :: "coinbase_output list \<Rightarrow> u64 \<Rightarrow> rebalance_result" where
  "rebalance_pass outs totalCoins =
     (if outs = [] then Done outs
      else
        let totalShares = total_shares outs in
        if totalShares = 0 then Done outs
        else if totalCoins = totalShares then Done outs
        else
          let correctionFactor = totalCoins * correction_precision div totalShares;
              outs' = map (correct_output correctionFactor) outs;
              newTotalCoins = total_shares outs'
          in if newTotalCoins \<noteq> totalCoins then Again outs' else Done outs')"

partial_function (option) rebalance_loop ::
  "coinbase_output list \<Rightarrow> u64 \<Rightarrow> coinbase_output list option" where
  "rebalance_loop outs totalCoins =
     (case rebalance_pass outs totalCoins of
        Done outs' \<Rightarrow> Some outs'
      | Again outs' \<Rightarrow> rebalance_loop outs' totalCoins)"

text \<open>The method itself: a null pointer among the outputs is dereferenced by the first loop.\<close>

definition rebalance :: "coinbase_outputs \<Rightarrow> u64 \<Rightarrow> coinbase_outputs res option" where
  "rebalance outs totalCoins =
     (if None \<in> set outs then Some (Inl (Undefined ''null coinbase output''))
      else map_option (\<lambda>os. Inr (map Some os)) (rebalance_loop (map the outs) totalCoins))"

lemma total_shares_Cons: "total_shares (out # outs) = coins out + total_shares outs"
proof -
  have "fold (\<lambda>out t. t + coins out) outs a = a + fold (\<lambda>out t. t + coins out) outs (0 :: u64)" for a
  proof (induction outs arbitrary: a)
    case (Cons x xs)
    from Cons [of "a + coins x"] Cons [of "coins x"] show ?case by (simp add: add.assoc)
  qed simp
  from this [of "coins out"] show ?thesis by (simp add: total_shares_def)
qed

lemma total_shares_Nil [simp]: "total_shares [] = 0"
  by (simp add: total_shares_def)

text \<open>The sum of the coins as a number; where it stays below \<open>2 ^ 64\<close>, the loop computes it.\<close>

definition coin_sum :: "coinbase_output list \<Rightarrow> nat" where
  "coin_sum outs = sum_list (map (\<lambda>out. unat (coins out)) outs)"

lemma coin_sum_simps [simp]:
  "coin_sum [] = 0" "coin_sum (out # outs) = unat (coins out) + coin_sum outs"
  by (simp_all add: coin_sum_def)

lemma unat_total_shares: "coin_sum outs < 2 ^ 64 \<Longrightarrow> unat (total_shares outs) = coin_sum outs"
proof (induction outs)
  case (Cons out outs)
  then show ?case by (simp add: total_shares_Cons unat_word_ariths)
qed simp

text \<open>What one pass does to the coins when nothing wraps.\<close>

definition no_wrap :: "coinbase_output list \<Rightarrow> u64 \<Rightarrow> bool" where
  "no_wrap outs totalCoins \<longleftrightarrow> coin_sum outs < 2 ^ 64 \<and> unat totalCoins * 1000000 < 2 ^ 64"

definition factor :: "coinbase_output list \<Rightarrow> u64 \<Rightarrow> nat" where
  "factor outs totalCoins = unat totalCoins * 1000000 div coin_sum outs"

lemma factor_le: "out \<in> set outs \<Longrightarrow> unat (coins out) * factor outs t \<le> unat t * 1000000"
proof -
  assume "out \<in> set outs"
  then have "unat (coins out) \<le> coin_sum outs"
    by (auto simp: coin_sum_def intro: member_le_sum_list)
  then have "unat (coins out) * factor outs t \<le> coin_sum outs * (unat t * 1000000 div coin_sum outs)"
    by (simp add: factor_def)
  also have "\<dots> \<le> unat t * 1000000" by simp
  finally show ?thesis .
qed

lemma unat_correction_factor:
  assumes "no_wrap outs t"
  shows "unat (t * correction_precision div total_shares outs) = factor outs t"
proof -
  have "unat (t * correction_precision) = unat t * 1000000"
    using assms unfolding correction_precision_def no_wrap_def
    by (subst unat_mult_lem [THEN iffD1]) simp_all
  then show ?thesis
    using assms by (simp add: unat_div factor_def no_wrap_def unat_total_shares)
qed

lemma unat_corrected:
  assumes "no_wrap outs t" "out \<in> set outs"
  shows "unat (coins (correct_output (t * correction_precision div total_shares outs) out)) =
    unat (coins out) * factor outs t div 1000000"
proof -
  let ?cf = "t * correction_precision div total_shares outs"
  have "unat (coins out) * unat ?cf < 2 ^ 64"
    using factor_le [OF assms(2), of t] assms(1)
    unfolding unat_correction_factor [OF assms(1)] no_wrap_def by simp
  then have "unat (coins out * ?cf) = unat (coins out) * factor outs t"
    unfolding unat_correction_factor [OF assms(1), symmetric]
    by (subst unat_mult_lem [THEN iffD1]) simp_all
  then show ?thesis by (simp add: correct_output_def correction_precision_def unat_div)
qed

lemma sum_list_div_le: "sum_list (map (\<lambda>x. f x * k div d) xs) \<le> sum_list (map f xs) * k div (d :: nat)"
proof (induction xs)
  case (Cons x xs)
  have "f x * k div d + sum_list (map f xs) * k div d \<le> (f x * k + sum_list (map f xs) * k) div d"
    by (metis div_add1_eq le_add1)
  with Cons show ?case by (simp add: algebra_simps)
qed simp

definition corrected :: "coinbase_output list \<Rightarrow> u64 \<Rightarrow> coinbase_output list" where
  "corrected outs t = map (correct_output (t * correction_precision div total_shares outs)) outs"

lemma coin_sum_corrected:
  assumes "no_wrap outs t"
  shows "coin_sum (corrected outs t) \<le> unat t"
proof -
  have "coin_sum (corrected outs t) =
      sum_list (map (\<lambda>out. unat (coins out) * factor outs t div 1000000) outs)"
    using unat_corrected [OF assms] unfolding coin_sum_def corrected_def
    by (simp add: comp_def cong: map_cong)
  also have "\<dots> \<le> coin_sum outs * factor outs t div 1000000"
    unfolding coin_sum_def by (rule sum_list_div_le)
  also have "\<dots> \<le> unat t * 1000000 div 1000000"
    unfolding factor_def by (intro div_le_mono) simp
  finally show ?thesis by simp
qed

lemma no_wrap_corrected: "no_wrap outs t \<Longrightarrow> no_wrap (corrected outs t) t"
  using coin_sum_corrected [of outs t] unsigned_less [of t, where ?'a = nat]
  by (simp add: no_wrap_def)

lemma length_corrected [simp]: "length (corrected outs t) = length outs"
  by (simp add: corrected_def)

lemma rebalance_pass_eq:
  "rebalance_pass outs t =
     (if outs = [] \<or> total_shares outs = 0 \<or> t = total_shares outs then Done outs
      else if total_shares (corrected outs t) \<noteq> t then Again (corrected outs t)
      else Done (corrected outs t))"
  by (simp add: rebalance_pass_def corrected_def Let_def)

text \<open>If it returns: the coins add up to the reward, or there was nothing to scale.\<close>

lemma rebalance_loop_result:
  assumes "rebalance_loop outs t = Some outs'"
  shows "(outs' = [] \<or> total_shares outs' = 0 \<or> total_shares outs' = t) \<and> map kind outs' = map kind outs"
proof (rule rebalance_loop.raw_induct
    [where P = "\<lambda>outs t outs'. (outs' = [] \<or> total_shares outs' = 0 \<or> total_shares outs' = t) \<and>
        map kind outs' = map kind outs", OF _ assms])
  fix loop outs t outs'
  assume IH: "\<And>outs t outs'. loop outs t = Some outs' \<Longrightarrow>
      (outs' = [] \<or> total_shares outs' = 0 \<or> total_shares outs' = t) \<and> map kind outs' = map kind outs"
    and ret: "(case rebalance_pass outs t of Done outs' \<Rightarrow> Some outs' | Again outs' \<Rightarrow> loop outs' t) = Some outs'"
  have kinds: "map kind (corrected outs t) = map kind outs"
    by (simp add: corrected_def comp_def correct_output_def)
  show "(outs' = [] \<or> total_shares outs' = 0 \<or> total_shares outs' = t) \<and> map kind outs' = map kind outs"
    using ret IH [of "corrected outs t" t outs'] kinds
    by (auto simp: rebalance_pass_eq split: if_splits)
qed

lemma rebalance_loop_bound:
  assumes "rebalance_loop outs t = Some outs'" "no_wrap outs t"
  shows "coin_sum outs' \<le> unat t"
proof -
  have "no_wrap outs t \<longrightarrow> coin_sum outs' \<le> unat t"
  proof (rule rebalance_loop.raw_induct
      [where P = "\<lambda>outs t outs'. no_wrap outs t \<longrightarrow> coin_sum outs' \<le> unat t", OF _ assms(1)], rule impI)
    fix loop outs t outs'
    assume IH: "\<And>outs t outs'. loop outs t = Some outs' \<Longrightarrow> no_wrap outs t \<longrightarrow> coin_sum outs' \<le> unat t"
      and ret: "(case rebalance_pass outs t of Done outs' \<Rightarrow> Some outs' | Again outs' \<Rightarrow> loop outs' t) = Some outs'"
      and nw: "no_wrap outs t"
    have "unat (total_shares outs) = coin_sum outs"
      using nw by (simp add: no_wrap_def unat_total_shares)
    then have "total_shares outs = 0 \<or> t = total_shares outs \<Longrightarrow> coin_sum outs \<le> unat t"
      by (auto simp: unat_eq_0)
    then show "coin_sum outs' \<le> unat t"
      using ret IH [of "corrected outs t" t outs'] no_wrap_corrected [OF nw] coin_sum_corrected [OF nw]
      by (auto simp: rebalance_pass_eq split: if_splits)
  qed
  with assms(2) show ?thesis by blast
qed

text \<open>
  A pass that changes nothing is repeated for ever. Without wrap-around that is the only way not
  to return: after the first pass no output shrinks any more, so every further pass that changes
  something brings the sum nearer to the reward.
\<close>

definition stuck :: "coinbase_output list \<Rightarrow> u64 \<Rightarrow> bool" where
  "stuck outs t \<longleftrightarrow>
     outs \<noteq> [] \<and> total_shares outs \<noteq> 0 \<and> total_shares outs \<noteq> t \<and> corrected outs t = outs"

fun passes :: "nat \<Rightarrow> coinbase_output list \<Rightarrow> u64 \<Rightarrow> coinbase_output list" where
  "passes 0 outs t = outs"
| "passes (Suc n) outs t =
     (case rebalance_pass outs t of Done outs' \<Rightarrow> outs' | Again outs' \<Rightarrow> passes n outs' t)"

lemma stuck_pass: "stuck outs t \<Longrightarrow> rebalance_pass outs t = Again outs"
  by (auto simp: stuck_def rebalance_pass_eq)

lemma passes_stuck: "stuck outs t \<Longrightarrow> passes n outs t = outs"
  by (induction n) (simp_all add: stuck_pass)

lemma rebalance_loop_stuck:
  assumes "stuck outs t"
  shows "rebalance_loop outs t = None"
proof (cases "rebalance_loop outs t")
  case (Some r)
  have "\<not> stuck outs t"
  proof (rule rebalance_loop.raw_induct [where P = "\<lambda>outs t r. \<not> stuck outs t", OF _ Some])
    fix loop outs t and r :: "coinbase_output list"
    assume IH: "\<And>outs t r. loop outs t = Some r \<Longrightarrow> \<not> stuck outs t"
      and ret: "(case rebalance_pass outs t of Done outs' \<Rightarrow> Some outs' | Again outs' \<Rightarrow> loop outs' t) = Some r"
    show "\<not> stuck outs t"
    proof
      assume st: "stuck outs t"
      with ret have "loop outs t = Some r" by (simp add: stuck_pass)
      with IH st show False by blast
    qed
  qed
  with assms show ?thesis by blast
qed

lemma corrected_grows:
  assumes "no_wrap outs t" "coin_sum outs \<le> unat t" "0 < coin_sum outs" "out \<in> set outs"
  shows "unat (coins out) \<le>
    unat (coins (correct_output (t * correction_precision div total_shares outs) out))"
proof -
  have "1000000 \<le> factor outs t"
    using assms(2,3) by (simp add: factor_def less_eq_div_iff_mult_less_eq)
  then have "unat (coins out) * 1000000 \<le> unat (coins out) * factor outs t" by simp
  then have "unat (coins out) \<le> unat (coins out) * factor outs t div 1000000"
    by (simp add: less_eq_div_iff_mult_less_eq)
  with unat_corrected [OF assms(1,4)] show ?thesis by simp
qed

lemma coin_sum_mono:
  assumes "list_all2 (\<lambda>a b. unat (coins a) \<le> unat (coins b) \<and> kind a = kind b) xs ys"
  shows "coin_sum xs \<le> coin_sum ys \<and> (coin_sum xs = coin_sum ys \<longrightarrow> xs = ys)"
  using assms
proof (induction rule: list_all2_induct)
  case (Cons x xs y ys)
  then show ?case by (auto simp: word_unat_eq_iff intro!: coinbase_output.equality)
qed simp

lemma corrected_progress:
  assumes "no_wrap outs t" "coin_sum outs \<le> unat t" "0 < coin_sum outs" "corrected outs t \<noteq> outs"
  shows "coin_sum outs < coin_sum (corrected outs t)"
proof -
  have "list_all2 (\<lambda>a b. unat (coins a) \<le> unat (coins b) \<and> kind a = kind b) outs (corrected outs t)"
    using corrected_grows [OF assms(1-3)]
    by (auto simp: list_all2_conv_all_nth corrected_def correct_output_def)
  from coin_sum_mono [OF this] assms(4) show ?thesis by auto
qed

lemma rebalance_loop_settles:
  assumes "no_wrap outs t" "coin_sum outs \<le> unat t"
  shows "rebalance_loop outs t \<noteq> None \<or> (\<exists>n. stuck (passes n outs t) t)"
  using assms
proof (induction "unat t - coin_sum outs" arbitrary: outs rule: less_induct)
  case less
  show ?case
  proof (cases "rebalance_pass outs t")
    case (Done outs')
    then show ?thesis by (simp add: rebalance_loop.simps)
  next
    case (Again outs')
    then have outs': "outs' = corrected outs t" and nz: "outs \<noteq> []" "total_shares outs \<noteq> 0" "t \<noteq> total_shares outs"
      by (auto simp: rebalance_pass_eq split: if_splits)
    have cs: "unat (total_shares outs) = coin_sum outs"
      using less.prems(1) by (simp add: no_wrap_def unat_total_shares)
    then have pos: "0 < coin_sum outs" using nz(2) by (metis gr0I unat_eq_0)
    show ?thesis
    proof (cases "corrected outs t = outs")
      case True
      then have "stuck (passes 0 outs t) t" using nz by (auto simp: stuck_def)
      then show ?thesis by blast
    next
      case False
      from corrected_progress [OF less.prems pos False] coin_sum_corrected [OF less.prems(1)]
      have "unat t - coin_sum outs' < unat t - coin_sum outs" unfolding outs' by linarith
      moreover have "no_wrap outs' t" "coin_sum outs' \<le> unat t"
        unfolding outs' by (simp_all add: no_wrap_corrected coin_sum_corrected less.prems)
      ultimately have "rebalance_loop outs' t \<noteq> None \<or> (\<exists>n. stuck (passes n outs' t) t)"
        by (rule less.hyps)
      moreover have "passes (Suc n) outs t = passes n outs' t" for n using Again by simp
      moreover have "rebalance_loop outs t = rebalance_loop outs' t"
        using Again by (subst rebalance_loop.simps) simp
      ultimately show ?thesis by metis
    qed
  qed
qed

lemma stuck_passes_diverge: "stuck (passes n outs t) t \<Longrightarrow> rebalance_loop outs t = None"
proof (induction n arbitrary: outs)
  case 0
  then show ?case by (simp add: rebalance_loop_stuck)
next
  case (Suc n)
  show ?case
  proof (cases "rebalance_pass outs t")
    case (Done outs')
    with Suc.prems have st: "stuck outs' t" by simp
    from Done have "outs' = [] \<or> total_shares outs' = 0 \<or> total_shares outs' = t"
      by (auto simp: rebalance_pass_eq split: if_splits)
    with st show ?thesis by (auto simp: stuck_def)
  next
    case (Again outs')
    with Suc show ?thesis by (subst rebalance_loop.simps) simp
  qed
qed

lemma rebalance_loop_diverges_iff:
  assumes "no_wrap outs t"
  shows "rebalance_loop outs t = None \<longleftrightarrow> (\<exists>n. stuck (passes n outs t) t)"
proof
  assume none: "rebalance_loop outs t = None"
  then obtain outs' where Again: "rebalance_pass outs t = Again outs'"
    by (cases "rebalance_pass outs t") (simp_all add: rebalance_loop.simps)
  then have outs': "outs' = corrected outs t" by (auto simp: rebalance_pass_eq split: if_splits)
  have "rebalance_loop outs' t = None" using none Again by (simp add: rebalance_loop.simps [of outs])
  then obtain n where "stuck (passes n outs' t) t"
    using rebalance_loop_settles [of outs' t] no_wrap_corrected [OF assms] coin_sum_corrected [OF assms]
    unfolding outs' by blast
  then have "stuck (passes (Suc n) outs t) t" using Again by simp
  then show "\<exists>n. stuck (passes n outs t) t" by blast
qed (blast dest: stuck_passes_diverge)

section \<open>The transaction\<close>

text \<open>
  \<open>now\<close> is \<open>std::time(NULL)\<close> cut to 32 bits. The script comes with the two positions the caller's
  reference parameters receive.
\<close>

definition coinbase_redeem_script ::
  "u32 \<Rightarrow> u32 \<Rightarrow> u32 \<Rightarrow> u32 \<Rightarrow> bytes \<Rightarrow> bytes \<times> nat \<times> nat" where
  "coinbase_redeem_script now height nonce1 nonce2 identification =
     (let raw = script_build [Push (pushdata_u32 height), Push (pushdata_u32 now)];
          part1Size = length raw + 1;
          raw' = script_append raw (Push (append_le32 (append_le32 [] nonce1) nonce2));
          part2Start = length raw'
      in (script_append raw' (Push identification), part1Size, part2Start))"

record coinbase_tx =
  tx_raw :: bytes
  part1Size :: nat
  part2Start :: nat

definition coinbase_build ::
  "u32 \<Rightarrow> u32 \<Rightarrow> u32 \<Rightarrow> u32 \<Rightarrow> bytes \<Rightarrow> coinbase_outputs \<Rightarrow> coinbase_tx res" where
  "coinbase_build now height nonce1 nonce2 identification outputs =
     (let raw = append_le32 [] 1;
          raw = append_ref raw (varint_encode 1);
          raw = append_ref raw (raw256 hash256_zero);
          raw = append_le32 raw (- 1);
          (redeemScript, p1, p2) = coinbase_redeem_script now height nonce1 nonce2 identification;
          scriptSize = length redeemScript;
          raw = append_ref raw (vardata_encode redeemScript);
          p1 = p1 + (length raw - scriptSize);
          p2 = p2 + (length raw - scriptSize);
          raw = append_le32 raw 0;
          raw = append_ref raw (varint_encode (word_of_nat (length outputs)))
      in rbind
           (foldl (\<lambda>acc output. rbind acc (\<lambda>raw.
              case output of
                None \<Rightarrow> Inl (Undefined ''null coinbase output'')
              | Some out \<Rightarrow> Inr (append_ref raw (output_encode out)))) (Inr raw) outputs)
           (\<lambda>raw. Inr \<lparr>tx_raw = append_le32 raw 0, part1Size = p1, part2Start = p2\<rparr>))"

definition coinbase_build0 :: "u32 \<Rightarrow> u32 \<Rightarrow> bytes \<Rightarrow> coinbase_outputs \<Rightarrow> coinbase_tx res" where
  "coinbase_build0 now height identification outputs =
     coinbase_build now height 0 0 identification outputs"

definition part1 :: "coinbase_tx \<Rightarrow> bytes" where "part1 tx = take (part1Size tx) (tx_raw tx)"
definition part2 :: "coinbase_tx \<Rightarrow> bytes" where "part2 tx = drop (part2Start tx) (tx_raw tx)"

lemma push_nonces:
  "pushdata_raw (append_le32 (append_le32 [] nonce1) nonce2) = 8 # u32_mem nonce1 @ u32_mem nonce2"
proof -
  have ne: "u32_mem nonce1 @ u32_mem nonce2 \<noteq> []" and len: "length (u32_mem nonce1 @ u32_mem nonce2) = 8"
    by (auto simp: u32_mem_def dest: arg_cong [of _ _ length])
  show ?thesis
    unfolding append_le_defs append_ref_eq append_Nil
    by (subst pushdata_raw_cases [OF ne]) (simp_all add: Let_def)
qed

lemma append_outputs:
  "None \<notin> set outputs \<Longrightarrow>
   foldl (\<lambda>acc output. rbind acc (\<lambda>raw.
     case output of
       None \<Rightarrow> Inl (Undefined ''null coinbase output'')
     | Some out \<Rightarrow> Inr (append_ref raw (output_encode out)))) (Inr raw) outputs =
   Inr (raw @ concat (map (output_encode \<circ> the) outputs))"
proof (induction outputs arbitrary: raw)
  case (Cons op outputs)
  then show ?case by (cases op) auto
qed simp

lemma append_outputs_null:
  "None \<in> set outputs \<Longrightarrow>
   foldl (\<lambda>acc output. rbind acc (\<lambda>raw.
     case output of
       None \<Rightarrow> Inl (Undefined ''null coinbase output'')
     | Some out \<Rightarrow> Inr (append_ref raw (output_encode out)))) (Inr raw) outputs =
   Inl (Undefined ''null coinbase output'')"
proof (induction outputs arbitrary: raw)
  case (Cons op outputs)
  have "foldl (\<lambda>acc output. rbind acc (\<lambda>raw.
     case output of
       None \<Rightarrow> Inl (Undefined ''null coinbase output'')
     | Some out \<Rightarrow> Inr (append_ref raw (output_encode out)))) (Inl e) outputs = Inl e" for e
    by (induction outputs) auto
  with Cons show ?case by (cases op) auto
qed simp

text \<open>The layout: everything before the nonces and everything after them.\<close>

definition script_prefix :: "u32 \<Rightarrow> u32 \<Rightarrow> bytes" where
  "script_prefix now height = pushdata_raw (pushdata_u32 height) @ pushdata_raw (pushdata_u32 now) @ [8]"

definition tx_head :: "u32 \<Rightarrow> u32 \<Rightarrow> bytes \<Rightarrow> bytes" where
  "tx_head now height identification =
     u32_mem 1 @ [1] @ replicate 32 0 @ u32_mem (- 1) @
     varint_encode (word_of_nat (length (script_prefix now height) + 8 + length (pushdata_raw identification))) @
     script_prefix now height"

definition tx_tail :: "bytes \<Rightarrow> coinbase_outputs \<Rightarrow> bytes" where
  "tx_tail identification outputs =
     pushdata_raw identification @ u32_mem 0 @ varint_encode (word_of_nat (length outputs)) @
     concat (map (output_encode \<circ> the) outputs) @ u32_mem 0"

lemma coinbase_redeem_script_eq:
  "coinbase_redeem_script now height nonce1 nonce2 identification =
     (script_prefix now height @ u32_mem nonce1 @ u32_mem nonce2 @ pushdata_raw identification,
      length (script_prefix now height), length (script_prefix now height) + 8)"
  unfolding coinbase_redeem_script_def Let_def script_append.simps push_nonces
  by (simp add: script_prefix_def script_append_eq)

lemma varint_1: "varint_encode 1 = [1]"
  by (simp add: varint_encode_def take_u64_mem)

lemma coinbase_build_eq:
  assumes "None \<notin> set outputs"
  shows "coinbase_build now height nonce1 nonce2 identification outputs =
    Inr \<lparr>tx_raw = tx_head now height identification @ u32_mem nonce1 @ u32_mem nonce2 @ tx_tail identification outputs,
         part1Size = length (tx_head now height identification),
         part2Start = length (tx_head now height identification) + 8\<rparr>"
  unfolding coinbase_build_def Let_def coinbase_redeem_script_eq prod.case append_outputs [OF assms] rbind_Inr
  by (simp add: tx_head_def tx_tail_def vardata_encode_eq varint_1 hash256_zero_def append_le_defs ac_simps)

lemma coinbase_build_null:
  "None \<in> set outputs \<Longrightarrow>
   coinbase_build now height nonce1 nonce2 identification outputs = Inl (Undefined ''null coinbase output'')"
  unfolding coinbase_build_def Let_def coinbase_redeem_script_eq prod.case
  by (simp only: append_outputs_null rbind_Inl)

lemma coinbase_parts:
  assumes "None \<notin> set outputs" "coinbase_build now height n1 n2 identification outputs = Inr tx"
  shows "part1 tx = tx_head now height identification" "part2 tx = tx_tail identification outputs"
  using assms by (auto simp: coinbase_build_eq part1_def part2_def)

end
