(* ===== verification/Blocks.thy ===== *)
theory Blocks
  imports Merkle Coinbase
begin

text \<open>
  Block headers and lists of raw transactions (\<open>lib/mining/BlockHeader\<close>, \<open>block.h\<close>,
  \<open>RawTransaction\<close>, \<open>RawTransactions\<close>). The header is the C structure of \<open>block.h\<close>: all its members
  are aligned without padding, so its object representation has 80 bytes.
\<close>

section \<open>Headers\<close>

record blockheader =
  hdr_versionBits :: u32
  hdr_parentBlockHash :: bytes
  hdr_merkleRootHash :: bytes
  hdr_timestamp :: u32
  hdr_difficultyBits :: u32
  hdr_nonce :: u32

definition header_new :: "u32 \<Rightarrow> hash256 \<Rightarrow> hash256 \<Rightarrow> u32 \<Rightarrow> u32 \<Rightarrow> u32 \<Rightarrow> blockheader" where
  "header_new versionBits parentBlockhash merkleRoot time difficultyBits nonce =
     \<lparr>hdr_versionBits = versionBits,
      hdr_parentBlockHash = take 32 (raw256 parentBlockhash),
      hdr_merkleRootHash = take 32 (raw256 merkleRoot),
      hdr_timestamp = time,
      hdr_difficultyBits = swap32 difficultyBits,
      hdr_nonce = nonce\<rparr>"

definition header_mem :: "blockheader \<Rightarrow> bytes" where
  "header_mem h =
     u32_mem (hdr_versionBits h) @ hdr_parentBlockHash h @ hdr_merkleRootHash h @
     u32_mem (hdr_timestamp h) @ u32_mem (hdr_difficultyBits h) @ u32_mem (hdr_nonce h)"

definition header_from_raw :: "bytes \<Rightarrow> blockheader res" where
  "header_from_raw raw =
     (if length raw \<noteq> 80
      then Inl (Runtime_error ''Cannot parse block header from raw byte string: Invalid size'')
      else Inr
        \<lparr>hdr_versionBits = mem_u32 (take 4 raw),
         hdr_parentBlockHash = take 32 (drop 4 raw),
         hdr_merkleRootHash = take 32 (drop 36 raw),
         hdr_timestamp = mem_u32 (take 4 (drop 68 raw)),
         hdr_difficultyBits = mem_u32 (take 4 (drop 72 raw)),
         hdr_nonce = mem_u32 (take 4 (drop 76 raw))\<rparr>)"

definition header_hash :: "hash_plugin \<Rightarrow> blockheader \<Rightarrow> hash256 res" where
  "header_hash hasher h =
     rbind (hasher (header_mem h)) (\<lambda>reversedHash. hash256_from (reverse_bs (raw256 reversedHash)))"

definition wf_header :: "blockheader \<Rightarrow> bool" where
  "wf_header h \<longleftrightarrow> length (hdr_parentBlockHash h) = 32 \<and> length (hdr_merkleRootHash h) = 32"

lemma length_header_mem [simp]: "wf_header h \<Longrightarrow> length (header_mem h) = 80"
  by (simp add: header_mem_def wf_header_def)

lemma wf_header_new [simp]: "wf_hash p \<Longrightarrow> wf_hash m \<Longrightarrow> wf_header (header_new v p m t b n)"
  by (simp add: header_new_def wf_header_def wf_hash_def)

lemma header_from_raw_mem: "wf_header h \<Longrightarrow> header_from_raw (header_mem h) = Inr h"
  unfolding header_from_raw_def
  by (simp add: header_mem_def wf_header_def le_simps)

lemma header_mem_from_raw:
  assumes "header_from_raw raw = Inr h"
  shows "wf_header h \<and> header_mem h = raw"
proof -
  have len: "length raw = 80" using assms by (auto simp: header_from_raw_def split: if_splits)
  then have h: "h = \<lparr>hdr_versionBits = mem_u32 (take 4 raw), hdr_parentBlockHash = take 32 (drop 4 raw),
      hdr_merkleRootHash = take 32 (drop 36 raw), hdr_timestamp = mem_u32 (take 4 (drop 68 raw)),
      hdr_difficultyBits = mem_u32 (take 4 (drop 72 raw)), hdr_nonce = mem_u32 (take 4 (drop 76 raw))\<rparr>"
    using assms by (simp add: header_from_raw_def)
  have "raw = take 4 raw @ take 32 (drop 4 raw) @ take 32 (drop 36 raw) @
      take 4 (drop 68 raw) @ take 4 (drop 72 raw) @ drop 76 raw"
    using append_take_drop_id [of 4 raw] append_take_drop_id [of 32 "drop 4 raw"]
      append_take_drop_id [of 32 "drop 36 raw"] append_take_drop_id [of 4 "drop 68 raw"]
      append_take_drop_id [of 4 "drop 72 raw"]
    by (simp del: append_take_drop_id)
  then show ?thesis
    using len by (simp add: h header_mem_def wf_header_def u32_mem_mem_u32)
qed

lemma header_mem_inject:
  "wf_header h \<Longrightarrow> wf_header h' \<Longrightarrow> header_mem h = header_mem h' \<longleftrightarrow> h = h'"
  by (metis header_from_raw_mem sum.inject(2))

lemma header_hash_ok:
  assumes "wf_header h" "hasher (header_mem h) = Inr r" "wf_hash r"
  shows "header_hash hasher h = Inr (Hash256 (rev (raw256 r)))"
  using assms by (simp add: header_hash_def hash256_from_def hash_from_ref_def wf_hash_def)

section \<open>Transactions\<close>

record raw_transaction =
  txid :: hash256
  tx_bytes :: bytes

definition raw_transactions_encode :: "raw_transaction list \<Rightarrow> bytes" where
  "raw_transactions_encode txs =
     foldl (\<lambda>raw tx. append_ref raw (tx_bytes tx))
       (append_ref [] (varint_encode (word_of_nat (length txs)))) txs"

lemma raw_transactions_eq:
  "raw_transactions_encode txs = varint_encode (word_of_nat (length txs)) @ concat (map tx_bytes txs)"
proof -
  have "foldl (\<lambda>raw tx. append_ref raw (tx_bytes tx)) raw txs = raw @ concat (map tx_bytes txs)" for raw
    by (induction txs arbitrary: raw) auto
  then show ?thesis by (simp add: raw_transactions_encode_def)
qed

end
