(* ===== verification/Jobs.thy ===== *)
theory Jobs
  imports Blocks Json
begin

text \<open>
  What a miner is asked to solve, and how a solution is judged (\<open>lib/stratum/NetworkState\<close>,
  \<open>BlockGenerationInformation\<close>, \<open>StratumJob\<close>). The clock, the hash of transactions, the hash
  plugin of the chain and the daemon behind \<open>BlockSubmitter\<close> are parameters.
\<close>

section \<open>The state of the network\<close>

definition init_mining_start_time :: "u32 \<Rightarrow> u32 \<Rightarrow> u32" where
  "init_mining_start_time now notBefore = (if now < notBefore then notBefore else now)"

record network_state =
  ns_version :: u32
  ns_bits :: u32
  ns_miningStartTime :: u32
  ns_blockHeight :: u32
  ns_previousBlock :: hash256
  ns_miningTarget :: hash256
  ns_miningDiff :: dbl
  ns_coinbaseCoins :: u64

definition network_state_not_before ::
  "u32 \<Rightarrow> u32 \<Rightarrow> u32 \<Rightarrow> u32 \<Rightarrow> u32 \<Rightarrow> hash256 \<Rightarrow> hash256 \<Rightarrow> u64 \<Rightarrow> network_state" where
  "network_state_not_before now version bits notBefore blockHeight previousBlock miningTarget coinbaseCoins =
     \<lparr>ns_version = version, ns_bits = bits,
      ns_miningStartTime = init_mining_start_time now notBefore,
      ns_blockHeight = blockHeight, ns_previousBlock = previousBlock, ns_miningTarget = miningTarget,
      ns_miningDiff = ddiv (hash256_div hash256_diff1 miningTarget) (Fin 4096),
      ns_coinbaseCoins = coinbaseCoins\<rparr>"

definition network_state_new ::
  "u32 \<Rightarrow> u32 \<Rightarrow> u32 \<Rightarrow> u32 \<Rightarrow> hash256 \<Rightarrow> hash256 \<Rightarrow> u64 \<Rightarrow> network_state" where
  "network_state_new now version bits blockHeight previousBlock miningTarget coinbaseCoins =
     \<lparr>ns_version = version, ns_bits = bits,
      ns_miningStartTime = init_mining_start_time now 0,
      ns_blockHeight = blockHeight, ns_previousBlock = previousBlock, ns_miningTarget = miningTarget,
      ns_miningDiff = ddiv (hash256_div hash256_diff1 miningTarget) (Fin 4096),
      ns_coinbaseCoins = coinbaseCoins\<rparr>"

definition ns_differs :: "network_state \<Rightarrow> network_state \<Rightarrow> bool" where
  "ns_differs this them \<longleftrightarrow>
     (if ns_blockHeight this \<noteq> ns_blockHeight them then True
      else if \<not> hash256_eq (ns_previousBlock this) (ns_previousBlock them) then True
      else False)"

record generation_information =
  gi_networkState :: network_state
  gi_transactions :: "raw_transaction list"
  gi_witnessCommitment :: coinbase_output
  gi_merkleBranch :: "hash256 list"

definition generation_information_new ::
  "(bytes \<Rightarrow> hash256) \<Rightarrow> network_state \<Rightarrow> generation_information" where
  "generation_information_new sha256d networkState =
     \<lparr>gi_networkState = networkState, gi_transactions = [],
      gi_witnessCommitment = witness_for_coinbase_only sha256d, gi_merkleBranch = []\<rparr>"

section \<open>Jobs\<close>

text \<open>The coinbase of a job is a shared pointer, null until a manager has made a transaction.\<close>

definition int2hex :: "u32 \<Rightarrow> bool \<Rightarrow> string" where
  "int2hex i littleEndian =
     (let encoded = u32_mem i in
      if littleEndian then as_hex encoded else as_hex (reverse_bs encoded))"

record stratum_job =
  job_id :: u32
  job_diff :: dbl
  job_creationTime :: u32
  job_information :: generation_information
  job_coinbase :: "coinbase_tx option"
  job_hasher :: hash_plugin

definition stratum_job_new ::
  "u32 \<Rightarrow> u32 \<Rightarrow> dbl \<Rightarrow> generation_information \<Rightarrow> coinbase_tx option \<Rightarrow> hash_plugin \<Rightarrow> stratum_job" where
  "stratum_job_new now jobId diff information coinbase hasher =
     (let creationTime = now;
          start = ns_miningStartTime (gi_networkState information)
      in \<lparr>job_id = jobId, job_diff = diff,
          job_creationTime = (if creationTime < start then start else creationTime),
          job_information = information, job_coinbase = coinbase, job_hasher = hasher\<rparr>)"

abbreviation job_state :: "stratum_job \<Rightarrow> network_state" where
  "job_state job \<equiv> gi_networkState (job_information job)"

definition job_tx :: "stratum_job \<Rightarrow> coinbase_tx res" where
  "job_tx job =
     (case job_coinbase job of None \<Rightarrow> Inl (Undefined ''null coinbase transaction'') | Some tx \<Rightarrow> Inr tx)"

definition job_to_json :: "'j json_api \<Rightarrow> bool \<Rightarrow> stratum_job \<Rightarrow> 'j res" where
  "job_to_json api force job =
     (let previousBlockHash = swap32_256 (raw256 (ns_previousBlock (job_state job)))
      in rbind (job_tx job) (\<lambda>coinbase. Inr (j_array api
           [j_string api (int2hex (job_id job) False),
            j_string api (as_hex previousBlockHash),
            j_string api (as_hex (part1 coinbase)),
            j_string api (as_hex (part2 coinbase)),
            j_array api (map (j_string api) (branch_as_hex_array (gi_merkleBranch (job_information job)))),
            j_string api (int2hex (ns_version (job_state job)) False),
            j_string api (int2hex (ns_bits (job_state job)) True),
            j_string api (int2hex (job_creationTime job) False),
            j_bool api force])))"

section \<open>Solutions\<close>

record submission =
  sub_header :: blockheader
  sub_coinbase :: bytes
  sub_transactions :: "raw_transaction list"

definition solution_coinbase :: "coinbase_tx \<Rightarrow> u32 \<Rightarrow> u32 \<Rightarrow> bytes" where
  "solution_coinbase coinbase extraNonce1 extraNonce2 =
     (let raw = part1 coinbase;
          raw = append_le32 raw extraNonce1;
          raw = append_le32 raw extraNonce2
      in append_ref raw (part2 coinbase))"

definition solution_header ::
  "(bytes \<Rightarrow> hash256) \<Rightarrow> generation_information \<Rightarrow> bytes \<Rightarrow> u32 \<Rightarrow> u32 \<Rightarrow> blockheader" where
  "solution_header sha256d information rawCoinbaseTx time nonce =
     (let coinbaseTxId = sha256d rawCoinbaseTx;
          merkleRoot = branch_get_root sha256d (gi_merkleBranch information) coinbaseTxId;
          state = gi_networkState information
      in header_new (ns_version state) (ns_previousBlock state) merkleRoot time (ns_bits state) nonce)"

definition share_mining_diff :: "hash256 \<Rightarrow> dbl" where
  "share_mining_diff hash =
     (let shareDiff = ddiv (hash256_div hash256_diff1 hash) (Fin 4096) in dmul shareDiff (Fin 256))"

text \<open>
  \<open>submitBlock\<close> is what the submitter does, and how it may fail. The result is the list of blocks
  handed to it and the outcome; the low-difficulty check comes after the submission.
\<close>

definition check_solution ::
  "(bytes \<Rightarrow> hash256) \<Rightarrow> (submission \<Rightarrow> unit res) \<Rightarrow> stratum_job \<Rightarrow> u32 \<Rightarrow> u32 \<Rightarrow> u32 \<Rightarrow> u32 \<Rightarrow>
   submission list \<times> bool res" where
  "check_solution sha256d submitBlock job time nonce extraNonce1 extraNonce2 =
     (case job_tx job of
        Inl e \<Rightarrow> ([], Inl e)
      | Inr coinbase \<Rightarrow>
          let rawCoinbaseTx = solution_coinbase coinbase extraNonce1 extraNonce2;
              header = solution_header sha256d (job_information job) rawCoinbaseTx time nonce
          in (case header_hash (job_hasher job) header of
               Inl e \<Rightarrow> ([], Inl e)
             | Inr hash \<Rightarrow>
                 let submit = hash256_le hash (ns_miningTarget (job_state job));
                     block = \<lparr>sub_header = header, sub_coinbase = rawCoinbaseTx,
                              sub_transactions = gi_transactions (job_information job)\<rparr>;
                     submitted = (if submit then [block] else [])
                 in (case (if submit then submitBlock block else Inr ()) of
                      Inl e \<Rightarrow> (submitted, Inl e)
                    | Inr _ \<Rightarrow>
                        let shareMiningDiff = share_mining_diff hash
                        in if dless shareMiningDiff (job_diff job)
                           then (submitted, Inl (Validation_error ''low diff''))
                           else (submitted, Inr submit))))"

section \<open>The difficulty of a share\<close>

lemma share_mining_diff_eq:
  assumes h: "wf_hash h" and w: "0 < window h"
  shows "share_mining_diff h = round_dbl (diff1_ratio h * 2 powi (-4))"
    and "\<exists>r. share_mining_diff h = Fin r \<and> 0 \<le> r \<and> round_dbl (r / 4) = Fin (r / 4)"
proof -
  let ?q = "diff1_ratio h"
  note range = diff1_ratio_range [OF h w]
  have pows: "(2 powi (-400) :: rat) < 2 powi (-40)" "(2 powi 240 :: rat) < 2 powi 400"
      "(2 powi 240 :: rat) < 2 powi 1000" "(0 :: rat) < 2 powi (-40)"
    by (simp_all only: exp2_less_iff zero_less_power_int zero_less_numeral)
  have q: "2 powi (-400) \<le> ?q" "?q < 2 powi 400" "?q < 2 powi 1000" "0 < ?q"
    using range pows by linarith+
  have abs: "2 powi (-400) \<le> \<bar>?q\<bar>" "\<bar>?q\<bar> < 2 powi 400" "\<bar>?q\<bar> < 2 powi 1000"
    unfolding abs_of_pos [OF q(4)] by (rule q)+
  obtain r where r: "round_dbl ?q = Fin r" using round_dbl_finite [OF abs(3)] by blast
  note scaled = round_dbl_scaled [OF r abs(1,2)]
  have e: "r / 4096 = r * 2 powi (-12)" "r * 2 powi (-12) * 256 = r * 2 powi (-4)"
      "r * 2 powi (-4) / 4 = r * 2 powi (-6)"
    by (simp_all add: power_int_def power_one_over)
  have dd: "b \<noteq> 0 \<Longrightarrow> ddiv (Fin a) (Fin b) = round_dbl (a / b)" for a b by simp
  have d1: "ddiv (Fin r) (Fin 4096) = Fin (r * 2 powi (-12))"
    unfolding dd [OF zero_neq_numeral [symmetric]] e(1) by (rule scaled) simp
  have d2: "dmul (Fin (r * 2 powi (-12))) (Fin 256) = Fin (r * 2 powi (-4))"
    unfolding dmul.simps e(2) by (rule scaled) simp
  have share: "share_mining_diff h = Fin (r * 2 powi (-4))"
    unfolding share_mining_diff_def Let_def diff1_div_eq [OF h w] r d1 d2 by (rule refl)
  show "share_mining_diff h = round_dbl (?q * 2 powi (-4))"
    unfolding share by (rule round_dbl_exp2 [OF q(1,2) _ r, symmetric]) simp
  have "0 \<le> r" using round_dbl_mono [OF q(4) order_refl q(3)] r by auto
  moreover have "round_dbl (r * 2 powi (-4) / 4) = Fin (r * 2 powi (-4) / 4)"
    unfolding e by (rule scaled) simp
  moreover have "0 \<le> r * 2 powi (-4)" using \<open>0 \<le> r\<close> by (rule mult_nonneg_nonneg) simp
  ultimately show "\<exists>r. share_mining_diff h = Fin r \<and> 0 \<le> r \<and> round_dbl (r / 4) = Fin (r / 4)"
    using share by blast
qed

lemma share_mining_diff_zero: "wf_hash h \<Longrightarrow> window h = 0 \<Longrightarrow> share_mining_diff h = PInf"
  by (simp add: share_mining_diff_def window_zero_div inf_signed_def)

lemma share_mining_diff_antimono:
  assumes a: "wf_hash a" and b: "wf_hash b" and le: "be_nat (raw256 a) \<le> be_nat (raw256 b)"
  shows "dle (share_mining_diff b) (share_mining_diff a)"
proof (cases "window a = 0")
  case True
  then have "share_mining_diff a = PInf" by (rule share_mining_diff_zero [OF a])
  moreover have "share_mining_diff b \<noteq> NaN"
    using share_mining_diff_zero [OF b] share_mining_diff_eq(2) [OF b] by (cases "window b = 0") auto
  ultimately show ?thesis by (cases "share_mining_diff b") (auto simp: dle_def)
next
  case False
  then have wa: "0 < window a" by simp
  have "0 < truncated b" using truncated_mono [OF a b le] truncated_pos [OF wa] by simp
  then have wb: "0 < window b" by (simp add: truncated_def)
  let ?f = "\<lambda>h. diff1_ratio h * 2 powi (-4)"
  have "?f b \<le> ?f a" using diff1_ratio_antimono [OF a b le wa] by (intro mult_right_mono) simp_all
  moreover have "0 < ?f b"
    using diff1_ratio_range(1) [OF b wb] by (simp add: less_le_trans [OF zero_less_power_int])
  moreover have "?f a < 2 powi 1000"
  proof -
    have "0 \<le> diff1_ratio a" by (simp add: diff1_ratio_def)
    then have "?f a \<le> diff1_ratio a * 1" by (intro mult_left_mono) (simp_all add: power_int_def power_one_over)
    moreover have "(2 powi 240 :: rat) < 2 powi 1000" by (simp only: exp2_less_iff)
    ultimately show ?thesis using diff1_ratio_range(2) [OF a wa] by linarith
  qed
  ultimately show ?thesis
    using round_dbl_mono [of "?f b" "?f a"] share_mining_diff_eq(1) [OF a wa] share_mining_diff_eq(1) [OF b wb]
    by auto
qed

text \<open>A job whose difficulty is at most what the target of its block amounts to.\<close>

definition diff_below_block :: "dbl \<Rightarrow> hash256 \<Rightarrow> bool" where
  "diff_below_block diff target \<longleftrightarrow> \<not> dless (share_mining_diff target) diff"

lemma block_never_low_diff:
  assumes "wf_hash hash" "wf_hash target" "hash256_le hash target" "diff_below_block diff target"
  shows "\<not> dless (share_mining_diff hash) diff"
proof -
  have "be_nat (raw256 hash) \<le> be_nat (raw256 target)"
    using assms(1-3) hash256_numeric by blast
  from share_mining_diff_antimono [OF assms(1,2) this] assms(4) show ?thesis
    unfolding diff_below_block_def
    by (cases "share_mining_diff target"; cases "share_mining_diff hash"; cases diff) (auto simp: dle_def)
qed

lemma quarter_below_block:
  assumes "wf_hash target"
  shows "diff_below_block (ddiv (share_mining_diff target) (Fin 4)) target"
proof (cases "window target = 0")
  case True
  then show ?thesis by (simp add: diff_below_block_def share_mining_diff_zero assms)
next
  case False
  then obtain r where "share_mining_diff target = Fin r" "0 \<le> r" "round_dbl (r / 4) = Fin (r / 4)"
    using share_mining_diff_eq(2) [OF assms] by blast
  then show ?thesis by (simp add: diff_below_block_def)
qed

lemma ns_diff_share:
  "ns_miningDiff (network_state_not_before now v b nb h p target c) = ddiv (hash256_div hash256_diff1 target) (Fin 4096)"
  "ns_miningDiff (network_state_new now v b h p target c) = ddiv (hash256_div hash256_diff1 target) (Fin 4096)"
  by (simp_all add: network_state_not_before_def network_state_new_def)

section \<open>The miner\<close>

text \<open>
  What the protocol asks of a miner, as a specification: it decodes the parameters of
  \<open>mining.notify\<close>, puts its nonces between the two parts of the coinbase, folds the branch over the
  hash of the result, and lays out the 80 bytes it hashes. Every number travels as hexadecimal text
  with the bytes of the header reversed, the previous hash with the bytes of every word reversed.
\<close>

definition j_text :: "'j json_api \<Rightarrow> 'j \<Rightarrow> nat \<Rightarrow> bytes res" where
  "j_text api params i = rbind (j_get_string api (j_at api params i)) (\<lambda>s. Inr (from_hex s))"

definition miner_header ::
  "'j json_api \<Rightarrow> (bytes \<Rightarrow> hash256) \<Rightarrow> 'j \<Rightarrow> bytes \<Rightarrow> bytes \<Rightarrow> bytes \<Rightarrow> bytes \<Rightarrow> bytes res" where
  "miner_header api sha256d params extraNonce1 extraNonce2 time nonce =
     rbind (j_text api params 1) (\<lambda>previous.
     rbind (j_text api params 2) (\<lambda>head.
     rbind (j_text api params 3) (\<lambda>tail.
     rbind (rmap (j_text api (j_at api params 4)) [0..<j_size api (j_at api params 4)]) (\<lambda>nodes.
     rbind (j_text api params 5) (\<lambda>version.
     rbind (j_text api params 6) (\<lambda>bits.
       let leaf = sha256d (head @ extraNonce1 @ extraNonce2 @ tail);
           root = foldl (\<lambda>h node. sha256d (raw256 h @ node)) leaf nodes
       in Inr (rev version @ swap_words previous @ raw256 root @ rev time @ rev bits @ rev nonce)))))))"

text \<open>What reading back the values it built needs of the JSON library.\<close>

definition json_reads :: "'j json_api \<Rightarrow> bool" where
  "json_reads api \<longleftrightarrow>
     (\<forall>xs. j_size api (j_array api xs) = length xs) \<and>
     (\<forall>xs i. i < length xs \<longrightarrow> j_at api (j_array api xs) i = xs ! i) \<and>
     (\<forall>s. j_get_string api (j_string api s) = Inr s)"

lemma j_text_string:
  "json_reads api \<Longrightarrow> i < length xs \<Longrightarrow> xs ! i = j_string api (as_hex bs) \<Longrightarrow>
   j_text api (j_array api xs) i = Inr bs"
  by (simp add: json_reads_def j_text_def)

lemma rmap_texts:
  assumes "json_reads api"
  shows "rmap (j_text api (j_array api (map (j_string api \<circ> as_hex) nodes))) [0..<length nodes] = Inr nodes"
proof -
  let ?f = "j_text api (j_array api (map (j_string api \<circ> as_hex) nodes))"
  have "\<forall>i \<in> set is. i < length nodes \<Longrightarrow> rmap ?f is = Inr (map (nth nodes) is)" for "is"
    by (induction "is") (simp_all add: j_text_string [OF assms])
  then show ?thesis by (simp add: map_nth)
qed

lemma branch_hash_foldl:
  "branch_hash sha h branch = foldl (\<lambda>h node. sha (raw256 h @ node)) h (map raw256 branch)"
  by (induction sha h branch rule: branch_hash.induct) auto

lemma solution_coinbase_eq [simp]:
  "solution_coinbase tx n1 n2 = part1 tx @ u32_mem n1 @ u32_mem n2 @ part2 tx"
  by (simp add: solution_coinbase_def append_le32_def)

lemma branch_wf:
  assumes "hasher_ok sha" "wf_hash leaf"
  shows "wf_hash (branch_hash sha leaf branch)"
  using assms(2) by (induction branch arbitrary: leaf) (simp_all add: assms(1))

lemma wf_solution_header:
  assumes "hasher_ok sha" "wf_hash (ns_previousBlock (gi_networkState info))"
  shows "wf_header (solution_header sha info tx time nonce)"
  using assms by (simp add: solution_header_def Let_def branch_get_root_def branch_wf)

lemma from_hex_int2hex [simp]:
  "from_hex (int2hex i le) = (if le then u32_mem i else rev (u32_mem i))"
  by (simp add: int2hex_def)

lemma header_new_mem:
  "wf_hash p \<Longrightarrow> wf_hash m \<Longrightarrow>
   header_mem (header_new v p m t b n) =
     u32_mem v @ raw256 p @ raw256 m @ u32_mem t @ rev (u32_mem b) @ u32_mem n"
  by (simp add: header_mem_def header_new_def wf_hash_def u32_mem_swap32)

lemma miner_header_of_job:
  assumes api: "json_reads api" and sha: "hasher_ok sha"
    and prev: "wf_hash (ns_previousBlock (job_state job))" and tx: "job_coinbase job = Some tx"
    and json: "job_to_json api force job = Inr params"
  shows "miner_header api sha params (u32_mem n1) (u32_mem n2) (rev (u32_mem time)) (rev (u32_mem nonce)) =
    Inr (header_mem (solution_header sha (job_information job) (solution_coinbase tx n1 n2) time nonce))"
proof -
  let ?branch = "gi_merkleBranch (job_information job)"
  define fields where "fields =
    [j_string api (int2hex (job_id job) False),
     j_string api (as_hex (swap32_256 (raw256 (ns_previousBlock (job_state job))))),
     j_string api (as_hex (part1 tx)), j_string api (as_hex (part2 tx)),
     j_array api (map (j_string api \<circ> as_hex) (map raw256 ?branch)),
     j_string api (int2hex (ns_version (job_state job)) False),
     j_string api (int2hex (ns_bits (job_state job)) True),
     j_string api (int2hex (job_creationTime job) False), j_bool api force]"
  have params: "params = j_array api fields"
    using json tx by (simp add: job_to_json_def job_tx_def branch_as_hex_array_def fields_def comp_def)
  have len: "length (raw256 (ns_previousBlock (job_state job))) = 32" using prev by (simp add: wf_hash_def)
  have texts: "j_text api params 1 = Inr (swap_words (raw256 (ns_previousBlock (job_state job))))"
    "j_text api params 2 = Inr (part1 tx)" "j_text api params 3 = Inr (part2 tx)"
    "j_text api params 5 = Inr (rev (u32_mem (ns_version (job_state job))))"
    "j_text api params 6 = Inr (u32_mem (ns_bits (job_state job)))"
    unfolding params
    by (intro j_text_string [OF api]; simp add: fields_def int2hex_def swap32_256_eq len)+
  have at4: "j_at api params 4 = j_array api (map (j_string api \<circ> as_hex) (map raw256 ?branch))"
    using api by (simp add: params json_reads_def fields_def)
  have nodes: "rmap (j_text api (j_at api params 4)) [0..<j_size api (j_at api params 4)] = Inr (map raw256 ?branch)"
    using rmap_texts [OF api, of "map raw256 ?branch"] api unfolding at4 json_reads_def by simp
  show ?thesis
    using sha prev unfolding miner_header_def texts nodes rbind_Inr Let_def
    by (simp add: solution_header_def Let_def header_new_mem branch_wf branch_get_root_def
        branch_hash_foldl [symmetric])
qed

end
