(* ===== verification/Clients.thy ===== *)
theory Clients
  imports Jobs
begin

text \<open>
  A connected miner and the jobs it holds (\<open>lib/stratum/StratumClientConnection\<close>,
  \<open>JobManager::createJob\<close>). The vector of jobs owns them; \<open>activeJob\<close>, a pointer to one of them, is
  its index. What the code sends on the socket and submits to the daemon is kept in the order it
  happens in the two traces of the record.
\<close>

section \<open>The surroundings of an operation\<close>

text \<open>
  The clock (\<open>time_t\<close>, read once per operation), the JSON library, the hashes, the identification
  string of the pool, and the daemon. \<open>Socket::send\<close> reports no failure to its caller.
\<close>

record 'j env =
  e_now :: int
  e_json :: "'j json_api"
  e_sha256d :: "bytes \<Rightarrow> hash256"
  e_hasher :: hash_plugin
  e_coinbaseId :: bytes
  e_submit :: "submission \<Rightarrow> unit res"

definition e_now32 :: "'j env \<Rightarrow> u32" where
  "e_now32 env = word_of_int (e_now env)"

section \<open>Making jobs\<close>

record job_manager =
  jm_information :: "generation_information option"
  jm_coinbaseOutputs :: coinbase_outputs
  jm_coinbase :: "coinbase_tx option"
  jm_defaultDiff :: dbl
  jm_jobCounter :: u32

definition job_manager_new :: "dbl \<Rightarrow> job_manager" where
  "job_manager_new defaultDiff =
     \<lparr>jm_information = None, jm_coinbaseOutputs = [], jm_coinbase = None,
      jm_defaultDiff = defaultDiff, jm_jobCounter = 0\<rparr>"

definition job_diff_for :: "job_manager \<Rightarrow> network_state \<Rightarrow> dbl \<Rightarrow> dbl \<Rightarrow> dbl" where
  "job_diff_for jm networkState clientDiff diff0 =
     (let diff1 = (if dless diff0 (Fin 0) then clientDiff else diff0);
          diff2 = (if dless diff1 (Fin 0) then jm_defaultDiff jm else diff1)
      in if dless (dmul (ns_miningDiff networkState) (Fin 256)) diff2
         then ddiv (dmul (ns_miningDiff networkState) (Fin 256)) (Fin 4)
         else diff2)"

definition create_job :: "'j env \<Rightarrow> dbl \<Rightarrow> dbl \<Rightarrow> (job_manager, stratum_job) op" where
  "create_job env clientDiff diff jm =
     (case jm_information jm of
        None \<Rightarrow> (Inl (Undefined ''null generationInformation''), jm)
      | Some information \<Rightarrow>
          let diff' = job_diff_for jm (gi_networkState information) clientDiff diff;
              jm' = jm\<lparr>jm_jobCounter := jm_jobCounter jm + 1\<rparr>
          in (Inr (stratum_job_new (e_now32 env) (jm_jobCounter jm') diff' information
                     (jm_coinbase jm') (e_hasher env)), jm'))"

section \<open>The client\<close>

record stratum_client =
  sc_clientSoftware :: string
  sc_clientUsername :: string
  sc_connectionId :: bytes
  sc_currentDiff :: dbl
  sc_startedMining :: int
  sc_acceptedShares :: dbl
  sc_logId :: string
  sc_jobs :: "stratum_job list"
  sc_activeJob :: "nat option"
  sc_pooled :: bool
  sc_sent :: "string list"
  sc_submitted :: "submission list"

definition sha_prefix :: bytes where
  "sha_prefix = str_bytes ''stratum client'' @ [0]"

text \<open>\<open>sha1\<close> is OpenSSL's, \<open>me\<close> the address of the object, \<open>counter\<close> the static counter.\<close>

definition gen_connection_id :: "(bytes \<Rightarrow> bytes option) \<Rightarrow> int \<Rightarrow> u32 \<Rightarrow> u64 \<Rightarrow> bytes res \<times> u32" where
  "gen_connection_id sha1 now counter me =
     (let counter' = counter + 1;
          m = sha_prefix @ u64_mem (word_of_int now) @ u32_mem counter' @ u64_mem me
      in case sha1 m of
           Some hash \<Rightarrow> (Inr hash, counter')
         | None \<Rightarrow> (Inl (Runtime_error ''Cannot create stratum connection ID: SHA1() failed''), counter'))"

definition connection_id :: "stratum_client \<Rightarrow> string" where
  "connection_id c = as_hex (sc_connectionId c)"

definition extra_nonce1 :: "stratum_client \<Rightarrow> u32" where
  "extra_nonce1 c = mem_u32 (take 4 (sc_connectionId c))"

definition client_new :: "int \<Rightarrow> bytes \<Rightarrow> stratum_client" where
  "client_new now connectionId =
     \<lparr>sc_clientSoftware = ''<unknown mining software>'', sc_clientUsername = '''',
      sc_connectionId = connectionId, sc_currentDiff = Fin (- 1), sc_startedMining = now,
      sc_acceptedShares = Fin 0, sc_logId = take 8 (as_hex connectionId),
      sc_jobs = [], sc_activeJob = None, sc_pooled = False, sc_sent = [], sc_submitted = []\<rparr>"

definition diff_floor :: dbl where "diff_floor = round_dbl (1 / 100)"
definition target_fuzz :: dbl where "target_fuzz = round_dbl (11 / 10)"
definition shares_per_minute :: dbl where "shares_per_minute = Fin 6"

definition calc_new_diff :: "int \<Rightarrow> (stratum_client, dbl) op" where
  "calc_new_diff now c =
     (let totalMiningTime = now - sc_startedMining c;
          newDiff = ddiv (dmul (ddiv (sc_acceptedShares c) (round_dbl (of_int totalMiningTime))) (Fin 60))
                      shares_per_minute
      in if totalMiningTime \<le> 0 then (Inr (Fin (- 1)), c)
         else if deq (sc_acceptedShares c) (Fin 0)
         then
           (let c' = c\<lparr>sc_startedMining := now\<rparr>;
                lowered = ddiv (sc_currentDiff c) (Fin 10)
            in (Inr (if dle diff_floor lowered then lowered else diff_floor), c'))
         else if totalMiningTime < 10 then (Inr (Fin (- 1)), c)
         else
           (let floored = (if dless newDiff diff_floor then diff_floor else newDiff)
            in if dless (dmul (sc_currentDiff c) target_fuzz) floored
                  \<or> dless floored (ddiv (sc_currentDiff c) target_fuzz)
               then (Inr floored, c)
               else (Inr (sc_currentDiff c), c)))"

definition accepted_share :: "dbl \<Rightarrow> stratum_client \<Rightarrow> stratum_client" where
  "accepted_share diff c = c\<lparr>sc_acceptedShares := dadd (sc_acceptedShares c) diff\<rparr>"

definition clear_jobs :: "stratum_client \<Rightarrow> stratum_client" where
  "clear_jobs c = c\<lparr>sc_jobs := [], sc_activeJob := None\<rparr>"

definition find_job :: "u32 \<Rightarrow> stratum_job list \<Rightarrow> stratum_job option" where
  "find_job jobId jobs = find (\<lambda>job. job_id job = jobId) jobs"

definition get_active_job :: "u32 \<Rightarrow> stratum_client \<Rightarrow> stratum_job option" where
  "get_active_job jobId c =
     (case sc_activeJob c of
        Some i \<Rightarrow>
          if job_id (sc_jobs c ! i) = jobId then Some (sc_jobs c ! i)
          else if sc_jobs c = [] then None else find_job jobId (sc_jobs c)
      | None \<Rightarrow> if sc_jobs c = [] then None else find_job jobId (sc_jobs c))"

section \<open>Sending\<close>

definition client_send :: "'j env \<Rightarrow> 'j \<Rightarrow> (stratum_client, unit) op" where
  "client_send env payload c =
     (let packet = j_dump (e_json env) payload @ [char_of (10 :: nat)]
      in (Inr (), c\<lparr>sc_sent := sc_sent c @ [packet]\<rparr>))"

definition send_reply_error :: "'j env \<Rightarrow> u32 \<Rightarrow> 'j \<Rightarrow> 'j \<Rightarrow> (stratum_client, unit) op" where
  "send_reply_error env messageId reply error =
     (let api = e_json env in
      client_send env
        (j_init api [j_pair api ''id'' (j_int api messageId), j_pair api ''result'' reply,
                     j_pair api ''error'' error]))"

definition send_reply :: "'j env \<Rightarrow> u32 \<Rightarrow> 'j \<Rightarrow> (stratum_client, unit) op" where
  "send_reply env messageId reply = send_reply_error env messageId reply (j_null (e_json env))"

definition send_unsolicited :: "'j env \<Rightarrow> string \<Rightarrow> 'j \<Rightarrow> int \<Rightarrow> (stratum_client, unit) op" where
  "send_unsolicited env method params msgId =
     (let api = e_json env;
          msg = j_init api [j_pair api ''id'' (j_null api), j_pair api ''method'' (j_string api method),
                            j_pair api ''params'' params];
          msg' = (if msgId > 0 then j_set api msg ''id'' (j_int api (word_of_int msgId)) else msg)
      in client_send env msg')"

definition update_diff :: "'j env \<Rightarrow> dbl \<Rightarrow> (stratum_client, unit) op" where
  "update_diff env newDiff =
     op_bind (send_unsolicited env ''mining.set_difficulty''
                (j_init (e_json env) [j_double (e_json env) newDiff]) (- 1))
       (\<lambda>_. op_set (\<lambda>c. c\<lparr>sc_currentDiff := newDiff\<rparr>))"

section \<open>A client and its job manager\<close>

record session =
  se_manager :: job_manager
  se_client :: stratum_client

definition on_client :: "(stratum_client, 'a) op \<Rightarrow> (session, 'a) op" where
  "on_client m s = (case m (se_client s) of (r, c) \<Rightarrow> (r, s\<lparr>se_client := c\<rparr>))"

definition on_manager :: "(job_manager, 'a) op \<Rightarrow> (session, 'a) op" where
  "on_manager m s = (case m (se_manager s) of (r, jm) \<Rightarrow> (r, s\<lparr>se_manager := jm\<rparr>))"

text \<open>\<open>jobManager()\<close> throws for a connection that belongs to no pool.\<close>

definition need_manager :: "(session, unit) op" where
  "need_manager s =
     (if \<not> sc_pooled (se_client s)
      then (Inl (Runtime_error ''Attempt to access jobmanager for unpooled connection!''), s)
      else (Inr (), s))"

definition push_job :: "stratum_job \<Rightarrow> (session, stratum_job) op" where
  "push_job job s =
     (let c = se_client s;
          c' = c\<lparr>sc_jobs := sc_jobs c @ [job], sc_activeJob := Some (length (sc_jobs c))\<rparr>
      in (Inr job, s\<lparr>se_client := c'\<rparr>))"

definition current_job :: "'j env \<Rightarrow> bool \<Rightarrow> (session, stratum_job) op" where
  "current_job env forceNew s =
     (case (forceNew, sc_activeJob (se_client s)) of
        (False, Some i) \<Rightarrow> (Inr (sc_jobs (se_client s) ! i), s)
      | _ \<Rightarrow>
          op_bind need_manager (\<lambda>_.
          op_bind (on_client (calc_new_diff (e_now env))) (\<lambda>newDiff.
          op_bind (op_get (\<lambda>s. sc_currentDiff (se_client s))) (\<lambda>clientDiff.
          op_bind (on_manager (create_job env clientDiff newDiff)) (\<lambda>job.
          push_job job)))) s)"

definition send_job :: "'j env \<Rightarrow> bool \<Rightarrow> (session, unit) op" where
  "send_job env forceNew =
     op_bind (current_job env forceNew) (\<lambda>job.
     op_bind (op_get (\<lambda>s. sc_currentDiff (se_client s))) (\<lambda>currentDiff.
     op_bind (if \<not> deq (job_diff job) currentDiff then on_client (update_diff env (job_diff job))
              else op_return ()) (\<lambda>_.
     op_bind (op_lift (job_to_json (e_json env) forceNew job)) (\<lambda>params.
     on_client (send_unsolicited env ''mining.notify'' params (- 1))))))"

section \<open>Invariants\<close>

text \<open>The active job is the last one made, and there is one exactly when there are jobs.\<close>

definition jobs_inv :: "stratum_client \<Rightarrow> bool" where
  "jobs_inv c \<longleftrightarrow>
     (case sc_activeJob c of None \<Rightarrow> sc_jobs c = [] | Some i \<Rightarrow> Suc i = length (sc_jobs c))"

text \<open>Job ids come from the counter, so a client never holds two jobs of one id before it wraps.\<close>

definition ids_inv :: "job_manager \<Rightarrow> stratum_client \<Rightarrow> bool" where
  "ids_inv jm c \<longleftrightarrow>
     distinct (map job_id (sc_jobs c)) \<and> (\<forall>job \<in> set (sc_jobs c). job_id job \<le> jm_jobCounter jm)"

lemma jobs_inv_new [simp]: "jobs_inv (client_new now cid)"
  and jobs_inv_clear [simp]: "jobs_inv (clear_jobs c)"
  by (simp_all add: jobs_inv_def client_new_def clear_jobs_def)

lemma jobs_inv_cong:
  "sc_jobs c = sc_jobs c' \<Longrightarrow> sc_activeJob c = sc_activeJob c' \<Longrightarrow> jobs_inv c = jobs_inv c'"
  by (simp add: jobs_inv_def split: option.split)

text \<open>What the sending operations and the difficulty calculation leave alone.\<close>

definition same_jobs :: "stratum_client \<Rightarrow> stratum_client \<Rightarrow> bool" where
  "same_jobs c c' \<longleftrightarrow>
     sc_jobs c' = sc_jobs c \<and> sc_activeJob c' = sc_activeJob c \<and> sc_pooled c' = sc_pooled c \<and>
     sc_connectionId c' = sc_connectionId c \<and> sc_submitted c' = sc_submitted c"

lemma same_jobs_refl [simp]: "same_jobs c c"
  and same_jobs_trans: "same_jobs c d \<Longrightarrow> same_jobs d e \<Longrightarrow> same_jobs c e"
  by (auto simp: same_jobs_def)

lemma same_jobs_send [simp]: "same_jobs c (snd (client_send env payload c))"
  by (simp add: same_jobs_def client_send_def Let_def)

lemma same_jobs_reply [simp]:
  "same_jobs c (snd (send_reply_error env m r e c))" "same_jobs c (snd (send_reply env m r c))"
  "same_jobs c (snd (send_unsolicited env meth ps i c))"
  by (simp_all add: send_reply_error_def send_reply_def send_unsolicited_def Let_def)

lemma same_jobs_update_diff [simp]: "same_jobs c (snd (update_diff env d c))"
  using same_jobs_reply(3) [of c env "''mining.set_difficulty''" "j_init (e_json env) [j_double (e_json env) d]" "- 1"]
  by (auto simp: update_diff_def op_bind_def same_jobs_def split: prod.splits sum.splits)

lemma same_jobs_calc [simp]: "same_jobs c (snd (calc_new_diff now c))"
  by (simp add: calc_new_diff_def Let_def same_jobs_def)

lemma get_active_job_iff:
  assumes "jobs_inv c" "distinct (map job_id (sc_jobs c))"
  shows "get_active_job jobId c = Some job \<longleftrightarrow> job \<in> set (sc_jobs c) \<and> job_id job = jobId"
proof -
  have find: "find_job jobId js = Some job \<longleftrightarrow> job \<in> set js \<and> job_id job = jobId"
    if "distinct (map job_id js)" for js
    using that by (induction js) (auto simp: find_job_def image_iff)
  show ?thesis
  proof (cases "sc_activeJob c")
    case None
    with assms show ?thesis by (simp add: get_active_job_def jobs_inv_def find)
  next
    case (Some i)
    then have i: "i < length (sc_jobs c)" using assms(1) by (simp add: jobs_inv_def)
    then have mem: "sc_jobs c ! i \<in> set (sc_jobs c)" by simp
    have eq: "sc_jobs c ! i = job" if "job \<in> set (sc_jobs c)" "job_id (sc_jobs c ! i) = job_id job"
      using assms(2) mem that by (metis distinct_map inj_on_def)
    show ?thesis
      using Some i mem eq find [OF assms(2)] by (auto simp: get_active_job_def)
  qed
qed

lemma get_active_job_None:
  assumes "jobs_inv c"
  shows "get_active_job jobId c = None \<longleftrightarrow> jobId \<notin> job_id ` set (sc_jobs c)"
proof (cases "sc_activeJob c")
  case None
  with assms show ?thesis by (simp add: get_active_job_def jobs_inv_def)
next
  case (Some i)
  then have "i < length (sc_jobs c)" using assms by (simp add: jobs_inv_def)
  then have mem: "sc_jobs c ! i \<in> set (sc_jobs c)" and ne: "sc_jobs c \<noteq> []" by auto
  have find: "find_job jobId (sc_jobs c) = None \<longleftrightarrow> jobId \<notin> job_id ` set (sc_jobs c)"
    unfolding find_job_def find_None_iff image_iff by blast
  show ?thesis
    using Some mem ne find by (cases "job_id (sc_jobs c ! i) = jobId") (auto simp: get_active_job_def)
qed

text \<open>What \<open>job\<close> returns and leaves: the active job, or a new one behind the others.\<close>

lemma create_job_Inr:
  assumes "create_job env cd d jm = (Inr job, jm')"
  shows "jm' = jm\<lparr>jm_jobCounter := jm_jobCounter jm + 1\<rparr> \<and> job_id job = jm_jobCounter jm + 1 \<and>
    jm_information jm = Some (job_information job) \<and> job_coinbase job = jm_coinbase jm \<and>
    job_hasher job = e_hasher env \<and>
    job_diff job = job_diff_for jm (job_state job) cd d"
  using assms by (auto simp: create_job_def stratum_job_new_def Let_def split: option.splits)

lemma create_job_Inl: "create_job env cd d jm = (Inl e, jm') \<Longrightarrow> jm' = jm"
  by (auto simp: create_job_def Let_def split: option.splits)

lemma current_job_cases:
  assumes "current_job env forceNew s = (r, s')"
  obtains (active) i where "\<not> forceNew" "sc_activeJob (se_client s) = Some i"
      "r = Inr (sc_jobs (se_client s) ! i)" "s' = s"
    | (failed) e where "r = Inl e" "same_jobs (se_client s) (se_client s')" "se_manager s' = se_manager s"
    | (made) job c where "r = Inr job" "same_jobs (se_client s) c" "sc_pooled (se_client s)"
      "se_client s' = c\<lparr>sc_jobs := sc_jobs c @ [job], sc_activeJob := Some (length (sc_jobs c))\<rparr>"
      "\<exists>d. create_job env (sc_currentDiff c) d (se_manager s) = (Inr job, se_manager s')"
proof (cases "\<not> forceNew \<and> (\<exists>i. sc_activeJob (se_client s) = Some i)")
  case True
  then obtain i where i: "sc_activeJob (se_client s) = Some i" "\<not> forceNew" by blast
  with assms show ?thesis by (intro active [of i]) (auto simp: current_job_def)
next
  case False
  then have run: "current_job env forceNew s =
      op_bind need_manager (\<lambda>_. op_bind (on_client (calc_new_diff (e_now env))) (\<lambda>newDiff.
      op_bind (op_get (\<lambda>s. sc_currentDiff (se_client s))) (\<lambda>clientDiff.
      op_bind (on_manager (create_job env clientDiff newDiff)) (\<lambda>job. push_job job)))) s"
    by (auto simp: current_job_def split: bool.splits option.splits)
  show ?thesis
  proof (cases "sc_pooled (se_client s)")
    case False
    with run assms show ?thesis by (intro failed) (auto simp: op_bind_def need_manager_def)
  next
    case pooled: True
    obtain q c where calc: "calc_new_diff (e_now env) (se_client s) = (q, c)" by fastforce
    have same: "same_jobs (se_client s) c" using same_jobs_calc [of "se_client s" "e_now env"] calc by simp
    obtain d where q: "q = Inr d" using calc by (auto simp: calc_new_diff_def Let_def split: if_splits)
    obtain rj jm' where made_job: "create_job env (sc_currentDiff c) d (se_manager s) = (rj, jm')" by fastforce
    show ?thesis
    proof (cases rj)
      case (Inl e)
      with made_job run assms calc q pooled same create_job_Inl [of env _ _ _ e jm'] show ?thesis
        by (intro failed [of e]) (auto simp: op_bind_def need_manager_def on_client_def on_manager_def)
    next
      case (Inr job)
      with made_job run assms calc q pooled same show ?thesis
        by (intro made [of job c])
          (auto simp: op_bind_def need_manager_def on_client_def on_manager_def push_job_def Let_def)
    qed
  qed
qed

text \<open>The invariants of a session: the counter is not about to wrap.\<close>

definition session_inv :: "session \<Rightarrow> bool" where
  "session_inv s \<longleftrightarrow> jobs_inv (se_client s) \<and> ids_inv (se_manager s) (se_client s)"

definition counter_room :: "session \<Rightarrow> bool" where
  "counter_room s \<longleftrightarrow> jm_jobCounter (se_manager s) \<noteq> - 1"

lemma session_inv_same:
  "same_jobs (se_client s) (se_client s') \<Longrightarrow> se_manager s' = se_manager s \<Longrightarrow>
   session_inv s \<Longrightarrow> session_inv s'"
  by (auto simp: session_inv_def same_jobs_def ids_inv_def jobs_inv_def split: option.splits)

lemma session_inv_current_job:
  assumes inv: "session_inv s" and room: "counter_room s"
  shows "session_inv (snd (current_job env forceNew s))"
proof (cases "current_job env forceNew s")
  case (Pair r s')
  from Pair show ?thesis
  proof (cases rule: current_job_cases)
    case (active i)
    with inv Pair show ?thesis by simp
  next
    case (failed e)
    with session_inv_same inv Pair show ?thesis by simp
  next
    case (made job c)
    let ?n = "jm_jobCounter (se_manager s)"
    have jm: "jm_jobCounter (se_manager s') = ?n + 1" and jid: "job_id job = ?n + 1"
      using made(5) create_job_Inr by (auto dest!: create_job_Inr)
    have step: "?n < ?n + 1"
      using room u32_less_succ by (simp add: counter_room_def)
    have "job_id j \<le> ?n" if "j \<in> set (sc_jobs c)" for j
      using inv made(2) that by (simp add: session_inv_def ids_inv_def same_jobs_def)
    then show ?thesis
      using inv made step jm jid Pair
      by (fastforce simp: session_inv_def jobs_inv_def ids_inv_def same_jobs_def)
  qed
qed

lemma current_job_returns:
  assumes "jobs_inv (se_client s)" "current_job env forceNew s = (Inr job, s')"
  shows "job \<in> set (sc_jobs (se_client s')) \<and> sc_activeJob (se_client s') \<noteq> None"
  using assms(2)
proof (cases rule: current_job_cases)
  case (active i)
  with assms(1) show ?thesis by (auto simp: jobs_inv_def)
qed auto

text \<open>Sending a job changes of the client what making it changed, and what sending may.\<close>

definition frame :: "session \<Rightarrow> session \<Rightarrow> bool" where
  "frame s s' \<longleftrightarrow> se_manager s' = se_manager s \<and> same_jobs (se_client s) (se_client s')"

lemma frame_refl [simp]: "frame s s"
  by (simp add: frame_def)

lemma keeps_frame_client [intro]:
  "(\<And>c. same_jobs c (snd (m c))) \<Longrightarrow> keeps (frame s) (on_client m)"
  by (auto simp: keeps_def frame_def on_client_def split: prod.split)
    (metis same_jobs_trans snd_conv)

lemma send_job_frame:
  assumes "current_job env forceNew s = (r, s')"
  shows "frame s' (snd (send_job env forceNew s))"
proof (cases r)
  case (Inl e)
  with assms show ?thesis by (simp add: send_job_def op_bind_def)
next
  case (Inr job)
  define rest where "rest =
    op_bind (op_get (\<lambda>s. sc_currentDiff (se_client s))) (\<lambda>currentDiff.
    op_bind (if \<not> deq (job_diff job) currentDiff then on_client (update_diff env (job_diff job))
             else op_return ()) (\<lambda>_.
    op_bind (op_lift (job_to_json (e_json env) forceNew job)) (\<lambda>params.
    on_client (send_unsolicited env ''mining.notify'' params (- 1)))))"
  have "keeps (frame s') rest"
    unfolding rest_def
    by (intro keeps_bind) (auto intro!: keeps_frame_client keeps_pure)
  moreover have "send_job env forceNew s = rest s'"
    using assms Inr by (simp add: send_job_def op_bind_def [of "current_job env forceNew"] rest_def)
  ultimately show ?thesis by (simp add: keepsD)
qed

lemma session_inv_send_job:
  assumes "session_inv s" "counter_room s"
  shows "session_inv (snd (send_job env forceNew s))"
proof (cases "current_job env forceNew s")
  case (Pair r s')
  with session_inv_current_job [OF assms, of env forceNew] have "session_inv s'" by simp
  with send_job_frame [OF Pair] session_inv_same show ?thesis unfolding frame_def by blast
qed

text \<open>The new difficulty: none, the one the client has, or at least the floor.\<close>

lemma calc_new_diff_range:
  assumes "calc_new_diff now c = (r, c')"
  shows "r = Inr (Fin (- 1)) \<or> r = Inr (sc_currentDiff c) \<or>
    (\<exists>d. r = Inr d \<and> \<not> dless d diff_floor)"
proof -
  note above = dle_not_dless [of diff_floor]
  define t where "t = now - sc_startedMining c"
  define q where "q = ddiv (dmul (ddiv (sc_acceptedShares c) (round_dbl (of_int t))) (Fin 60)) shares_per_minute"
  note run = assms [unfolded calc_new_diff_def Let_def, folded t_def, folded q_def]
  show ?thesis
  proof (cases "t \<le> 0 \<or> deq (sc_acceptedShares c) (Fin 0) \<or> t < 10")
    case True
    show ?thesis
    proof (cases "t \<le> 0")
      case False
      with True run above show ?thesis
        by (cases "deq (sc_acceptedShares c) (Fin 0)"; cases "dle diff_floor (ddiv (sc_currentDiff c) (Fin 10))")
          auto
    qed (use run in simp)
  next
    case False
    moreover have "\<not> dless (if dless q diff_floor then diff_floor else q) diff_floor" by simp
    ultimately show ?thesis using run by (metis Pair_inject)
  qed
qed

lemma calc_new_diff_idle:
  assumes "sc_acceptedShares c = Fin 0" "sc_startedMining c < now"
  shows "snd (calc_new_diff now c) = c\<lparr>sc_startedMining := now\<rparr>"
  using assms by (simp add: calc_new_diff_def Let_def)

section \<open>The difficulty of a job\<close>

definition state_ok :: "network_state \<Rightarrow> bool" where
  "state_ok ns \<longleftrightarrow>
     wf_hash (ns_previousBlock ns) \<and> wf_hash (ns_miningTarget ns) \<and>
     ns_miningDiff ns = ddiv (hash256_div hash256_diff1 (ns_miningTarget ns)) (Fin 4096)"

lemma state_ok_new [simp]:
  "wf_hash p \<Longrightarrow> wf_hash t \<Longrightarrow> state_ok (network_state_not_before now v b nb h p t c)"
  "wf_hash p \<Longrightarrow> wf_hash t \<Longrightarrow> state_ok (network_state_new now v b h p t c)"
  by (simp_all add: state_ok_def network_state_not_before_def network_state_new_def)

lemma job_diff_below_block:
  assumes "state_ok ns"
  shows "diff_below_block (job_diff_for jm ns cd d) (ns_miningTarget ns)"
proof -
  have share: "dmul (ns_miningDiff ns) (Fin 256) = share_mining_diff (ns_miningTarget ns)"
    using assms by (simp add: state_ok_def share_mining_diff_def)
  have wf: "wf_hash (ns_miningTarget ns)" using assms by (simp add: state_ok_def)
  show ?thesis
    unfolding job_diff_for_def Let_def share
    using quarter_below_block [OF wf] by (simp add: diff_below_block_def)
qed

text \<open>A job: it keeps the difficulty below what its block needs, and its hashes are hashes.\<close>

definition job_ok :: "stratum_job \<Rightarrow> bool" where
  "job_ok job \<longleftrightarrow>
     state_ok (job_state job) \<and> diff_below_block (job_diff job) (ns_miningTarget (job_state job))"

lemma created_job_ok:
  assumes "create_job env cd d jm = (Inr job, jm')"
    and "\<And>info. jm_information jm = Some info \<Longrightarrow> state_ok (gi_networkState info)"
  shows "job_ok job"
  using create_job_Inr [OF assms(1)] assms(2) by (simp add: job_ok_def job_diff_below_block)

lemma check_solution_block:
  assumes "job_ok job" "job_coinbase job = Some tx"
    and "header_hash (job_hasher job)
           (solution_header sha (job_information job) (solution_coinbase tx n1 n2) time nonce) = Inr hash"
    and "wf_hash hash" "be_nat (raw256 hash) \<le> be_nat (raw256 (ns_miningTarget (job_state job)))"
    and "submitBlock \<lparr>sub_header = solution_header sha (job_information job) (solution_coinbase tx n1 n2) time nonce,
       sub_coinbase = solution_coinbase tx n1 n2, sub_transactions = gi_transactions (job_information job)\<rparr> = Inr ()"
  shows "check_solution sha submitBlock job time nonce n1 n2 =
    ([\<lparr>sub_header = solution_header sha (job_information job) (solution_coinbase tx n1 n2) time nonce,
       sub_coinbase = solution_coinbase tx n1 n2,
       sub_transactions = gi_transactions (job_information job)\<rparr>], Inr True)"
proof -
  have wf: "wf_hash (ns_miningTarget (job_state job))" and below:
    "diff_below_block (job_diff job) (ns_miningTarget (job_state job))"
    using assms(1) by (simp_all add: job_ok_def state_ok_def)
  have le: "hash256_le hash (ns_miningTarget (job_state job))"
    using hash256_numeric [OF assms(4) wf] assms(5) by simp
  from block_never_low_diff [OF assms(4) wf le below] le show ?thesis
    using assms(2,3,6) by (simp add: check_solution_def job_tx_def Let_def)
qed

end
