(* ===== verification/Calls.thy ===== *)
theory Calls
  imports Clients
begin

text \<open>
  The messages of a miner (\<open>lib/stratum/StratumCall\<close>, \<open>calls/\<close>) and what a connection does with a
  received line (\<open>StratumClientConnection::onReceive\<close>). Logging is left out.
\<close>

section \<open>The calls\<close>

datatype stratum_call =
    Mining_authorize (msg_id: u32) (au_username: string) (au_password: string)
  | Mining_extranonce_subscribe (msg_id: u32)
  | Mining_submit (msg_id: u32) (su_username: string) (su_jobId: u32) (su_extraNonce2: u32)
      (su_time: u32) (su_nonce: u32)
  | Mining_subscribe (msg_id: u32) (sb_client: string)

definition authorize_method :: string where "authorize_method = ''mining.authorize''"
definition extranonce_subscribe_method :: string where
  "extranonce_subscribe_method = ''mining.extranonce.subscribe''"
definition submit_method :: string where "submit_method = ''mining.submit''"
definition subscribe_method :: string where "subscribe_method = ''mining.subscribe''"

definition get_param_string :: "'j json_api \<Rightarrow> 'j \<Rightarrow> nat \<Rightarrow> string \<Rightarrow> string res" where
  "get_param_string api params idx defaultValue =
     (if j_size api params > idx then j_get_string api (j_at api params idx) else Inr defaultValue)"

definition get_param_bytes :: "'j json_api \<Rightarrow> 'j \<Rightarrow> nat \<Rightarrow> bytes \<Rightarrow> bytes res" where
  "get_param_bytes api params idx defaultValue =
     (if j_size api params > idx
      then rbind (j_get_string api (j_at api params idx)) (\<lambda>s. Inr (from_hex s))
      else Inr defaultValue)"

definition param_u32_be :: "'j json_api \<Rightarrow> 'j \<Rightarrow> nat \<Rightarrow> u32 res" where
  "param_u32_be api params idx =
     rbind (get_param_bytes api params idx []) (\<lambda>bs.
     rbind (parse_uint_be 4 bs) (\<lambda>n. Inr (word_of_nat n)))"

definition param_u32_le :: "'j json_api \<Rightarrow> 'j \<Rightarrow> nat \<Rightarrow> u32 res" where
  "param_u32_le api params idx =
     rbind (get_param_bytes api params idx []) (\<lambda>bs.
     rbind (parse_uint_le 4 bs) (\<lambda>n. Inr (word_of_nat n)))"

definition mining_authorize_new :: "'j json_api \<Rightarrow> u32 \<Rightarrow> 'j \<Rightarrow> stratum_call res" where
  "mining_authorize_new api messageId params =
     rbind (get_param_string api params 0 '''') (\<lambda>username.
     rbind (get_param_string api params 1 '''') (\<lambda>password.
     Inr (Mining_authorize messageId username password)))"

definition mining_submit_new :: "'j json_api \<Rightarrow> u32 \<Rightarrow> 'j \<Rightarrow> stratum_call res" where
  "mining_submit_new api messageId params =
     rbind (get_param_string api params 0 '''') (\<lambda>username.
     rbind (param_u32_be api params 1) (\<lambda>jobId.
     rbind (param_u32_le api params 2) (\<lambda>extraNonce2.
     rbind (param_u32_be api params 3) (\<lambda>time.
     rbind (param_u32_be api params 4) (\<lambda>nonce.
     Inr (Mining_submit messageId username jobId extraNonce2 time nonce))))))"

definition mining_subscribe_new :: "'j json_api \<Rightarrow> u32 \<Rightarrow> 'j \<Rightarrow> stratum_call res" where
  "mining_subscribe_new api messageId params =
     rbind (get_param_string api params 0 '''') (\<lambda>client. Inr (Mining_subscribe messageId client))"

definition parse_message :: "'j json_api \<Rightarrow> 'j \<Rightarrow> stratum_call option res" where
  "parse_message api encoded =
     rbind (rbind (j_const_member api encoded ''id'') (j_get_int api)) (\<lambda>msgId.
     rbind (rbind (j_const_member api encoded ''method'') (j_get_string api)) (\<lambda>method.
     rbind (j_const_member api encoded ''params'') (\<lambda>params.
       if \<not> j_is_array api params then Inr None
       else if method = authorize_method then rbind (mining_authorize_new api msgId params) (\<lambda>c. Inr (Some c))
       else if method = extranonce_subscribe_method then Inr (Some (Mining_extranonce_subscribe msgId))
       else if method = submit_method then rbind (mining_submit_new api msgId params) (\<lambda>c. Inr (Some c))
       else if method = subscribe_method then rbind (mining_subscribe_new api msgId params) (\<lambda>c. Inr (Some c))
       else Inr None)))"

section \<open>Handling a call\<close>

definition reject_unknown_job :: "u32 \<Rightarrow> string" where
  "reject_unknown_job jobId = ''Job '' @ dec_string (unat jobId) @ '' not or no longer valid''"

definition process_submit ::
  "'j env \<Rightarrow> u32 \<Rightarrow> u32 \<Rightarrow> u32 \<Rightarrow> u32 \<Rightarrow> u32 \<Rightarrow> (stratum_client, unit) op" where
  "process_submit env messageId jobId extraNonce2 time nonce c =
     (let api = e_json env in
      (case get_active_job jobId c of
        None \<Rightarrow>
          send_reply_error env messageId (j_bool api False) (j_string api (reject_unknown_job jobId)) c
      | Some job \<Rightarrow>
          (case check_solution (e_sha256d env) (e_submit env) job time nonce (extra_nonce1 c) extraNonce2 of
             (submitted, result) \<Rightarrow>
               let c' = c\<lparr>sc_submitted := sc_submitted c @ submitted\<rparr> in
               (case result of
                 Inr _ \<Rightarrow>
                   op_bind (op_set (accepted_share (job_diff job)))
                     (\<lambda>_. send_reply env messageId (j_bool api True)) c'
               | Inl (Validation_error what) \<Rightarrow>
                   send_reply_error env messageId (j_bool api False) (j_string api what) c'
               | Inl e \<Rightarrow> (Inl e, c')))))"

definition subscribe_reply :: "'j json_api \<Rightarrow> stratum_client \<Rightarrow> 'j" where
  "subscribe_reply api c =
     (let connId = connection_id c in
      j_init api
        [j_array api [j_init api [j_string api ''mining.set_difficulty'', j_string api connId],
                      j_init api [j_string api ''mining.notify'', j_string api connId]],
         j_string api (as_hex (u32_mem (extra_nonce1 c))),
         j_uint api 4])"

definition process_authorize :: "'j env \<Rightarrow> u32 \<Rightarrow> (stratum_client, unit) op" where
  "process_authorize env messageId = send_reply env messageId (j_bool (e_json env) True)"

definition process_extranonce_subscribe :: "'j env \<Rightarrow> u32 \<Rightarrow> (stratum_client, unit) op" where
  "process_extranonce_subscribe env messageId =
     send_reply_error env messageId (j_bool (e_json env) False) (j_string (e_json env) ''Not supported'')"

definition process_subscribe :: "'j env \<Rightarrow> u32 \<Rightarrow> (session, unit) op" where
  "process_subscribe env messageId =
     op_bind (op_get (\<lambda>s. subscribe_reply (e_json env) (se_client s))) (\<lambda>reply.
     op_bind (on_client (send_reply env messageId reply)) (\<lambda>_.
     op_bind (op_get (\<lambda>s. sc_pooled (se_client s))) (\<lambda>isPooled.
     if isPooled then send_job env False else op_return ())))"

text \<open>\<open>process\<close> is virtual: the class of the call selects it.\<close>

definition process_call :: "'j env \<Rightarrow> stratum_call \<Rightarrow> (session, unit) op" where
  "process_call env call =
     (case call of
        Mining_authorize messageId _ _ \<Rightarrow> on_client (process_authorize env messageId)
      | Mining_extranonce_subscribe messageId \<Rightarrow> on_client (process_extranonce_subscribe env messageId)
      | Mining_submit messageId _ jobId extraNonce2 time nonce \<Rightarrow>
          on_client (process_submit env messageId jobId extraNonce2 time nonce)
      | Mining_subscribe messageId _ \<Rightarrow> process_subscribe env messageId)"

section \<open>A received line\<close>

definition note_software :: "stratum_call \<Rightarrow> stratum_client \<Rightarrow> stratum_client" where
  "note_software call c =
     (case call of
        Mining_subscribe _ client \<Rightarrow> c\<lparr>sc_clientSoftware := client\<rparr>
      | Mining_authorize _ username _ \<Rightarrow>
          c\<lparr>sc_clientUsername := username, sc_logId := username @ ''/'' @ take 8 (connection_id c)\<rparr>
      | _ \<Rightarrow> c)"

definition receive_body :: "'j env \<Rightarrow> bytes \<Rightarrow> (session, unit) op" where
  "receive_body env packet =
     op_bind (op_lift (j_parse (e_json env) packet)) (\<lambda>payload.
     if \<not> j_is_object (e_json env) payload then op_return ()
     else
       op_bind (op_lift (parse_message (e_json env) payload)) (\<lambda>parsed.
       case parsed of
         None \<Rightarrow> op_return ()
       | Some call \<Rightarrow>
           op_bind (on_client (op_set (note_software call))) (\<lambda>_. process_call env call)))"

text \<open>Only exceptions of the JSON library are caught.\<close>

definition catch_json :: "('s, unit) op \<Rightarrow> ('s, unit) op" where
  "catch_json m s = (case m s of (r, s') \<Rightarrow> if r = Inl Json_exception then (Inr (), s') else (r, s'))"

definition on_receive :: "'j env \<Rightarrow> bytes \<Rightarrow> (session, unit) op" where
  "on_receive env packet = catch_json (receive_body env packet)"

section \<open>What the miner sent is what is checked\<close>

lemma param_u32_be_hex:
  assumes "idx < j_size api params" "j_get_string api (j_at api params idx) = Inr (int2hex n False)"
  shows "param_u32_be api params idx = Inr n"
proof -
  have "unat n < 256 ^ 4" using unsigned_less [of n, where ?'a = nat] by simp
  from parse_uint_be_rev [OF this] assms show ?thesis
    by (simp add: param_u32_be_def get_param_bytes_def u32_mem_def)
qed

lemma param_u32_le_hex:
  assumes "idx < j_size api params" "j_get_string api (j_at api params idx) = Inr (as_hex (u32_mem n))"
  shows "param_u32_le api params idx = Inr n"
proof -
  have "unat n < 256 ^ 4" using unsigned_less [of n, where ?'a = nat] by simp
  from parse_uint_le_le_bytes [OF this] assms show ?thesis
    by (simp add: param_u32_le_def get_param_bytes_def u32_mem_def)
qed

lemma parse_submit:
  assumes "j_member api m ''id'' = Some vid" "j_get_int api vid = Inr i"
    and "j_member api m ''method'' = Some vm" "j_get_string api vm = Inr ''mining.submit''"
    and "j_member api m ''params'' = Some ps" "j_is_array api ps" "5 \<le> j_size api ps"
    and "j_get_string api (j_at api ps 0) = Inr user"
    and "j_get_string api (j_at api ps 1) = Inr (int2hex jobId False)"
    and "j_get_string api (j_at api ps 2) = Inr (as_hex (u32_mem n2))"
    and "j_get_string api (j_at api ps 3) = Inr (int2hex time False)"
    and "j_get_string api (j_at api ps 4) = Inr (int2hex nonce False)"
  shows "parse_message api m = Inr (Some (Mining_submit i user jobId n2 time nonce))"
  using assms
  by (simp add: parse_message_def j_const_member_def authorize_method_def
      extranonce_subscribe_method_def submit_method_def mining_submit_new_def get_param_string_def
      param_u32_be_hex param_u32_le_hex)

text \<open>A number of more than four bytes is refused with an exception the connection does not catch.\<close>

lemma param_u32_too_long:
  assumes "idx < j_size api params" "j_get_string api (j_at api params idx) = Inr s" "8 < length s"
  shows "param_u32_be api params idx = Inl (Runtime_error ''Cannot parse raw value to little-endian integer'')"
  using assms
  by (simp add: param_u32_be_def get_param_bytes_def parse_uint_be_def parse_uint_le_def length_from_hex)

section \<open>Invariants of handling a line\<close>

lemma same_jobs_accept: "same_jobs c (accepted_share d c)"
  by (simp add: same_jobs_def accepted_share_def)

text \<open>A submission changes neither the jobs of the client nor its manager.\<close>

definition same_job_list :: "stratum_client \<Rightarrow> stratum_client \<Rightarrow> bool" where
  "same_job_list c c' \<longleftrightarrow> sc_jobs c' = sc_jobs c \<and> sc_activeJob c' = sc_activeJob c"

lemma same_job_list_refl [simp]: "same_job_list c c"
  and same_jobs_job_list: "same_jobs c c' \<Longrightarrow> same_job_list c c'"
  and same_job_list_trans: "same_job_list c d \<Longrightarrow> same_job_list d e \<Longrightarrow> same_job_list c e"
  by (simp_all add: same_job_list_def same_jobs_def)

lemma keeps_replies [intro]:
  "keeps (same_job_list c) (send_reply env m r)"
  "keeps (same_job_list c) (send_reply_error env m r e)"
  unfolding keeps_def
  by (intro allI impI, erule same_job_list_trans, intro same_jobs_job_list same_jobs_reply)+

lemma process_submit_jobs: "same_job_list c (snd (process_submit env m j n2 t n c))"
proof (cases "get_active_job j c")
  case None
  then show ?thesis
    unfolding process_submit_def Let_def by (simp add: keepsD [OF keeps_replies(2)])
next
  case (Some job)
  obtain sub r where check:
    "check_solution (e_sha256d env) (e_submit env) job t n (extra_nonce1 c) n2 = (sub, r)" by fastforce
  let ?c = "c\<lparr>sc_submitted := sc_submitted c @ sub\<rparr>"
  have c': "same_job_list c ?c" by (simp add: same_job_list_def)
  have acc: "same_job_list c (accepted_share d ?c)" for d
    by (simp add: same_job_list_def accepted_share_def)
  show ?thesis
  proof (cases r)
    case (Inr b)
    with Some check acc show ?thesis
      by (simp add: process_submit_def Let_def keepsD [OF keeps_replies(1)])
  next
    case (Inl e)
    with Some check c' show ?thesis
      by (cases e) (simp_all add: process_submit_def Let_def keepsD [OF keeps_replies(2)])
  qed
qed

lemma session_inv_list:
  "same_job_list (se_client s) (se_client s') \<Longrightarrow> se_manager s' = se_manager s \<Longrightarrow>
   session_inv s \<Longrightarrow> session_inv s'"
  by (auto simp: session_inv_def same_job_list_def ids_inv_def jobs_inv_def split: option.splits)

definition live :: "session \<Rightarrow> bool" where
  "live s \<longleftrightarrow> session_inv s \<and> counter_room s"

text \<open>An operation on the client alone that leaves the jobs as they are.\<close>

lemma on_client_live:
  assumes "\<And>c. same_job_list c (snd (m c))" "live s"
  shows "live (snd (on_client m s))"
proof -
  have "snd (on_client m s) = s\<lparr>se_client := snd (m (se_client s))\<rparr>"
    by (simp add: on_client_def split: prod.split)
  with session_inv_list [of s "s\<lparr>se_client := snd (m (se_client s))\<rparr>"] assms show ?thesis
    by (simp add: live_def counter_room_def)
qed

lemma reply_live:
  assumes "live s"
  shows "live (snd (on_client (send_reply env m r) s))"
    "live (snd (on_client (send_reply_error env m r e) s))"
  by (rule on_client_live [OF _ assms], rule same_jobs_job_list, rule same_jobs_reply)+

lemma process_call_inv:
  assumes "live s"
  shows "session_inv (snd (process_call env call s))"
proof (cases call)
  case (Mining_authorize i u p)
  then show ?thesis
    using reply_live(1) [OF assms, of env i "j_bool (e_json env) True"] by (simp add: process_call_def process_authorize_def live_def)
next
  case (Mining_extranonce_subscribe i)
  then show ?thesis
    using reply_live(2) [OF assms, of env i "j_bool (e_json env) False" "j_string (e_json env) ''Not supported''"]
    by (simp add: process_call_def process_extranonce_subscribe_def live_def)
next
  case (Mining_submit i u j n2 t n)
  then show ?thesis
    using on_client_live [of "process_submit env i j n2 t n", OF process_submit_jobs assms] by (simp add: process_call_def live_def)
next
  case (Mining_subscribe i cl)
  let ?reply = "subscribe_reply (e_json env) (se_client s)"
  obtain r s' where run: "on_client (send_reply env i ?reply) s = (r, s')" by fastforce
  then have live: "live s'" using reply_live(1) [OF assms, of env i ?reply] by simp
  show ?thesis
  proof (cases r)
    case (Inl e)
    with run live Mining_subscribe show ?thesis
      by (simp add: process_call_def process_subscribe_def op_bind_def [of "on_client _"] live_def)
  next
    case (Inr u)
    with run live Mining_subscribe session_inv_send_job [of s' env False] show ?thesis
      by (simp add: process_call_def process_subscribe_def op_bind_def [of "on_client _"] live_def)
  qed
qed

lemma note_software_jobs: "same_job_list c (note_software call c)"
  by (simp add: note_software_def same_job_list_def split: stratum_call.split)

text \<open>A line is ignored, ends in an exception before anything changed, or is a call that is handled.\<close>

lemma on_receive_cases:
  obtains (ignored) "on_receive env packet s = (Inr (), s)"
    | (thrown) e where "on_receive env packet s = (Inl e, s)"
    | (handled) payload call r s' where "j_parse (e_json env) packet = Inr payload"
        "j_is_object (e_json env) payload" "parse_message (e_json env) payload = Inr (Some call)"
        "process_call env call (s\<lparr>se_client := note_software call (se_client s)\<rparr>) = (r, s')"
        "on_receive env packet s = ((if r = Inl Json_exception then Inr () else r), s')"
proof (cases "j_parse (e_json env) packet")
  case (Inl e)
  then show ?thesis
    using ignored thrown
    by (cases "e = Json_exception") (auto simp: on_receive_def catch_json_def receive_body_def)
next
  case (Inr payload)
  note body = on_receive_def catch_json_def receive_body_def Inr
  show ?thesis
  proof (cases "j_is_object (e_json env) payload")
    case False
    with ignored show ?thesis by (simp add: body)
  next
    case obj: True
    show ?thesis
    proof (cases "parse_message (e_json env) payload")
      case (Inl e)
      with obj show ?thesis
        using ignored thrown by (cases "e = Json_exception") (auto simp: body)
    next
      case parsed: (Inr m)
      show ?thesis
      proof (cases m)
        case None
        with obj parsed ignored show ?thesis by (simp add: body)
      next
        case (Some call)
        obtain r s' where run:
          "process_call env call (s\<lparr>se_client := note_software call (se_client s)\<rparr>) = (r, s')" by fastforce
        have "on_receive env packet s = ((if r = Inl Json_exception then Inr () else r), s')"
          using obj parsed Some run by (simp add: body op_bind_def [of "on_client _"] on_client_def)
        with Inr obj parsed Some run show ?thesis by (intro handled) auto
      qed
    qed
  qed
qed

lemma on_receive_inv:
  assumes "live s"
  shows "session_inv (snd (on_receive env packet s))"
proof (cases rule: on_receive_cases [of env packet s])
  case (handled payload call r s')
  have "snd (on_client (op_set (note_software call)) s) = s\<lparr>se_client := note_software call (se_client s)\<rparr>"
    by (simp add: on_client_def)
  with on_client_live [of "op_set (note_software call)", OF _ assms] note_software_jobs
  have "live (s\<lparr>se_client := note_software call (se_client s)\<rparr>)" by fastforce
  from process_call_inv [OF this, of env call] handled(4,5) show ?thesis by simp
qed (use assms in \<open>simp_all add: live_def\<close>)

section \<open>A connection outside of every pool\<close>

text \<open>It holds no job and has no share; the only operation that makes jobs, \<open>sendJob\<close>, is never reached.\<close>

definition idle :: "job_manager \<Rightarrow> session \<Rightarrow> bool" where
  "idle jm s \<longleftrightarrow> se_manager s = jm \<and> \<not> sc_pooled (se_client s) \<and> sc_jobs (se_client s) = [] \<and>
     sc_activeJob (se_client s) = None \<and> sc_acceptedShares (se_client s) = Fin 0 \<and> sc_submitted (se_client s) = []"

lemma idle_replies:
  "idle jm s \<Longrightarrow> idle jm (snd (on_client (send_reply env m r) s))"
  "idle jm s \<Longrightarrow> idle jm (snd (on_client (send_reply_error env m r e) s))"
  by (simp_all add: idle_def on_client_def send_reply_def send_reply_error_def client_send_def Let_def
      split: prod.splits)

lemma idle_process_call:
  assumes "idle jm s"
  shows "idle jm (snd (process_call env call s))"
proof (cases call)
  case (Mining_submit i u j n2 t n)
  have "get_active_job j (se_client s) = None" using assms by (simp add: idle_def get_active_job_def find_job_def)
  then have "on_client (process_submit env i j n2 t n) s =
      on_client (send_reply_error env i (j_bool (e_json env) False) (j_string (e_json env) (reject_unknown_job j))) s"
    by (simp add: on_client_def process_submit_def Let_def)
  with idle_replies(2) [OF assms] Mining_submit show ?thesis by (simp add: process_call_def)
next
  case (Mining_subscribe i cl)
  obtain r s' where run: "on_client (send_reply env i (subscribe_reply (e_json env) (se_client s))) s = (r, s')"
    by fastforce
  with idle_replies(1) [OF assms, of env i "subscribe_reply (e_json env) (se_client s)"] have "idle jm s'" by simp
  then show ?thesis
    using run Mining_subscribe
    by (simp add: process_call_def process_subscribe_def op_bind_def [of "on_client _"] idle_def split: sum.split)
qed (simp_all add: process_call_def process_authorize_def process_extranonce_subscribe_def idle_replies [OF assms])

lemma idle_on_receive:
  assumes "idle jm s"
  shows "idle jm (snd (on_receive env packet s))"
proof (cases rule: on_receive_cases [of env packet s])
  case (handled payload call r s')
  have "idle jm (s\<lparr>se_client := note_software call (se_client s)\<rparr>)"
    using assms by (auto simp: idle_def note_software_def split: stratum_call.split)
  from idle_process_call [OF this, of env call] handled(4,5) show ?thesis by simp
qed (use assms in simp_all)

section \<open>Sequences of lines\<close>

text \<open>Handling a line makes at most one job, so the counter of the manager moves by at most one.\<close>

lemma send_job_counter:
  "jm_jobCounter (se_manager (snd (send_job env force s))) \<in>
     {jm_jobCounter (se_manager s), jm_jobCounter (se_manager s) + 1}"
proof (cases "current_job env force s")
  case (Pair r s')
  have "jm_jobCounter (se_manager s') \<in> {jm_jobCounter (se_manager s), jm_jobCounter (se_manager s) + 1}"
    using Pair
  proof (cases rule: current_job_cases)
    case (made job c)
    then show ?thesis using create_job_Inr by fastforce
  qed simp_all
  with send_job_frame [OF Pair] show ?thesis by (simp add: frame_def)
qed

lemma on_client_manager [simp]: "se_manager (snd (on_client m s)) = se_manager s"
  by (simp add: on_client_def split: prod.split)

lemma process_call_counter:
  "jm_jobCounter (se_manager (snd (process_call env call s))) \<in>
     {jm_jobCounter (se_manager s), jm_jobCounter (se_manager s) + 1}"
proof (cases call)
  case (Mining_subscribe i cl)
  let ?reply = "subscribe_reply (e_json env) (se_client s)"
  obtain r s' where run: "on_client (send_reply env i ?reply) s = (r, s')" by fastforce
  then have "se_manager s' = se_manager s" using on_client_manager [of "send_reply env i ?reply" s] by simp
  with run Mining_subscribe send_job_counter [of env False s'] show ?thesis
    by (cases r) (simp_all add: process_call_def process_subscribe_def op_bind_def)
qed (simp_all add: process_call_def)

lemma on_receive_counter:
  "jm_jobCounter (se_manager (snd (on_receive env packet s))) \<in>
     {jm_jobCounter (se_manager s), jm_jobCounter (se_manager s) + 1}"
proof (cases rule: on_receive_cases [of env packet s])
  case (handled payload call r s')
  with process_call_counter [of env call "s\<lparr>se_client := note_software call (se_client s)\<rparr>"] show ?thesis
    by simp
qed simp_all

definition receive_lines :: "('j env \<times> bytes) list \<Rightarrow> session \<Rightarrow> session" where
  "receive_lines = fold (\<lambda>(env, packet) s. snd (on_receive env packet s))"

lemma receive_lines_simps [simp]:
  "receive_lines [] s = s"
  "receive_lines ((env, packet) # ls) s = receive_lines ls (snd (on_receive env packet s))"
  by (simp_all add: receive_lines_def)

text \<open>
  Whatever lines a miner sends, in whatever order, the active job stays the newest one the
  client holds, and the job ids it holds stay different from each other and below the counter, as
  long as the counter of jobs does not wrap.
\<close>

lemma received_lines_keep_invariant:
  assumes "session_inv s" "unat (jm_jobCounter (se_manager s)) + length ls < 2 ^ 32"
  shows "session_inv (receive_lines ls s)"
  using assms
proof (induction ls arbitrary: s)
  case (Cons l ls)
  obtain env packet where l: "l = (env, packet)" by fastforce
  let ?s = "snd (on_receive env packet s)"
  let ?n = "jm_jobCounter (se_manager s)"
  have room: "Suc (unat ?n) < 2 ^ 32" using Cons.prems(2) by simp
  have "unat ?n = 2 ^ 32 - 1" if "?n = - 1"
    unfolding that by (simp add: unsigned_minus_1_eq_mask mask_eq_exp_minus_1)
  with room have "?n \<noteq> - 1" by fastforce
  with Cons.prems(1) have "session_inv ?s" by (intro on_receive_inv) (simp add: live_def counter_room_def)
  moreover have "unat (?n + 1) = Suc (unat ?n)" using room by (simp add: unat_add_lem [THEN iffD1])
  then have "unat (jm_jobCounter (se_manager ?s)) + length ls < 2 ^ 32"
    using on_receive_counter [of env packet s] Cons.prems(2) by auto
  ultimately show ?case using Cons.IH by (simp add: l)
qed simp

section \<open>Well-formed work\<close>

text \<open>Every job that is held, and the work of the manager, is on a well-formed state of the network.\<close>

definition manager_ok :: "job_manager \<Rightarrow> bool" where
  "manager_ok jm \<longleftrightarrow> (\<forall>info. jm_information jm = Some info \<longrightarrow> state_ok (gi_networkState info))"

definition client_ok :: "stratum_client \<Rightarrow> bool" where
  "client_ok c \<longleftrightarrow> jobs_inv c \<and> (\<forall>job \<in> set (sc_jobs c). job_ok job)"

definition work_ok :: "session \<Rightarrow> bool" where
  "work_ok s \<longleftrightarrow> manager_ok (se_manager s) \<and> client_ok (se_client s)"

lemma client_ok_list: "same_job_list c c' \<Longrightarrow> client_ok c \<Longrightarrow> client_ok c'"
  by (auto simp: client_ok_def same_job_list_def jobs_inv_def split: option.splits)

lemma client_ok_same: "same_jobs c c' \<Longrightarrow> client_ok c \<Longrightarrow> client_ok c'"
  by (intro client_ok_list [of c c'] same_jobs_job_list)

lemma work_ok_client:
  "(\<And>c. same_job_list c (snd (m c))) \<Longrightarrow> keeps work_ok (on_client m)"
  by (auto simp: keeps_def work_ok_def on_client_def split: prod.split) (metis client_ok_list snd_conv)

lemma work_ok_current_job: "keeps work_ok (current_job env force)"
  unfolding keeps_def
proof (intro allI impI)
  fix s assume ok: "work_ok s"
  obtain r s1 where run: "current_job env force s = (r, s1)" by fastforce
  from run have "work_ok s1"
  proof (cases rule: current_job_cases)
    case (failed e)
    with ok client_ok_same show ?thesis by (auto simp: work_ok_def)
  next
    case (made job c)
    then obtain d where d: "create_job env (sc_currentDiff c) d (se_manager s) = (Inr job, se_manager s1)" by blast
    have "job_ok job" using created_job_ok [OF d] ok by (simp add: work_ok_def manager_ok_def)
    moreover have "client_ok c" using made(2) ok client_ok_same by (auto simp: work_ok_def)
    moreover have "manager_ok (se_manager s1)" using create_job_Inr [OF d] ok by (simp add: work_ok_def manager_ok_def)
    ultimately show ?thesis using made(4) by (auto simp: work_ok_def client_ok_def jobs_inv_def)
  qed (use ok in simp)
  with run show "work_ok (snd (current_job env force s))" by simp
qed

lemma work_ok_send_job: "keeps work_ok (send_job env force)"
  unfolding keeps_def
proof (intro allI impI)
  fix s assume ok: "work_ok s"
  obtain r s1 where run: "current_job env force s = (r, s1)" by fastforce
  with keepsD [OF work_ok_current_job ok, of env force] have "work_ok s1" by simp
  with send_job_frame [OF run] client_ok_same show "work_ok (snd (send_job env force s))"
    by (auto simp: work_ok_def frame_def)
qed

lemma work_ok_process_call: "keeps work_ok (process_call env call)"
proof (cases call)
  case (Mining_subscribe i cl)
  then show ?thesis
    by (auto simp: process_call_def process_subscribe_def same_jobs_job_list
        intro!: keeps_bind work_ok_client work_ok_send_job keeps_pure)
qed (auto simp: process_call_def process_authorize_def process_extranonce_subscribe_def same_jobs_job_list
    process_submit_jobs intro!: work_ok_client)

lemma work_ok_on_receive: "keeps work_ok (on_receive env packet)"
  unfolding keeps_def
proof (intro allI impI)
  fix s assume ok: "work_ok s"
  show "work_ok (snd (on_receive env packet s))"
  proof (cases rule: on_receive_cases [of env packet s])
    case (handled payload call r s')
    have "work_ok (s\<lparr>se_client := note_software call (se_client s)\<rparr>)"
      using ok client_ok_list [OF note_software_jobs] by (simp add: work_ok_def)
    from keepsD [OF work_ok_process_call this, of env call] handled(4,5) show ?thesis by simp
  qed (use ok in simp_all)
qed

text \<open>
  Whatever lines a miner sends, every job it holds is on a well-formed state and asks for no
  more than a block of this state does: no solved block is ever rejected for its difficulty.
\<close>

lemma held_jobs_well_formed:
  assumes "work_ok s"
  shows "work_ok (receive_lines ls s)"
  using assms by (induction ls arbitrary: s) (auto simp: keepsD [OF work_ok_on_receive])

end
