(* ===== verification/Pools.thy ===== *)
theory Pools
  imports Calls Sync
begin

text \<open>
  New work for the miners of a pool (\<open>lib/stratum/JobManager\<close>, \<open>Pool\<close>, \<open>StratumServer\<close>). An
  update of the work balances the outputs, which may not return: \<open>None\<close> is that it does not. The
  locks of the manager and of the connections make each of the methods one step.
\<close>

section \<open>The coinbase of the manager\<close>

definition update_coinbase_outputs0 :: "job_manager \<Rightarrow> (unit res \<times> job_manager) option" where
  "update_coinbase_outputs0 jm =
     (case (jm_coinbaseOutputs jm, jm_information jm) of
        ([], _) \<Rightarrow> Some (Inl (Undefined ''coinbaseOutputs[0]''), jm)
      | (_, None) \<Rightarrow> Some (Inl (Undefined ''null generationInformation''), jm)
      | (_ # others, Some information) \<Rightarrow>
          let outputs = Some (gi_witnessCommitment information) # others
          in (case rebalance outputs (ns_coinbaseCoins (gi_networkState information)) of
               None \<Rightarrow> None
             | Some (Inl e) \<Rightarrow> Some (Inl e, jm\<lparr>jm_coinbaseOutputs := outputs\<rparr>)
             | Some (Inr outputs') \<Rightarrow> Some (Inr (), jm\<lparr>jm_coinbaseOutputs := outputs'\<rparr>)))"

definition insert_commitment :: "coinbase_output \<Rightarrow> coinbase_outputs \<Rightarrow> coinbase_outputs res" where
  "insert_commitment newWitnessCommitment outputs =
     (case outputs of
        [] \<Rightarrow> Inr [Some newWitnessCommitment]
      | None # _ \<Rightarrow> Inl (Undefined ''null coinbase output'')
      | Some first # others \<Rightarrow>
          if \<not> is_commitment first then Inr (Some newWitnessCommitment # outputs)
          else Inr (Some newWitnessCommitment # others))"

definition generate_coinbase_transaction ::
  "'j env \<Rightarrow> job_manager \<Rightarrow> (coinbase_tx res \<times> job_manager) option" where
  "generate_coinbase_transaction env jm =
     (case jm_information jm of
        None \<Rightarrow> Some (Inl (Undefined ''null generationInformation''), jm)
      | Some information \<Rightarrow>
          (case insert_commitment (gi_witnessCommitment information) (jm_coinbaseOutputs jm) of
            Inl e \<Rightarrow> Some (Inl e, jm)
          | Inr outputs \<Rightarrow>
              (case rebalance outputs (ns_coinbaseCoins (gi_networkState information)) of
                None \<Rightarrow> None
              | Some (Inl e) \<Rightarrow> Some (Inl e, jm\<lparr>jm_coinbaseOutputs := outputs\<rparr>)
              | Some (Inr outputs') \<Rightarrow>
                  Some (coinbase_build0 (e_now32 env) (ns_blockHeight (gi_networkState information))
                          (e_coinbaseId env) outputs',
                        jm\<lparr>jm_coinbaseOutputs := outputs'\<rparr>))))"

section \<open>New jobs for the clients\<close>

record pool =
  po_manager :: job_manager
  po_clients :: "stratum_client list"

definition pool_new :: "dbl \<Rightarrow> pool" where
  "pool_new defaultDiff = \<lparr>po_manager = job_manager_new defaultDiff, po_clients = []\<rparr>"

fun send_new_jobs ::
  "'j env \<Rightarrow> bool \<Rightarrow> job_manager \<Rightarrow> stratum_client list \<Rightarrow> unit res \<times> job_manager \<times> stratum_client list" where
  "send_new_jobs env forceUpdate jm [] = (Inr (), jm, [])"
| "send_new_jobs env forceUpdate jm (client # clients) =
     (let client' = (if forceUpdate then clear_jobs client else client) in
      case send_job env forceUpdate \<lparr>se_manager = jm, se_client = client'\<rparr> of
        (Inl e, s) \<Rightarrow> (Inl e, se_manager s, se_client s # clients)
      | (Inr _, s) \<Rightarrow>
          case send_new_jobs env forceUpdate (se_manager s) clients of
            (r, jm', clients') \<Rightarrow> (r, jm', se_client s # clients'))"

definition update_work_forced :: "'j env \<Rightarrow> bool \<Rightarrow> pool \<Rightarrow> (unit res \<times> pool) option" where
  "update_work_forced env forceClientUpdates p =
     (case generate_coinbase_transaction env (po_manager p) of
        None \<Rightarrow> None
      | Some (Inl e, jm) \<Rightarrow> Some (Inl e, p\<lparr>po_manager := jm\<rparr>)
      | Some (Inr tx, jm) \<Rightarrow>
          (case send_new_jobs env forceClientUpdates (jm\<lparr>jm_coinbase := Some tx\<rparr>) (po_clients p) of
             (r, jm', clients) \<Rightarrow> Some (r, p\<lparr>po_manager := jm', po_clients := clients\<rparr>)))"

definition then_update_work ::
  "'j env \<Rightarrow> bool \<Rightarrow> job_manager \<Rightarrow> pool \<Rightarrow> (unit res \<times> pool) option" where
  "then_update_work env forceClientUpdates jm p =
     (case update_coinbase_outputs0 jm of
        None \<Rightarrow> None
      | Some (Inl e, jm') \<Rightarrow> Some (Inl e, p\<lparr>po_manager := jm'\<rparr>)
      | Some (Inr _, jm') \<Rightarrow> update_work_forced env forceClientUpdates (p\<lparr>po_manager := jm'\<rparr>))"

definition update_work :: "'j env \<Rightarrow> generation_information \<Rightarrow> pool \<Rightarrow> (unit res \<times> pool) option" where
  "update_work env information p =
     (case jm_information (po_manager p) of
        None \<Rightarrow> Some (Inl (Undefined ''null generationInformation''), p)
      | Some old \<Rightarrow>
          let blockUpdate = ns_differs (gi_networkState information) (gi_networkState old)
          in then_update_work env blockUpdate ((po_manager p)\<lparr>jm_information := Some information\<rparr>) p)"

definition update_coinbase_outputs :: "'j env \<Rightarrow> coinbase_outputs \<Rightarrow> pool \<Rightarrow> (unit res \<times> pool) option" where
  "update_coinbase_outputs env newOutputs p =
     then_update_work env False ((po_manager p)\<lparr>jm_coinbaseOutputs := None # newOutputs\<rparr>) p"

text \<open>
  \<open>Pool::updateWork\<close> only queues; the worker \<open>WorkUpdater\<close> takes one update after the other. Each reads
  the clock anew, so it has an environment of its own; the list is as long as the run that is looked at.
\<close>

definition pool_update_work :: "generation_information \<Rightarrow> generation_information queue \<Rightarrow> generation_information queue" where
  "pool_update_work information q = queue_push information q"

fun work_updater_main ::
  "'j env list \<Rightarrow> generation_information queue \<Rightarrow> pool \<Rightarrow>
   (unit res \<times> generation_information queue \<times> pool) option" where
  "work_updater_main [] q p = Some (Inr (), q, p)"
| "work_updater_main (env # envs) q p =
     (case wait_for_message q of
        None \<Rightarrow> Some (Inr (), q, p)
      | Some (Inl e, q') \<Rightarrow> Some (Inl e, q', p)
      | Some (Inr information, q') \<Rightarrow>
          (case update_work env information p of
             None \<Rightarrow> None
           | Some (Inl e, p') \<Rightarrow> Some (Inl e, q', p')
           | Some (Inr _, p') \<Rightarrow> work_updater_main envs q' p'))"

section \<open>The server\<close>

record stratum_server =
  sv_extraNonce2Size :: u64
  sv_hasher :: hash_plugin
  sv_coinbaseId :: bytes
  sv_information :: generation_information

definition server_new :: "(bytes \<Rightarrow> hash256) \<Rightarrow> hash_plugin \<Rightarrow> string \<Rightarrow> network_state \<Rightarrow> stratum_server" where
  "server_new sha256d hasher coinbaseId initial =
     \<lparr>sv_extraNonce2Size = 4, sv_hasher = hasher, sv_coinbaseId = str_bytes coinbaseId,
      sv_information = generation_information_new sha256d initial\<rparr>"

definition server_update_network_state ::
  "(bytes \<Rightarrow> hash256) \<Rightarrow> network_state \<Rightarrow> stratum_server \<Rightarrow> stratum_server" where
  "server_update_network_state sha256d state sv =
     sv\<lparr>sv_information := generation_information_new sha256d state\<rparr>"

definition server_make_connection ::
  "(bytes \<Rightarrow> bytes option) \<Rightarrow> int \<Rightarrow> u32 \<Rightarrow> u64 \<Rightarrow> stratum_client res \<times> u32" where
  "server_make_connection sha1 now counter me =
     (case gen_connection_id sha1 now counter me of
        (Inl e, counter') \<Rightarrow> (Inl e, counter')
      | (Inr cid, counter') \<Rightarrow> (Inr (client_new now cid), counter'))"

text \<open>The connection manager of a pool has its server make the connection.\<close>

definition pool_make_connection ::
  "(bytes \<Rightarrow> bytes option) \<Rightarrow> int \<Rightarrow> u32 \<Rightarrow> u64 \<Rightarrow> stratum_client res \<times> u32" where
  "pool_make_connection sha1 now counter me = server_make_connection sha1 now counter me"

section \<open>The outputs after balancing\<close>

lemma rebalance_Inr:
  assumes "rebalance outs t = Some (Inr outs')"
  shows "None \<notin> set outs" "None \<notin> set outs'" "map (kind \<circ> the) outs' = map (kind \<circ> the) outs"
    "total_shares (map the outs') = t \<or> total_shares (map the outs') = 0"
proof -
  show nn: "None \<notin> set outs" using assms by (auto simp: rebalance_def split: if_splits)
  then obtain os where os: "rebalance_loop (map the outs) t = Some os" "outs' = map Some os"
    using assms by (auto simp: rebalance_def)
  then show "None \<notin> set outs'" by auto
  from rebalance_loop_result [OF os(1)]
  have "map kind os = map (kind \<circ> the) outs" and tot: "os = [] \<or> total_shares os = 0 \<or> total_shares os = t"
    by simp_all
  moreover have "map the outs' = os" by (simp add: os comp_def)
  ultimately show "map (kind \<circ> the) outs' = map (kind \<circ> the) outs"
    by (metis map_map)
  show "total_shares (map the outs') = t \<or> total_shares (map the outs') = 0"
    using tot \<open>map the outs' = os\<close> by auto
qed

lemma insert_commitment_Inr:
  "insert_commitment w outs = Inr outs' \<Longrightarrow> \<exists>others. outs' = Some w # others"
  by (auto simp: insert_commitment_def split: list.splits option.splits if_splits)

lemma generate_cases:
  assumes "generate_coinbase_transaction env jm = Some (Inr tx, jm')" "jm_information jm = Some info"
  obtains ins outs where "insert_commitment (gi_witnessCommitment info) (jm_coinbaseOutputs jm) = Inr ins"
    "rebalance ins (ns_coinbaseCoins (gi_networkState info)) = Some (Inr outs)"
    "coinbase_build0 (e_now32 env) (ns_blockHeight (gi_networkState info)) (e_coinbaseId env) outs = Inr tx"
    "jm' = jm\<lparr>jm_coinbaseOutputs := outs\<rparr>"
  using assms unfolding generate_coinbase_transaction_def
  by (simp split: sum.splits option.splits)

text \<open>What is paid: the witness commitment first, and the whole reward unless nobody has a share.\<close>

lemma generated_coinbase:
  assumes "generate_coinbase_transaction env jm = Some (Inr tx, jm')"
    and "jm_information jm = Some info"
  defines "outs \<equiv> jm_coinbaseOutputs jm'"
  shows "\<exists>first others. outs = Some first # others \<and> kind first = kind (gi_witnessCommitment info)"
    and "None \<notin> set outs"
    and "total_shares (map the outs) = ns_coinbaseCoins (gi_networkState info) \<or> total_shares (map the outs) = 0"
    and "coinbase_build0 (e_now32 env) (ns_blockHeight (gi_networkState info)) (e_coinbaseId env) outs = Inr tx"
    and "jm' = jm\<lparr>jm_coinbaseOutputs := outs\<rparr>"
proof -
  obtain ins os where ins: "insert_commitment (gi_witnessCommitment info) (jm_coinbaseOutputs jm) = Inr ins"
    and reb0: "rebalance ins (ns_coinbaseCoins (gi_networkState info)) = Some (Inr os)"
    and tx0: "coinbase_build0 (e_now32 env) (ns_blockHeight (gi_networkState info)) (e_coinbaseId env) os = Inr tx"
    and jm0: "jm' = jm\<lparr>jm_coinbaseOutputs := os\<rparr>"
    using generate_cases [OF assms(1,2)] by blast
  have os: "os = outs" unfolding outs_def jm0 by simp
  note reb = reb0 [unfolded os] and tx = tx0 [unfolded os] and jm' = jm0 [unfolded os]
  note r = rebalance_Inr [OF reb]
  obtain others where "ins = Some (gi_witnessCommitment info) # others"
    using insert_commitment_Inr [OF ins] by blast
  then have "map (kind \<circ> the) outs = kind (gi_witnessCommitment info) # map (kind \<circ> the) others"
    using r(3) by simp
  then obtain out rest where "outs = out # rest" "kind (the out) = kind (gi_witnessCommitment info)"
    by (auto simp: map_eq_Cons_conv)
  with r(2) show "\<exists>first others. outs = Some first # others \<and> kind first = kind (gi_witnessCommitment info)"
    by (cases out) auto
  show "None \<notin> set outs" by (rule r(2))
  show "total_shares (map the outs) = ns_coinbaseCoins (gi_networkState info) \<or> total_shares (map the outs) = 0"
    by (rule r(4))
  show "coinbase_build0 (e_now32 env) (ns_blockHeight (gi_networkState info)) (e_coinbaseId env) outs = Inr tx"
    by (rule tx)
  show "jm' = jm\<lparr>jm_coinbaseOutputs := outs\<rparr>" by (rule jm')
qed

section \<open>After a new block\<close>

definition fresh_job :: "'j env \<Rightarrow> job_manager \<Rightarrow> stratum_job \<Rightarrow> bool" where
  "fresh_job env jm job \<longleftrightarrow>
     jm_information jm = Some (job_information job) \<and> job_coinbase job = jm_coinbase jm \<and>
     job_hasher job = e_hasher env"

lemma send_job_forced:
  assumes "send_job env True \<lparr>se_manager = jm, se_client = clear_jobs c\<rparr> = (Inr (), s)"
  shows "\<exists>job n. sc_jobs (se_client s) = [job] \<and> fresh_job env jm job \<and> se_manager s = jm\<lparr>jm_jobCounter := n\<rparr>"
proof -
  let ?s0 = "\<lparr>se_manager = jm, se_client = clear_jobs c\<rparr>"
  obtain r s' where run: "current_job env True ?s0 = (r, s')" by fastforce
  from send_job_frame [OF run] assms
  have frame: "se_manager s = se_manager s'" "same_jobs (se_client s') (se_client s)"
    by (simp_all add: frame_def)
  from run show ?thesis
  proof (cases rule: current_job_cases)
    case (failed e)
    with run assms show ?thesis by (simp add: send_job_def op_bind_def)
  next
    case (made job d)
    then obtain x where x: "create_job env (sc_currentDiff d) x jm = (Inr job, se_manager s')" by auto
    from made have "sc_jobs (se_client s) = [job]"
      using frame by (simp add: same_jobs_def clear_jobs_def)
    with create_job_Inr [OF x] frame show ?thesis by (auto simp: fresh_job_def)
  qed simp
qed

lemma fresh_job_counter [simp]: "fresh_job env (jm\<lparr>jm_jobCounter := n\<rparr>) job = fresh_job env jm job"
  by (simp add: fresh_job_def)

lemma send_new_jobs_forced:
  "send_new_jobs env True jm clients = (Inr (), jm', clients') \<Longrightarrow>
   (\<exists>n. jm' = jm\<lparr>jm_jobCounter := n\<rparr>) \<and>
   length clients' = length clients \<and> (\<forall>c \<in> set clients'. \<exists>job. sc_jobs c = [job] \<and> fresh_job env jm job)"
proof (induction clients arbitrary: jm jm' clients')
  case Nil
  then show ?case by (auto intro: exI [of _ "jm_jobCounter jm"])
next
  case (Cons c cs)
  obtain r s where first: "send_job env True \<lparr>se_manager = jm, se_client = clear_jobs c\<rparr> = (r, s)" by fastforce
  with Cons.prems have r: "r = Inr ()" by (cases r) auto
  obtain cs' where rest: "send_new_jobs env True (se_manager s) cs = (Inr (), jm', cs')"
    and clients': "clients' = se_client s # cs'"
    using Cons.prems first r by (auto split: prod.splits)
  from send_job_forced [OF first [unfolded r]] obtain job n where
    job: "sc_jobs (se_client s) = [job]" "fresh_job env jm job" "se_manager s = jm\<lparr>jm_jobCounter := n\<rparr>" by blast
  from Cons.IH [OF rest] job show ?case by (auto simp: clients')
qed

lemma then_update_work_cases:
  assumes "then_update_work env force jm p = Some (Inr (), p')"
  obtains outs tx jm2 jm3 where "update_coinbase_outputs0 jm = Some (Inr (), jm\<lparr>jm_coinbaseOutputs := outs\<rparr>)"
    "generate_coinbase_transaction env (jm\<lparr>jm_coinbaseOutputs := outs\<rparr>) = Some (Inr tx, jm2)"
    "send_new_jobs env force (jm2\<lparr>jm_coinbase := Some tx\<rparr>) (po_clients p) = (Inr (), jm3, po_clients p')"
    "po_manager p' = jm3"
proof -
  obtain jm1 where up: "update_coinbase_outputs0 jm = Some (Inr (), jm1)"
    and forced: "update_work_forced env force (p\<lparr>po_manager := jm1\<rparr>) = Some (Inr (), p')"
    using assms by (auto simp: then_update_work_def split: option.splits sum.splits)
  obtain outs where jm1: "jm1 = jm\<lparr>jm_coinbaseOutputs := outs\<rparr>"
    using up by (auto simp: update_coinbase_outputs0_def Let_def split: list.splits option.splits sum.splits)
  obtain tx jm2 where gen: "generate_coinbase_transaction env jm1 = Some (Inr tx, jm2)"
    and send: "(case send_new_jobs env force (jm2\<lparr>jm_coinbase := Some tx\<rparr>) (po_clients p) of
      (r, jm', clients) \<Rightarrow> (r, p\<lparr>po_manager := jm', po_clients := clients\<rparr>)) = (Inr (), p')"
    using forced by (auto simp: update_work_forced_def split: option.splits sum.splits prod.splits)
  from send obtain jm3 where "send_new_jobs env force (jm2\<lparr>jm_coinbase := Some tx\<rparr>) (po_clients p) = (Inr (), jm3, po_clients p')"
    "po_manager p' = jm3" by (auto split: prod.splits)
  with up gen jm1 show ?thesis by (intro that) auto
qed

lemma update_work_new_block:
  assumes "update_work env info p = Some (Inr (), p')"
    and "jm_information (po_manager p) = Some old"
    and "ns_differs (gi_networkState info) (gi_networkState old)"
  shows "length (po_clients p') = length (po_clients p) \<and>
    (\<forall>c \<in> set (po_clients p'). \<exists>job tx. sc_jobs c = [job] \<and> job_information job = info \<and>
        job_coinbase job = Some tx \<and> jm_coinbase (po_manager p') = Some tx)"
proof -
  have "then_update_work env True ((po_manager p)\<lparr>jm_information := Some info\<rparr>) p = Some (Inr (), p')"
    using assms by (simp add: update_work_def)
  then show ?thesis
  proof (cases rule: then_update_work_cases)
    case (1 outs tx jm2 jm3)
    have jm2: "jm_information jm2 = Some info"
      using generate_cases [OF 1(2), of info] by fastforce
    from send_new_jobs_forced [OF 1(3)] 1(4) jm2 show ?thesis
      by (auto simp: fresh_job_def)
  qed
qed

section \<open>Well-formed work of a pool\<close>

definition pool_ok :: "pool \<Rightarrow> bool" where
  "pool_ok p \<longleftrightarrow> manager_ok (po_manager p) \<and> list_all client_ok (po_clients p)"

lemma send_new_jobs_ok:
  "send_new_jobs env force jm cs = (r, jm', cs') \<Longrightarrow> manager_ok jm \<Longrightarrow> list_all client_ok cs \<Longrightarrow>
   manager_ok jm' \<and> list_all client_ok cs'"
proof (induction cs arbitrary: jm r jm' cs')
  case (Cons c cs)
  let ?c = "if force then clear_jobs c else c"
  obtain q s where run: "send_job env force \<lparr>se_manager = jm, se_client = ?c\<rparr> = (q, s)" by fastforce
  have "client_ok (clear_jobs c)" by (simp add: client_ok_def) (simp add: clear_jobs_def)
  with Cons.prems have "work_ok \<lparr>se_manager = jm, se_client = ?c\<rparr>" by (simp add: work_ok_def)
  from keepsD [OF work_ok_send_job this] run have ok: "work_ok s" by (metis snd_conv)
  show ?case
  proof (cases q)
    case (Inl e)
    with Cons.prems run ok show ?thesis by (auto simp: work_ok_def Let_def)
  next
    case (Inr u)
    obtain r2 jm2 cs2 where rest: "send_new_jobs env force (se_manager s) cs = (r2, jm2, cs2)" by (metis prod_cases3)
    from Cons.IH [OF rest] Cons.prems ok have "manager_ok jm2 \<and> list_all client_ok cs2" by (simp add: work_ok_def)
    with Cons.prems run Inr rest ok show ?thesis by (auto simp: work_ok_def Let_def)
  qed
qed simp

lemma update_work_ok:
  assumes "pool_ok p" "state_ok (gi_networkState info)" "update_work env info p = Some (r, p')"
  shows "pool_ok p'"
proof (cases "jm_information (po_manager p)")
  case None
  with assms show ?thesis by (simp add: update_work_def)
next
  case (Some old)
  define jm where "jm = (po_manager p)\<lparr>jm_information := Some info\<rparr>"
  have jm: "manager_ok jm" using assms(2) by (simp add: jm_def manager_ok_def)
  obtain force where upd: "then_update_work env force jm p = Some (r, p')"
    using assms(3) Some by (auto simp: update_work_def jm_def Let_def)
  have same: "jm_information jm1 = jm_information jm" if "update_coinbase_outputs0 jm = Some (q, jm1)" for q jm1
    using that by (auto simp: update_coinbase_outputs0_def Let_def split: list.splits option.splits sum.splits)
  have gen: "jm_information jm2 = jm_information jm1" if "generate_coinbase_transaction env jm1 = Some (q, jm2)" for q jm1 jm2
    using that by (auto simp: generate_coinbase_transaction_def split: option.splits sum.splits)
  have ok: "manager_ok m" if "jm_information m = jm_information jm" for m
    using jm that by (simp add: manager_ok_def)
  obtain q jm1 where out: "update_coinbase_outputs0 jm = Some (q, jm1)"
    using upd by (cases "update_coinbase_outputs0 jm") (auto simp: then_update_work_def)
  note jm1 = same [OF out]
  show ?thesis
  proof (cases q)
    case (Inl e)
    with out upd jm1 ok assms(1) show ?thesis by (auto simp: then_update_work_def pool_ok_def)
  next
    case (Inr u)
    with out upd have forced: "update_work_forced env force (p\<lparr>po_manager := jm1\<rparr>) = Some (r, p')"
      by (simp add: then_update_work_def)
    then obtain q2 jm2 where make: "generate_coinbase_transaction env jm1 = Some (q2, jm2)"
      by (cases "generate_coinbase_transaction env jm1") (auto simp: update_work_forced_def)
    have jm2: "jm_information jm2 = jm_information jm" using gen [OF make] jm1 by simp
    show ?thesis
    proof (cases q2)
      case (Inl e)
      with forced make jm2 ok assms(1) show ?thesis by (auto simp: update_work_forced_def pool_ok_def)
    next
      case (Inr tx)
      obtain q3 jm3 cs where send: "send_new_jobs env force (jm2\<lparr>jm_coinbase := Some tx\<rparr>) (po_clients p) = (q3, jm3, cs)"
        by (metis prod_cases3)
      have "manager_ok (jm2\<lparr>jm_coinbase := Some tx\<rparr>)" using jm2 by (intro ok) simp
      from send_new_jobs_ok [OF send this] assms(1) have "manager_ok jm3 \<and> list_all client_ok cs"
        by (simp add: pool_ok_def)
      with forced make Inr send show ?thesis by (auto simp: update_work_forced_def pool_ok_def)
    qed
  qed
qed

text \<open>
  Whatever well-formed states of the network are queued for a pool, and whether its worker takes
  all of them or fails half way, every miner is left with jobs on well-formed states, of which none
  asks for more than its block.
\<close>

lemma queued_updates_well_formed:
  assumes "pool_ok p" "\<forall>info \<in> set (q_items q). state_ok (gi_networkState info)"
    and "work_updater_main envs q p = Some (r, q', p')"
  shows "pool_ok p'"
  using assms
proof (induction envs arbitrary: q p)
  case (Cons env envs)
  show ?case
  proof (cases "q_semaphore q = 0 \<or> q_items q = []")
    case True
    with Cons.prems show ?thesis
      by (auto simp: wait_for_message_def sem_wait_def take_first_def split: if_splits)
  next
    case False
    then obtain info rest where items: "q_items q = info # rest" by (cases "q_items q") auto
    let ?q = "q\<lparr>q_semaphore := q_semaphore q - 1, q_items := rest\<rparr>"
    have wait: "wait_for_message q = Some (Inr info, ?q)"
      using False items by (simp add: wait_for_message_eq)
    have info: "state_ok (gi_networkState info)" using Cons.prems(2) items by simp
    obtain r2 p2 where upd: "update_work env info p = Some (r2, p2)"
      using Cons.prems(3) wait by (cases "update_work env info p") auto
    have "pool_ok p2" by (rule update_work_ok [OF Cons.prems(1) info upd])
    with Cons.IH [of p2 ?q] Cons.prems wait upd items show ?thesis by (cases r2) auto
  qed
qed simp

end
