(* ===== verification/Instances.thy ===== *)
theory Instances
  imports Relay Pools
begin

text \<open>
  Concrete parameters on which the hypotheses of the properties hold: a JSON library of trees, a
  hash, and a few small states.
\<close>

section \<open>A JSON library of trees\<close>

text \<open>
  Values as trees and the functions of \<^typ>\<open>'j json_api\<close> on them: an instance on which the
  hypotheses about the JSON library hold. Text is not parsed here.
\<close>

datatype jtree =
    JNull | JBool bool | JInt u32 | JUint u64 | JDouble dbl | JString string
  | JArray "jtree list" | JObject "(string \<times> jtree) list"

definition tree_init :: "jtree list \<Rightarrow> jtree" where
  "tree_init xs =
     (if list_all (\<lambda>x. case x of JArray [JString k, v] \<Rightarrow> True | _ \<Rightarrow> False) xs
      then JObject (map (\<lambda>x. case x of JArray [JString k, v] \<Rightarrow> (k, v) | _ \<Rightarrow> ('''', JNull)) xs)
      else JArray xs)"

definition tree_api :: "jtree json_api" where
  "tree_api =
     \<lparr>j_parse = (\<lambda>_. Inl Json_exception),
      j_dump = (\<lambda>_. ''''),
      j_is_object = (\<lambda>v. case v of JObject _ \<Rightarrow> True | _ \<Rightarrow> False),
      j_is_array = (\<lambda>v. case v of JArray _ \<Rightarrow> True | _ \<Rightarrow> False),
      j_is_string = (\<lambda>v. case v of JString _ \<Rightarrow> True | _ \<Rightarrow> False),
      j_is_null = (\<lambda>v. v = JNull),
      j_member = (\<lambda>v k. case v of JObject kvs \<Rightarrow> map_of kvs k | _ \<Rightarrow> None),
      j_size = (\<lambda>v. case v of JArray xs \<Rightarrow> length xs | JObject kvs \<Rightarrow> length kvs | JNull \<Rightarrow> 0 | _ \<Rightarrow> 1),
      j_at = (\<lambda>v i. case v of JArray xs \<Rightarrow> xs ! i | _ \<Rightarrow> JNull),
      j_get_int = (\<lambda>v. case v of JInt n \<Rightarrow> Inr n | _ \<Rightarrow> Inl Json_exception),
      j_get_string = (\<lambda>v. case v of JString s \<Rightarrow> Inr s | _ \<Rightarrow> Inl Json_exception),
      j_get_strings = (\<lambda>v. case v of
          JArray xs \<Rightarrow> rmap (\<lambda>x. case x of JString s \<Rightarrow> Inr s | _ \<Rightarrow> Inl Json_exception) xs
        | _ \<Rightarrow> Inl Json_exception),
      j_get_uint64 = (\<lambda>v. case v of JUint n \<Rightarrow> Inr n | _ \<Rightarrow> Inl Json_exception),
      j_get_uint32 = (\<lambda>v. case v of JUint n \<Rightarrow> Inr (ucast n) | JInt n \<Rightarrow> Inr n | _ \<Rightarrow> Inl Json_exception),
      j_elements = (\<lambda>v. case v of JArray xs \<Rightarrow> xs | JNull \<Rightarrow> [] | _ \<Rightarrow> [v]),
      j_null = JNull, j_bool = JBool, j_int = JInt, j_uint = JUint, j_double = JDouble,
      j_string = JString, j_array = JArray, j_init = tree_init,
      j_set = (\<lambda>v k x. case v of JObject kvs \<Rightarrow> JObject ((k, x) # kvs) | _ \<Rightarrow> v)\<rparr>"

lemma tree_api_reads: "json_reads tree_api"
  by (simp add: json_reads_def tree_api_def)

definition toy_hash :: "bytes \<Rightarrow> hash256" where
  "toy_hash d = Hash256 (take 32 (d @ replicate 32 0))"

lemma toy_hash_ok: "hasher_ok toy_hash"
  by (auto simp: hasher_ok_def toy_hash_def wf_hash_def)

text \<open>
  Text for the messages of the bus: of subscriptions every character after a mark and an end after every
  string; of a message the text itself. Any text is read as both.
\<close>

definition subs_text :: "string list \<Rightarrow> string" where
  "subs_text subs = concat (map (\<lambda>s. concat (map (\<lambda>c. [CHR ''c'', c]) s) @ ''e'') subs)"

fun read_subs :: "string \<Rightarrow> string \<Rightarrow> string list" where
  "read_subs acc [] = []"
| "read_subs acc [x] = (if x = CHR ''e'' then [acc] else [])"
| "read_subs acc (x # y # xs) = (if x = CHR ''e'' then acc # read_subs [] (y # xs) else read_subs (acc @ [y]) xs)"

lemma read_subs_end: "read_subs acc (CHR ''e'' # xs) = acc # read_subs [] xs"
  by (cases xs) simp_all

lemma read_subs_string:
  "read_subs acc (concat (map (\<lambda>c. [CHR ''c'', c]) s) @ CHR ''e'' # xs) = (acc @ s) # read_subs [] xs"
  by (induction s arbitrary: acc) (simp_all add: read_subs_end)

lemma read_subs_text: "read_subs [] (subs_text subs) = subs"
  by (induction subs) (simp_all add: subs_text_def read_subs_string)

definition subs_api :: "jtree json_api" where
  "subs_api = tree_api
     \<lparr>j_dump := (\<lambda>v. case v of
          JObject [(_, JArray xs)] \<Rightarrow> subs_text (map (\<lambda>x. case x of JString s \<Rightarrow> s | _ \<Rightarrow> '''') xs)
        | JObject [(_, JString text)] \<Rightarrow> text
        | JObject [_, (_, JString text)] \<Rightarrow> text
        | _ \<Rightarrow> ''''),
      j_parse := (\<lambda>bs. Inr (JObject [(''subscriptions'', JArray (map JString (read_subs [] (bytes_str bs)))),
        (''message'', JString (bytes_str bs))]))\<rparr>"

lemma rmap_strings: "rmap (\<lambda>x. case x of JString s \<Rightarrow> Inr s | _ \<Rightarrow> Inl Json_exception) (map JString ss) = Inr ss"
  by (induction ss) simp_all

lemma subs_api_subscriptions: "json_subscriptions subs_api"
proof -
  have "map (\<lambda>x. case x of JString s \<Rightarrow> s | _ \<Rightarrow> '''') (map JString subs) = subs" for subs
    by (induction subs) simp_all
  then show ?thesis
    by (simp add: json_subscriptions_def subs_api_def tree_api_def tree_init_def j_pair_def rmap_strings
        read_subs_text comp_def)
qed

section \<open>A job\<close>

definition some_info :: generation_information where
  "some_info = generation_information_new toy_hash
     (network_state_not_before 5 1 2 3 4 hash256_zero hash256_diff1 100)"

definition some_tx :: coinbase_tx where
  "some_tx = \<lparr>tx_raw = [1, 2, 3, 4], part1Size = 1, part2Start = 3\<rparr>"

definition some_job :: stratum_job where
  "some_job = stratum_job_new 7 1 (Fin 1) some_info (Some some_tx) (\<lambda>d. Inr (toy_hash d))"

end
