(* ===== verification/Mining_Properties.thy ===== *)
theory Mining_Properties
  imports Instances Merkle Blocks
begin

text \<open>
  What makes the mining library correct: balancing of the coinbase outputs, merkle trees, the
  encodings of the block chain's formats, and the arithmetic of hashes. Each property that has
  hypotheses is followed by an instance of it.
\<close>

section \<open>Coinbase outputs\<close>


definition half_outputs :: coinbase_outputs where
  "half_outputs =
     [Some \<lparr>coins = 0, kind = Coinbase_commitment []\<rparr>,
      Some \<lparr>coins = 10000000000, kind = Coinbase_output hash160_zero P2PKH\<rparr>]"

lemma half_outputs_rebalanced:
  "rebalance half_outputs 5000000000 = Some (Inr
     [Some \<lparr>coins = 0, kind = Coinbase_commitment []\<rparr>,
      Some \<lparr>coins = 5000000000, kind = Coinbase_output hash160_zero P2PKH\<rparr>])"
  by (simp add: rebalance_def half_outputs_def rebalance_loop.simps rebalance_pass_def Let_def
      total_shares_def correct_output_def correction_precision_def)


text \<open>
  C17. Balancing never returns when the reward is above the sum of the shares by less than a
  millionth of it: the factor is then exactly one, and the method calls itself with the same outputs
  for ever.
\<close>

theorem rebalance_near_reward_never_returns:
  assumes "no_wrap outs t" "0 < coin_sum outs" "coin_sum outs < unat t"
    and "(unat t - coin_sum outs) * 1000000 < coin_sum outs"
  shows "rebalance (map Some outs) t = None"
proof -
  have f: "factor outs t = 1000000"
  proof -
    have "unat t * 1000000 = 1000000 * coin_sum outs + (unat t - coin_sum outs) * 1000000"
      using assms(3) by (simp add: algebra_simps diff_mult_distrib)
    then show ?thesis using assms(2,4) unfolding factor_def by (simp add: div_add1_eq)
  qed
  have sum: "unat (total_shares outs) = coin_sum outs"
    using assms(1) unat_total_shares by (simp add: no_wrap_def)
  have "correct_output (t * correction_precision div total_shares outs) out = out" if "out \<in> set outs" for out
  proof -
    have "coins (correct_output (t * correction_precision div total_shares outs) out) = coins out"
      using unat_corrected [OF assms(1) that] f by (simp add: word_unat_eq_iff)
    then show ?thesis by (simp add: correct_output_def)
  qed
  then have "corrected outs t = outs" by (simp add: corrected_def map_idI)
  moreover have "outs \<noteq> []" using assms(2) by auto
  moreover have "total_shares outs \<noteq> 0" "total_shares outs \<noteq> t" using sum assms(2,3) by auto
  ultimately have "rebalance_loop outs t = None"
    by (intro rebalance_loop_stuck) (simp add: stuck_def)
  then show ?thesis by (simp add: rebalance_def comp_def image_iff)
qed

theorem rebalance_near_reward_never_returns_witness:
  "rebalance (map Some [\<lparr>coins = 5000000000, kind = Coinbase_output hash160_zero P2PKH\<rparr>]) 5000000001 = None"
  by (rule rebalance_near_reward_never_returns) (simp_all add: no_wrap_def)

text \<open>
  C16. Without overflow, balancing fails to return exactly when after some number of passes the
  outputs no longer change although they do not add up to the reward; otherwise it returns, and the
  sum of what it hands out is at most the reward.
\<close>

theorem rebalance_returns_or_gets_stuck:
  assumes "no_wrap outs t"
  shows "(rebalance_loop outs t = None \<longleftrightarrow> (\<exists>n. stuck (passes n outs t) t)) \<and>
    (\<forall>outs'. rebalance_loop outs t = Some outs' \<longrightarrow> coin_sum outs' \<le> unat t)"
  using rebalance_loop_diverges_iff [OF assms] rebalance_loop_bound [OF _ assms] by blast

theorem rebalance_returns_or_gets_stuck_witness:
  "no_wrap (map the half_outputs) 5000000000 \<and>
   (rebalance_loop (map the half_outputs) 5000000000 = None \<longleftrightarrow>
     (\<exists>n. stuck (passes n (map the half_outputs) 5000000000) 5000000000))"
proof -
  have "no_wrap (map the half_outputs) 5000000000"
    by (simp add: no_wrap_def half_outputs_def)
  then show ?thesis using rebalance_returns_or_gets_stuck by blast
qed

section \<open>Merkle trees\<close>

text \<open>
  C12. The recursion over a blob of transaction ids computes the root of the merkle tree over them,
  for every number of transactions but zero: as many nested calls as there are transactions are
  enough.
\<close>

theorem merkle_root_is_tree_root:
  assumes "hasher_ok sha256d" "txs \<noteq> []" "list_all wf_hash txs" "length txs \<le> fuel"
  shows "merkle_root_from_txids sha256d fuel txs = Some (Inr (tree_root sha256d txs))"
  using merkle_blob_tree [OF assms]
  unfolding merkle_root_from_txids_def Let_def blob_foldl append_Nil .

theorem merkle_root_is_tree_root_witness:
  "merkle_root_from_txids toy_hash 3 [toy_hash [1], toy_hash [2], toy_hash [3]] =
     Some (Inr (tree_root toy_hash [toy_hash [1], toy_hash [2], toy_hash [3]]))"
  by (rule merkle_root_is_tree_root) (simp_all add: toy_hash_ok hasher_okD)

text \<open>
  C13. The branch of the first transaction leads to the root over all of them, whatever that
  transaction is: a pool can compute the branch once and put in the coinbase of each miner.
\<close>

theorem merkle_branch_leads_to_root:
  assumes "hasher_ok sha256d" "list_all wf_hash (coinbase # txs)" "Suc (length txs) \<le> fuel"
  shows "merkle_root_from_txids sha256d fuel (coinbase # txs) =
    Some (Inr (branch_get_root sha256d (first_branch sha256d (placeholder # txs)) coinbase))"
proof -
  have "branch_get_root sha256d (first_branch sha256d (placeholder # txs)) coinbase =
      tree_root sha256d (coinbase # txs)"
    unfolding branch_get_root_def first_branch_leaf [of _ placeholder _ coinbase]
    by (rule branch_of_first_leaf)
  moreover have "merkle_blob sha256d fuel (blob (coinbase # txs)) = Some (Inr (tree_root sha256d (coinbase # txs)))"
    using assms by (intro merkle_blob_tree) simp_all
  ultimately show ?thesis
    unfolding merkle_root_from_txids_def Let_def blob_foldl append_Nil by simp
qed

theorem merkle_branch_leads_to_root_witness:
  "merkle_root_from_txids toy_hash 3 [toy_hash [7], toy_hash [2], toy_hash [3]] =
     Some (Inr (branch_get_root toy_hash (first_branch toy_hash [hash256_zero, toy_hash [2], toy_hash [3]]) (toy_hash [7])))"
  by (rule merkle_branch_leads_to_root) (simp_all add: toy_hash_ok hasher_okD)

section \<open>Encodings\<close>





text \<open>
  A number in a coinbase script (the height, the time) is written with the sign bit clear, so
  that it reads back as the same number, in at most nine bytes.
\<close>

lemma script_number_reads_back: "script_num (from_uint n) = int (unat n) \<and> length (from_uint n) \<le> 9"
  using script_num_positive [OF from_uint_nonempty last_from_uint, of n] length_from_uint [of n]
  by (simp add: le_nat_from_uint)

section \<open>Hashes as numbers\<close>

text \<open>C30. The comparisons of hashes, byte by byte, are the comparisons of the 256-bit numbers they stand for.\<close>

theorem hash_comparisons_numeric:
  assumes "wf_hash a" "wf_hash b"
  shows "(hash256_le a b \<longleftrightarrow> be_nat (raw256 a) \<le> be_nat (raw256 b)) \<and>
    (hash256_lt a b \<longleftrightarrow> be_nat (raw256 a) < be_nat (raw256 b)) \<and>
    (hash256_eq a b \<longleftrightarrow> be_nat (raw256 a) = be_nat (raw256 b))"
proof -
  have "hash256_le a b \<longleftrightarrow> be_nat (raw256 a) \<le> be_nat (raw256 b)"
    "hash256_le b a \<longleftrightarrow> be_nat (raw256 b) \<le> be_nat (raw256 a)"
    using hash256_numeric assms by blast+
  then show ?thesis using hash256_order assms by (metis nle_le not_le)
qed

theorem hash_comparisons_numeric_witness:
  "hash256_lt hash256_zero hash256_diff1 \<longleftrightarrow> be_nat (raw256 hash256_zero) < be_nat (raw256 hash256_diff1)"
proof -
  have "wf_hash hash256_zero" by (simp add: wf_hash_def hash256_zero_def)
  then show ?thesis using hash_comparisons_numeric [OF _ wf_diff1] by blast
qed

text \<open>
  C31. The quotient of two hashes, computed from the four leading bytes of each in \<open>double\<close>s, is
  within 2 to the power of -23 of the true quotient, relative to it.
\<close>

theorem hash_quotient_accurate:
  assumes "wf_hash a" "wf_hash b" "0 < be_nat (raw256 b)"
  shows "\<exists>q. hash256_div a b = Fin q \<and>
    \<bar>q - of_nat (be_nat (raw256 a)) / of_nat (be_nat (raw256 b))\<bar>
      \<le> of_nat (be_nat (raw256 a)) / of_nat (be_nat (raw256 b)) * (1 / 2 ^ 23)"
  using hash256_div_error [OF assms] .

lemma diff1_nonzero: "0 < be_nat (raw256 hash256_diff1)"
proof -
  have "truncated hash256_diff1 \<le> be_nat (raw256 hash256_diff1)" by (rule truncated_le) simp
  moreover have "0 < truncated hash256_diff1" by (rule truncated_pos) (simp add: diff1_window)
  ultimately show ?thesis by simp
qed

theorem hash_quotient_accurate_witness:
  "\<exists>q. hash256_div hash256_diff1 hash256_diff1 = Fin q \<and> \<bar>q - 1\<bar> \<le> 1 / 2 ^ 23"
  using hash_quotient_accurate [OF wf_diff1 wf_diff1 diff1_nonzero] diff1_nonzero by simp

end
