(* ===== verification/Stratum_Properties.thy ===== *)
theory Stratum_Properties
  imports Instances
begin

text \<open>
  What makes the stratum server correct: a block that a miner finds is submitted, shares are judged
  by the difficulty of their job, a new block replaces the work of every miner, and the coinbase
  pays the whole reward.
\<close>

section \<open>Solutions\<close>

text \<open>The block a solution stands for.\<close>

definition solved_block ::
  "(bytes \<Rightarrow> hash256) \<Rightarrow> stratum_job \<Rightarrow> coinbase_tx \<Rightarrow> u32 \<Rightarrow> u32 \<Rightarrow> u32 \<Rightarrow> u32 \<Rightarrow> submission" where
  "solved_block sha job tx time nonce n1 n2 =
     \<lparr>sub_header = solution_header sha (job_information job) (solution_coinbase tx n1 n2) time nonce,
      sub_coinbase = solution_coinbase tx n1 n2,
      sub_transactions = gi_transactions (job_information job)\<rparr>"

text \<open>The line of a solution of the target, when the submitter takes the block.\<close>

lemma block_line_accepted:
  assumes "j_parse (e_json env) packet = Inr payload" "j_is_object (e_json env) payload"
    and "parse_message (e_json env) payload = Inr (Some (Mining_submit i user (job_id job) n2 time nonce))"
    and "session_inv s" "job \<in> set (sc_jobs (se_client s))" "job_ok job" "job_coinbase job = Some tx"
    and "header_hash (job_hasher job) (sub_header
           (solved_block (e_sha256d env) job tx time nonce (extra_nonce1 (se_client s)) n2)) = Inr hash"
    and "wf_hash hash" "be_nat (raw256 hash) \<le> be_nat (raw256 (ns_miningTarget (job_state job)))"
    and "e_submit env (solved_block (e_sha256d env) job tx time nonce (extra_nonce1 (se_client s)) n2) = Inr ()"
  shows "\<exists>s'. on_receive env packet s = (Inr (), s') \<and>
    sc_submitted (se_client s') = sc_submitted (se_client s) @
      [solved_block (e_sha256d env) job tx time nonce (extra_nonce1 (se_client s)) n2] \<and>
    sc_acceptedShares (se_client s') = dadd (sc_acceptedShares (se_client s)) (job_diff job) \<and>
    length (sc_sent (se_client s')) = length (sc_sent (se_client s)) + 1"
proof -
  let ?c = "se_client s"
  have "get_active_job (job_id job) ?c = Some job"
    using assms(4,5) get_active_job_iff [of ?c] by (simp add: session_inv_def ids_inv_def)
  moreover have "check_solution (e_sha256d env) (e_submit env) job time nonce (extra_nonce1 ?c) n2 =
      ([solved_block (e_sha256d env) job tx time nonce (extra_nonce1 ?c) n2], Inr True)"
    unfolding solved_block_def
    by (rule check_solution_block) (use assms in \<open>simp_all add: solved_block_def\<close>)
  ultimately show ?thesis
    using assms(1-3)
    by (simp add: on_receive_def catch_json_def receive_body_def note_software_def process_call_def
        on_client_def op_bind_def process_submit_def Let_def send_reply_def send_reply_error_def
        client_send_def accepted_share_def)
qed

text \<open>The same for a daemon that takes every block.\<close>

lemma found_block_is_submitted:
  assumes "j_parse (e_json env) packet = Inr payload" "j_is_object (e_json env) payload"
    and "parse_message (e_json env) payload = Inr (Some (Mining_submit i user (job_id job) n2 time nonce))"
    and "session_inv s" "job \<in> set (sc_jobs (se_client s))" "job_ok job" "job_coinbase job = Some tx"
    and "header_hash (job_hasher job) (sub_header
           (solved_block (e_sha256d env) job tx time nonce (extra_nonce1 (se_client s)) n2)) = Inr hash"
    and "wf_hash hash" "be_nat (raw256 hash) \<le> be_nat (raw256 (ns_miningTarget (job_state job)))"
    and "\<forall>block. e_submit env block = Inr ()"
  shows "\<exists>s'. on_receive env packet s = (Inr (), s') \<and>
    sc_submitted (se_client s') = sc_submitted (se_client s) @
      [solved_block (e_sha256d env) job tx time nonce (extra_nonce1 (se_client s)) n2] \<and>
    sc_acceptedShares (se_client s') = dadd (sc_acceptedShares (se_client s)) (job_diff job) \<and>
    length (sc_sent (se_client s')) = length (sc_sent (se_client s)) + 1"
  by (rule block_line_accepted [OF assms(1-10) spec [OF assms(11)]])

text \<open>
  C10. A solution is submitted as a block exactly when its hash, as a number, is at most the target
  of the network; the share itself is rejected exactly when its difficulty is below the job's.
\<close>

theorem solution_submitted_iff_below_target:
  assumes "job_coinbase job = Some tx" "wf_hash hash" "wf_hash (ns_miningTarget (job_state job))"
    and "header_hash (job_hasher job) (sub_header (solved_block sha job tx time nonce n1 n2)) = Inr hash"
    and "\<forall>block. submitBlock block = Inr ()"
  shows "check_solution sha submitBlock job time nonce n1 n2 =
    (if be_nat (raw256 hash) \<le> be_nat (raw256 (ns_miningTarget (job_state job)))
     then [solved_block sha job tx time nonce n1 n2] else [],
     if dless (share_mining_diff hash) (job_diff job) then Inl (Validation_error ''low diff'')
     else Inr (be_nat (raw256 hash) \<le> be_nat (raw256 (ns_miningTarget (job_state job)))))"
proof -
  have "hash256_le hash (ns_miningTarget (job_state job)) \<longleftrightarrow>
      be_nat (raw256 hash) \<le> be_nat (raw256 (ns_miningTarget (job_state job)))"
    by (rule hash256_numeric) fact+
  with assms show ?thesis
    by (auto simp: check_solution_def job_tx_def solved_block_def Let_def)
qed

text \<open>
  C11. The coinbase a solution is checked with, put together from the two parts the miner was sent and
  the two nonces, is the transaction that would have been built with these nonces.
\<close>

theorem coinbase_reassembled:
  assumes "coinbase_build0 now height ident outs = Inr tx"
  shows "\<exists>tx'. coinbase_build now height n1 n2 ident outs = Inr tx' \<and> tx_raw tx' = solution_coinbase tx n1 n2"
proof -
  have outs: "None \<notin> set outs"
    using assms coinbase_build_null by (fastforce simp: coinbase_build0_def)
  note parts = coinbase_parts [OF outs, of now height 0 0 ident tx]
  have "part1 tx = tx_head now height ident" "part2 tx = tx_tail ident outs"
    using parts assms by (simp_all add: coinbase_build0_def)
  then show ?thesis by (simp add: coinbase_build_eq [OF outs])
qed

section \<open>Instances\<close>

text \<open>
  A miner that holds a job on a target that every hash of the toy hash function meets, and a JSON
  library that reads every packet as one submission.
\<close>

definition easy_target :: hash256 where "easy_target = Hash256 (replicate 32 255)"

definition easy_info :: generation_information where
  "easy_info = generation_information_new toy_hash
     (network_state_not_before 5 1 2 3 4 hash256_zero easy_target 100)"

definition easy_manager :: job_manager where
  "easy_manager = (job_manager_new (Fin 1))\<lparr>jm_information := Some easy_info, jm_coinbase := Some some_tx\<rparr>"

definition submit_request :: jtree where
  "submit_request = JObject
     [(''id'', JInt 9), (''method'', JString ''mining.submit''),
      (''params'', JArray [JString ''miner'', JString (int2hex 1 False), JString (as_hex (u32_mem 2)),
         JString (int2hex 3 False), JString (int2hex 4 False)])]"

definition easy_env :: "jtree env" where
  "easy_env = \<lparr>e_now = 5, e_json = tree_api\<lparr>j_parse := (\<lambda>_. Inr submit_request)\<rparr>, e_sha256d = toy_hash,
     e_hasher = (\<lambda>d. Inr (toy_hash d)), e_coinbaseId = [], e_submit = (\<lambda>_. Inr ())\<rparr>"

definition easy_job :: stratum_job where
  "easy_job = (case create_job easy_env (Fin 1) (Fin 1) easy_manager of (Inr job, _) \<Rightarrow> job)"

definition easy_session :: session where
  "easy_session = \<lparr>se_manager = easy_manager\<lparr>jm_jobCounter := 1\<rparr>,
     se_client = (client_new 5 [1, 2, 3, 4])\<lparr>sc_jobs := [easy_job], sc_activeJob := Some 0, sc_pooled := True\<rparr>\<rparr>"

lemma easy_created: "create_job easy_env (Fin 1) (Fin 1) easy_manager = (Inr easy_job, easy_manager\<lparr>jm_jobCounter := 1\<rparr>)"
  by (simp add: easy_job_def create_job_def easy_manager_def job_manager_new_def Let_def)

lemma easy_job_fields [simp]:
  "job_id easy_job = 1" "job_coinbase easy_job = Some some_tx" "job_information easy_job = easy_info"
  "job_hasher easy_job = (\<lambda>d. Inr (toy_hash d))"
  using create_job_Inr [OF easy_created]
  by (simp_all add: easy_job_def create_job_def easy_manager_def job_manager_new_def Let_def
      stratum_job_new_def easy_env_def)

lemma easy_state [simp]: "ns_miningTarget (gi_networkState easy_info) = easy_target"
  "ns_previousBlock (gi_networkState easy_info) = hash256_zero"
  by (simp_all add: easy_info_def generation_information_new_def network_state_not_before_def)

lemma wf_easy [simp]: "wf_hash easy_target" "wf_hash hash256_zero"
  by (simp_all add: wf_hash_def easy_target_def hash256_zero_def)

lemma easy_job_ok: "job_ok easy_job"
proof (rule created_job_ok [OF easy_created])
  fix info assume "jm_information easy_manager = Some info"
  then have "info = easy_info" by (simp add: easy_manager_def)
  then show "state_ok (gi_networkState info)"
    by (simp add: easy_info_def generation_information_new_def)
qed

lemma easy_session_inv: "session_inv easy_session"
  by (simp add: session_inv_def easy_session_def jobs_inv_def ids_inv_def)

lemma be_nat_ones: "be_nat (replicate n 255) + 1 = 256 ^ n"
  by (induction n) simp_all

lemma all_below_easy: "wf_hash h \<Longrightarrow> be_nat (raw256 h) \<le> be_nat (raw256 easy_target)"
  using be_nat_bound [of "raw256 h"] be_nat_ones [of 32] by (simp add: wf_hash_def easy_target_def)

lemma easy_hash: "header_hash (job_hasher easy_job) (sub_header (solved_block sha easy_job tx t n n1 n2)) =
    Inr (Hash256 (rev (raw256 (toy_hash (header_mem (sub_header (solved_block sha easy_job tx t n n1 n2)))))))"
  using toy_hash_ok by (simp add: header_hash_def hash256_from_def hash_from_ref_def hasher_ok_def wf_hash_def)

lemma easy_hash_wf: "wf_hash (Hash256 (rev (raw256 (toy_hash bs))))"
  using toy_hash_ok by (simp add: hasher_ok_def wf_hash_def)

lemma easy_parse:
  "j_parse (e_json easy_env) packet = Inr submit_request" "j_is_object (e_json easy_env) submit_request"
  "parse_message (e_json easy_env) submit_request = Inr (Some (Mining_submit 9 ''miner'' (job_id easy_job) 2 3 4))"
proof -
  show "j_parse (e_json easy_env) packet = Inr submit_request" "j_is_object (e_json easy_env) submit_request"
    by (simp_all add: easy_env_def submit_request_def tree_api_def)
  show "parse_message (e_json easy_env) submit_request = Inr (Some (Mining_submit 9 ''miner'' (job_id easy_job) 2 3 4))"
    by (rule parse_submit [where vid = "JInt 9" and vm = "JString ''mining.submit''" and
          ps = "JArray [JString ''miner'', JString (int2hex 1 False), JString (as_hex (u32_mem 2)),
            JString (int2hex 3 False), JString (int2hex 4 False)]"])
      (simp_all add: easy_env_def submit_request_def tree_api_def)
qed

lemma easy_session_fields:
  "easy_job \<in> set (sc_jobs (se_client easy_session))" "sc_submitted (se_client easy_session) = []"
  "e_sha256d easy_env = toy_hash" "\<forall>block. e_submit easy_env block = Inr ()"
  by (simp_all add: easy_session_def easy_env_def client_new_def)

lemma easy_below: "be_nat (raw256 (Hash256 (rev (raw256 (toy_hash bs))))) \<le> be_nat (raw256 (ns_miningTarget (job_state easy_job)))"
  unfolding easy_job_fields(3) easy_state(1) by (rule all_below_easy [OF easy_hash_wf])

theorem solution_submitted_iff_below_target_witness:
  "fst (check_solution toy_hash (\<lambda>_. Inr ()) easy_job 3 4 1 2) = [solved_block toy_hash easy_job some_tx 3 4 1 2]"
proof -
  have target: "wf_hash (ns_miningTarget (job_state easy_job))" by simp
  show ?thesis
    using easy_below
    unfolding solution_submitted_iff_below_target [OF easy_job_fields(2) easy_hash_wf target easy_hash, of "\<lambda>_. Inr ()", simplified]
    by simp
qed

theorem coinbase_reassembled_witness:
  "\<exists>tx tx'. coinbase_build0 5 4 [] [Some \<lparr>coins = 100, kind = Coinbase_output hash160_zero P2PKH\<rparr>] = Inr tx \<and>
     coinbase_build 5 4 1 2 [] [Some \<lparr>coins = 100, kind = Coinbase_output hash160_zero P2PKH\<rparr>] = Inr tx' \<and>
     tx_raw tx' = solution_coinbase tx 1 2"
proof -
  let ?outs = "[Some \<lparr>coins = 100, kind = Coinbase_output hash160_zero P2PKH\<rparr>] :: coinbase_outputs"
  have outs: "None \<notin> set ?outs" by simp
  obtain tx where "coinbase_build0 5 4 [] ?outs = Inr tx"
    unfolding coinbase_build0_def coinbase_build_eq [OF outs] by blast
  with coinbase_reassembled [OF this, of 1 2] show ?thesis by blast
qed

section \<open>New work\<close>


definition next_info :: generation_information where
  "next_info = generation_information_new toy_hash
     (network_state_not_before 5 1 2 3 5 hash256_zero easy_target 100)"

definition easy_outputs :: "coinbase_output list" where
  "easy_outputs = [witness_for_coinbase_only toy_hash, \<lparr>coins = 100, kind = Coinbase_output hash160_zero P2PKH\<rparr>]"

definition easy_pool :: pool where
  "easy_pool = \<lparr>po_manager = easy_manager\<lparr>jm_coinbaseOutputs := map Some easy_outputs\<rparr>,
     po_clients = [se_client easy_session]\<rparr>"

lemma easy_rebalance: "rebalance (map Some easy_outputs) 100 = Some (Inr (map Some easy_outputs))"
proof -
  have "total_shares easy_outputs = 100"
    by (simp add: total_shares_def easy_outputs_def witness_for_coinbase_only_def witness_from_hash_def coinbase_commitment_def Let_def)
  then have "rebalance_loop easy_outputs 100 = Some easy_outputs"
    by (simp add: rebalance_loop.simps rebalance_pass_eq)
  then show ?thesis by (simp add: rebalance_def comp_def)
qed

lemma next_info_fields:
  "gi_witnessCommitment next_info = witness_for_coinbase_only toy_hash"
  "ns_coinbaseCoins (gi_networkState next_info) = 100" "ns_blockHeight (gi_networkState next_info) = 5"
  "ns_blockHeight (gi_networkState easy_info) = 4" "jm_information (po_manager easy_pool) = Some easy_info"
  by (simp_all add: next_info_def easy_info_def generation_information_new_def network_state_not_before_def
      easy_pool_def easy_manager_def)

lemma next_differs: "ns_differs (gi_networkState next_info) (gi_networkState easy_info)"
  by (simp add: ns_differs_def next_info_fields)

lemma easy_outputs_Cons: "\<exists>others. easy_outputs = witness_for_coinbase_only toy_hash # others"
  by (simp add: easy_outputs_def)

text \<open>A forced job for a pooled client is made and sent, whatever the clock says.\<close>

lemma send_job_succeeds:
  assumes "jm_information jm = Some info" "jm_coinbase jm = Some tx" "sc_pooled c"
  shows "\<exists>s. send_job env True \<lparr>se_manager = jm, se_client = c\<rparr> = (Inr (), s)"
proof -
  obtain job s where cur: "current_job env True \<lparr>se_manager = jm, se_client = c\<rparr> = (Inr job, s)"
    and tx: "job_coinbase job = Some tx"
  proof -
    obtain d c' where calc: "calc_new_diff (e_now env) c = (Inr d, c')"
      using that by (fastforce simp: calc_new_diff_def Let_def split: if_splits)
    obtain job jm' where "create_job env (sc_currentDiff c') d jm = (Inr job, jm')"
      using assms(1) by (simp add: create_job_def Let_def)
    with that calc assms create_job_Inr [OF this] show ?thesis
      by (simp add: current_job_def op_bind_def need_manager_def on_client_def on_manager_def push_job_def Let_def)
  qed
  show ?thesis
    unfolding send_job_def op_bind_def [of "current_job env True"] cur
    by (simp add: op_bind_def job_to_json_def job_tx_def tx on_client_def update_diff_def
        send_unsolicited_def client_send_def Let_def)
qed

lemma easy_generated:
  assumes "jm_coinbaseOutputs jm = map Some easy_outputs" "jm_information jm = Some next_info"
  shows "\<exists>tx. generate_coinbase_transaction env jm = Some (Inr tx, jm)"
proof -
  obtain others where outs: "easy_outputs = witness_for_coinbase_only toy_hash # others"
    using easy_outputs_Cons by blast
  have first: "is_commitment (witness_for_coinbase_only toy_hash)"
    by (simp add: witness_for_coinbase_only_def witness_from_hash_def coinbase_commitment_def is_commitment_def Let_def)
  have ins: "insert_commitment (gi_witnessCommitment next_info) (map Some easy_outputs) = Inr (map Some easy_outputs)"
    using first by (simp add: insert_commitment_def next_info_fields outs)
  have nn: "None \<notin> set (map Some easy_outputs)" by simp
  have "jm\<lparr>jm_coinbaseOutputs := map Some easy_outputs\<rparr> = jm" unfolding assms(1) [symmetric] by simp
  with ins easy_rebalance assms show ?thesis
    by (simp add: generate_coinbase_transaction_def next_info_fields coinbase_build0_def coinbase_build_eq [OF nn])
qed

lemma easy_update:
  "\<exists>p'. update_work easy_env next_info easy_pool = Some (Inr (), p') \<and> length (po_clients p') = 1"
proof -
  let ?jm = "(po_manager easy_pool)\<lparr>jm_information := Some next_info\<rparr>"
  obtain others where outs: "easy_outputs = witness_for_coinbase_only toy_hash # others"
    using easy_outputs_Cons by blast
  have jm: "jm_coinbaseOutputs (?jm) = map Some easy_outputs" "jm_information ?jm = Some next_info"
    by (simp_all add: easy_pool_def)
  have balanced: "update_coinbase_outputs0 ?jm = Some (Inr (), ?jm)"
    using easy_rebalance jm unfolding outs by (simp add: update_coinbase_outputs0_def next_info_fields Let_def)
  obtain tx where gen: "generate_coinbase_transaction easy_env ?jm = Some (Inr tx, ?jm)"
    using easy_generated [OF jm] by blast
  let ?jm2 = "?jm\<lparr>jm_coinbase := Some tx\<rparr>"
  have client: "po_clients easy_pool = [se_client easy_session]" "sc_pooled (clear_jobs (se_client easy_session))"
    by (simp_all add: easy_pool_def easy_session_def clear_jobs_def)
  obtain s where "send_job easy_env True \<lparr>se_manager = ?jm2, se_client = clear_jobs (se_client easy_session)\<rparr> = (Inr (), s)"
    using send_job_succeeds [of ?jm2 next_info tx] client(2) by fastforce
  then show ?thesis
    using balanced gen client(1) next_differs
    by (simp add: update_work_def next_info_fields(5) then_update_work_def update_work_forced_def)
qed




section \<open>Received lines\<close>

text \<open>
  C38. As the program stands no miner gets work: whatever lines a new connection receives, it has no
  job, no share is credited and no block is submitted, since nothing ever puts it into a pool.
\<close>

theorem new_connection_gets_no_work:
  "\<exists>c. receive_lines ls \<lparr>se_manager = jm, se_client = client_new now cid\<rparr> = \<lparr>se_manager = jm, se_client = c\<rparr> \<and>
     \<not> sc_pooled c \<and> sc_jobs c = [] \<and> sc_acceptedShares c = Fin 0 \<and> sc_submitted c = []"
proof -
  have keep: "idle jm s \<Longrightarrow> idle jm (receive_lines ls s)" for s
    by (induction ls arbitrary: s) (simp_all add: split_paired_all idle_on_receive)
  let ?s = "receive_lines ls \<lparr>se_manager = jm, se_client = client_new now cid\<rparr>"
  have "idle jm \<lparr>se_manager = jm, se_client = client_new now cid\<rparr>" by (simp add: idle_def client_new_def)
  from keep [OF this] have "idle jm ?s" .
  then show ?thesis by (intro exI [of _ "se_client ?s"]) (simp add: idle_def)
qed

text \<open>
  C40. A share that is sent twice counts twice: the second line is accepted like the first, the
  difficulty of the job is credited again, and a block it solves is submitted again.
\<close>

theorem resubmitted_share_counts_again:
  assumes "j_parse (e_json env) packet = Inr payload" "j_is_object (e_json env) payload"
    and "parse_message (e_json env) payload = Inr (Some (Mining_submit i user (job_id job) n2 time nonce))"
    and "session_inv s" "job \<in> set (sc_jobs (se_client s))"
    and "check_solution (e_sha256d env) (e_submit env) job time nonce (extra_nonce1 (se_client s)) n2 = (blocks, Inr b)"
  shows "\<exists>s1 s2. on_receive env packet s = (Inr (), s1) \<and> on_receive env packet s1 = (Inr (), s2) \<and>
    sc_acceptedShares (se_client s2) = dadd (dadd (sc_acceptedShares (se_client s)) (job_diff job)) (job_diff job) \<and>
    sc_submitted (se_client s2) = sc_submitted (se_client s) @ blocks @ blocks"
proof -
  have once: "\<exists>s'. on_receive env packet t = (Inr (), s') \<and> session_inv s' \<and>
      sc_jobs (se_client s') = sc_jobs (se_client t) \<and> sc_connectionId (se_client s') = sc_connectionId (se_client t) \<and>
      sc_acceptedShares (se_client s') = dadd (sc_acceptedShares (se_client t)) (job_diff job) \<and>
      sc_submitted (se_client s') = sc_submitted (se_client t) @ blocks"
    if t: "session_inv t" "job \<in> set (sc_jobs (se_client t))"
      "sc_connectionId (se_client t) = sc_connectionId (se_client s)" for t
  proof -
    have "get_active_job (job_id job) (se_client t) = Some job"
      using t get_active_job_iff [of "se_client t"] by (simp add: session_inv_def ids_inv_def)
    moreover have "extra_nonce1 (se_client t) = extra_nonce1 (se_client s)"
      using t(3) by (simp add: extra_nonce1_def)
    ultimately show ?thesis
      using assms(1-3,6) t(1)
      by (simp add: on_receive_def catch_json_def receive_body_def note_software_def process_call_def
          on_client_def op_bind_def process_submit_def Let_def send_reply_def send_reply_error_def
          client_send_def accepted_share_def session_inv_def jobs_inv_def ids_inv_def split: option.splits)
  qed
  obtain s1 where s1: "on_receive env packet s = (Inr (), s1)" "session_inv s1"
    "sc_jobs (se_client s1) = sc_jobs (se_client s)" "sc_connectionId (se_client s1) = sc_connectionId (se_client s)"
    "sc_acceptedShares (se_client s1) = dadd (sc_acceptedShares (se_client s)) (job_diff job)"
    "sc_submitted (se_client s1) = sc_submitted (se_client s) @ blocks"
    using once [OF assms(4,5) refl] by blast
  then have "job \<in> set (sc_jobs (se_client s1))" using assms(5) by simp
  from once [OF s1(2) this s1(4)] s1 show ?thesis by auto
qed

theorem resubmitted_share_counts_again_witness:
  "\<exists>s1 s2. on_receive easy_env [] easy_session = (Inr (), s1) \<and> on_receive easy_env [] s1 = (Inr (), s2) \<and>
    length (sc_submitted (se_client s2)) = 2"
proof -
  let ?n1 = "extra_nonce1 (se_client easy_session)"
  have "check_solution (e_sha256d easy_env) (e_submit easy_env) easy_job 3 4 ?n1 2 =
      ([solved_block toy_hash easy_job some_tx 3 4 ?n1 2], Inr True)"
    unfolding solved_block_def easy_session_fields(3)
    by (rule check_solution_block [OF easy_job_ok easy_job_fields(2) _ easy_hash_wf easy_below])
      (use easy_hash [of toy_hash some_tx] easy_session_fields(4) in \<open>simp_all add: solved_block_def\<close>)
  from resubmitted_share_counts_again [OF easy_parse easy_session_inv easy_session_fields(1) this, of "[]"]
  show ?thesis unfolding easy_session_fields by fastforce
qed


definition deaf_env :: "jtree env" where "deaf_env = easy_env\<lparr>e_json := tree_api\<rparr>"


section \<open>Accounts\<close>

text \<open>What a miner is credited with and what was submitted for it, and the calls that leave both alone.\<close>

definition accounts :: "stratum_client \<Rightarrow> dbl \<times> submission list" where
  "accounts c = (sc_acceptedShares c, sc_submitted c)"

lemma accounts_client:
  "(\<And>c. accounts (snd (m c)) = accounts c) \<Longrightarrow> keeps (\<lambda>s. accounts (se_client s) = a) (on_client m)"
  by (auto simp: keeps_def on_client_def split: prod.split) (metis snd_conv)

lemma accounts_sends [simp]:
  "accounts (snd (send_reply_error env m r e c)) = accounts c" "accounts (snd (send_reply env m r c)) = accounts c"
  "accounts (snd (send_unsolicited env meth ps i c)) = accounts c"
  "accounts (snd (update_diff env d c)) = accounts c" "accounts (snd (calc_new_diff now c)) = accounts c"
  by (simp_all add: accounts_def send_reply_error_def send_reply_def send_unsolicited_def client_send_def
      update_diff_def op_bind_def calc_new_diff_def Let_def)

lemma accounts_current_job: "keeps (\<lambda>s. accounts (se_client s) = a) (current_job env force)"
proof -
  have "accounts (se_client (snd (push_job job s))) = accounts (se_client s)" for job s
    by (simp add: push_job_def accounts_def Let_def)
  moreover have "se_client (snd (on_manager m s)) = se_client s" for m :: "(job_manager, stratum_job) op" and s
    by (simp add: on_manager_def split: prod.split)
  moreover have "se_client (snd (need_manager s)) = se_client s" for s by (simp add: need_manager_def)
  ultimately have "keeps (\<lambda>s. accounts (se_client s) = a)
    (op_bind need_manager (\<lambda>_. op_bind (on_client (calc_new_diff (e_now env))) (\<lambda>newDiff.
      op_bind (op_get (\<lambda>s. sc_currentDiff (se_client s))) (\<lambda>clientDiff.
      op_bind (on_manager (create_job env clientDiff newDiff)) (\<lambda>job. push_job job)))))"
    by (intro keeps_bind accounts_client keeps_pure) (simp_all add: keeps_def)
  then show ?thesis
    by (auto simp: keeps_def current_job_def split: option.split bool.split)
qed

lemma accounts_send_job: "keeps (\<lambda>s. accounts (se_client s) = a) (send_job env force)"
  unfolding send_job_def
  by (intro keeps_bind accounts_current_job) (auto intro!: accounts_client keeps_pure)

lemma accounts_process_call:
  assumes "\<forall>i u j n2 t n. call \<noteq> Mining_submit i u j n2 t n"
  shows "accounts (se_client (snd (process_call env call s))) = accounts (se_client s)"
proof -
  have "keeps (\<lambda>s. accounts (se_client s) = a) (process_call env call)" for a
  proof (cases call)
    case (Mining_subscribe i cl)
    then show ?thesis
      by (auto simp: process_call_def process_subscribe_def intro!: keeps_bind accounts_client keeps_pure accounts_send_job)
  qed (use assms in \<open>auto simp: process_call_def process_authorize_def process_extranonce_subscribe_def
      intro!: accounts_client\<close>)
  from keepsD [OF this refl] show ?thesis .
qed

text \<open>What a check hands to the daemon, and when it accepts.\<close>

lemma check_solution_effect:
  assumes "check_solution sha submitBlock job time nonce n1 n2 = (blocks, result)"
  shows "blocks = [] \<and> (\<exists>e. result = Inl e) \<or>
    (\<exists>tx hash. job_coinbase job = Some tx \<and>
      header_hash (job_hasher job) (sub_header (solved_block sha job tx time nonce n1 n2)) = Inr hash \<and>
      blocks = (if hash256_le hash (ns_miningTarget (job_state job)) then [solved_block sha job tx time nonce n1 n2] else []) \<and>
      (\<forall>b. result = Inr b \<longrightarrow> \<not> dless (share_mining_diff hash) (job_diff job)))"
proof (cases "job_coinbase job")
  case None
  with assms show ?thesis by (auto simp: check_solution_def job_tx_def)
next
  case (Some tx)
  let ?block = "solved_block sha job tx time nonce n1 n2"
  show ?thesis
  proof (cases "header_hash (job_hasher job) (sub_header ?block)")
    case (Inl e)
    with Some assms show ?thesis
      unfolding solved_block_def by (auto simp: check_solution_def job_tx_def Let_def)
  next
    case (Inr hash)
    have "check_solution sha submitBlock job time nonce n1 n2 =
      (let submit = hash256_le hash (ns_miningTarget (job_state job)); blocks = (if submit then [?block] else [])
       in case (if submit then submitBlock ?block else Inr ()) of
            Inl e \<Rightarrow> (blocks, Inl e)
          | Inr _ \<Rightarrow> if dless (share_mining_diff hash) (job_diff job) then (blocks, Inl (Validation_error ''low diff''))
                    else (blocks, Inr submit))"
      using Some Inr unfolding solved_block_def
      by (simp only: check_solution_def job_tx_def Let_def option.case sum.case submission.simps)
    with assms have "blocks = (if hash256_le hash (ns_miningTarget (job_state job)) then [?block] else []) \<and>
        (\<forall>b. result = Inr b \<longrightarrow> \<not> dless (share_mining_diff hash) (job_diff job))"
      by (auto simp: Let_def split: if_splits sum.splits)
    with Some Inr show ?thesis by blast
  qed
qed

lemma process_submit_effect:
  assumes "jobs_inv c" "distinct (map job_id (sc_jobs c))"
  shows "let c' = snd (process_submit env i j n2 time nonce c) in
    accounts c' = accounts c \<or>
    (\<exists>job tx hash. job \<in> set (sc_jobs c) \<and> job_coinbase job = Some tx \<and>
      header_hash (job_hasher job) (sub_header
        (solved_block (e_sha256d env) job tx time nonce (extra_nonce1 c) n2)) = Inr hash \<and>
      sc_submitted c' = sc_submitted c @
        (if hash256_le hash (ns_miningTarget (job_state job))
         then [solved_block (e_sha256d env) job tx time nonce (extra_nonce1 c) n2] else []) \<and>
      (sc_acceptedShares c' = sc_acceptedShares c \<or>
       \<not> dless (share_mining_diff hash) (job_diff job) \<and>
       sc_acceptedShares c' = dadd (sc_acceptedShares c) (job_diff job)))"
proof (cases "get_active_job j c")
  case None
  then show ?thesis by (simp add: process_submit_def Let_def)
next
  case (Some job)
  then have job: "job \<in> set (sc_jobs c)" using get_active_job_iff [OF assms] by blast
  obtain blocks result where check: "check_solution (e_sha256d env) (e_submit env) job time nonce (extra_nonce1 c) n2 = (blocks, result)"
    by fastforce
  let ?c = "c\<lparr>sc_submitted := sc_submitted c @ blocks\<rparr>"
  have after: "accounts (snd (process_submit env i j n2 time nonce c)) =
      ((case result of Inr _ \<Rightarrow> dadd (sc_acceptedShares c) (job_diff job) | Inl _ \<Rightarrow> sc_acceptedShares c),
       sc_submitted c @ blocks)"
  proof (cases result)
    case (Inr b)
    have "accounts (snd (send_reply env i v (accepted_share (job_diff job) ?c))) =
        (dadd (sc_acceptedShares c) (job_diff job), sc_submitted c @ blocks)" for v
      by simp (simp add: accounts_def accepted_share_def)
    with Inr Some check show ?thesis by (simp add: process_submit_def Let_def)
  next
    case (Inl e)
    have same: "accounts ?c = (sc_acceptedShares c, sc_submitted c @ blocks)" by (simp add: accounts_def)
    with Inl Some check show ?thesis by (cases e) (simp_all add: process_submit_def Let_def)
  qed
  then have acc: "sc_acceptedShares (snd (process_submit env i j n2 time nonce c)) =
      (case result of Inr _ \<Rightarrow> dadd (sc_acceptedShares c) (job_diff job) | Inl _ \<Rightarrow> sc_acceptedShares c)"
    and sub: "sc_submitted (snd (process_submit env i j n2 time nonce c)) = sc_submitted c @ blocks"
    by (simp_all add: accounts_def)
  from check_solution_effect [OF check] show ?thesis
  proof (elim disjE conjE exE)
    fix e assume "blocks = []" "result = Inl e"
    with after show ?thesis by (simp add: accounts_def Let_def)
  next
    fix tx hash
    assume "job_coinbase job = Some tx"
      "header_hash (job_hasher job) (sub_header (solved_block (e_sha256d env) job tx time nonce (extra_nonce1 c) n2)) = Inr hash"
      "blocks = (if hash256_le hash (ns_miningTarget (job_state job))
         then [solved_block (e_sha256d env) job tx time nonce (extra_nonce1 c) n2] else [])"
      "\<forall>b. result = Inr b \<longrightarrow> \<not> dless (share_mining_diff hash) (job_diff job)"
    moreover from this(4) acc have "sc_acceptedShares (snd (process_submit env i j n2 time nonce c)) = sc_acceptedShares c \<or>
        \<not> dless (share_mining_diff hash) (job_diff job) \<and>
        sc_acceptedShares (snd (process_submit env i j n2 time nonce c)) = dadd (sc_acceptedShares c) (job_diff job)"
      by (cases result) simp_all
    moreover note job sub
    ultimately show ?thesis unfolding Let_def by blast
  qed
qed

text \<open>
  C3. A miner is credited, and a block is submitted for it, only for work: a line that changes either
  is a solution of a job it holds; it is credited with the difficulty of that job only when the hash
  of its block reaches this difficulty, and the block is submitted exactly when the hash is at most
  the target of the network.
\<close>

theorem no_credit_without_work:
  assumes "session_inv s" "on_receive env packet s = (r, s')"
  shows "accounts (se_client s') = accounts (se_client s) \<or>
    (\<exists>job tx n2 time nonce hash. job \<in> set (sc_jobs (se_client s)) \<and> job_coinbase job = Some tx \<and>
      header_hash (job_hasher job) (sub_header
        (solved_block (e_sha256d env) job tx time nonce (extra_nonce1 (se_client s)) n2)) = Inr hash \<and>
      sc_submitted (se_client s') = sc_submitted (se_client s) @
        (if hash256_le hash (ns_miningTarget (job_state job))
         then [solved_block (e_sha256d env) job tx time nonce (extra_nonce1 (se_client s)) n2] else []) \<and>
      (sc_acceptedShares (se_client s') = sc_acceptedShares (se_client s) \<or>
       \<not> dless (share_mining_diff hash) (job_diff job) \<and>
       sc_acceptedShares (se_client s') = dadd (sc_acceptedShares (se_client s)) (job_diff job)))"
proof (cases rule: on_receive_cases [of env packet s])
  case (handled payload call r' t)
  have s': "s' = t" using handled(5) assms(2) by simp
  let ?s = "s\<lparr>se_client := note_software call (se_client s)\<rparr>"
  have noted: "accounts (note_software call (se_client s)) = accounts (se_client s)"
    by (simp add: note_software_def accounts_def split: stratum_call.split)
  show ?thesis
  proof (cases "\<exists>i u j n2 t n. call = Mining_submit i u j n2 t n")
    case False
    then have "accounts (se_client t) = accounts (se_client ?s)"
      using accounts_process_call [of call env ?s] handled(4) by simp
    with s' noted show ?thesis by simp
  next
    case True
    then obtain i u j n2 time nonce where call: "call = Mining_submit i u j n2 time nonce" by blast
    let ?c' = "snd (process_submit env i j n2 time nonce (se_client s))"
    have "se_client t = ?c'"
      using handled(4) by (auto simp: call process_call_def on_client_def note_software_def split: prod.splits)
    moreover have "jobs_inv (se_client s)" "distinct (map job_id (sc_jobs (se_client s)))"
      using assms(1) by (simp_all add: session_inv_def ids_inv_def)
    note process_submit_effect [OF this, of env i j n2 time nonce]
    ultimately show ?thesis unfolding s' Let_def by metis
  qed
qed (use assms(2) in simp_all)

theorem no_credit_without_work_witness:
  "length (sc_submitted (se_client (snd (on_receive easy_env [] easy_session)))) \<le> 1"
proof -
  obtain r s' where run: "on_receive easy_env [] easy_session = (r, s')" by fastforce
  from no_credit_without_work [OF easy_session_inv run] show ?thesis
    unfolding run easy_session_fields(2) accounts_def by (elim disjE exE conjE) (simp_all add: easy_session_fields(2))
qed

lemma easy_work_ok: "work_ok easy_session"
  using easy_job_ok
  by (simp add: work_ok_def client_ok_def easy_session_def jobs_inv_def manager_ok_def easy_manager_def
      easy_info_def generation_information_new_def)

end
