(* ===== verification/Interleaving.thy ===== *)
theory Interleaving
  imports Pools
begin

text \<open>
  A pool while it runs: the thread of each connection, which handles the lines of its miner, and the
  worker that brings new work, in any interleaving. A step is what happens under one lock
  (\<open>_jobsLock\<close> of a connection, \<open>_lock\<close> of the job manager), or what a thread does on its own. The list
  of the connections is locked while the worker goes through it. An exception that leaves a thread ends
  the program, so an operation that fails has no step.
\<close>

section \<open>The parts of an operation\<close>

text \<open>\<open>sendJob\<close> behind the lock of \<open>job()\<close>, from where it has only a reference to the job.\<close>

definition send_notify :: "'j env \<Rightarrow> bool \<Rightarrow> stratum_job \<Rightarrow> (session, unit) op" where
  "send_notify env forceNew job =
     op_bind (op_get (\<lambda>s. sc_currentDiff (se_client s))) (\<lambda>currentDiff.
     op_bind (if \<not> deq (job_diff job) currentDiff then on_client (update_diff env (job_diff job))
              else op_return ()) (\<lambda>_.
     op_bind (op_lift (job_to_json (e_json env) forceNew job)) (\<lambda>params.
     on_client (send_unsolicited env ''mining.notify'' params (- 1)))))"

text \<open>What is done with a \<open>mining.subscribe\<close> before \<open>sendJob\<close>.\<close>

definition begin_subscribe :: "'j env \<Rightarrow> u32 \<Rightarrow> string \<Rightarrow> (session, unit) op" where
  "begin_subscribe env messageId client =
     op_bind (on_client (op_set (note_software (Mining_subscribe messageId client)))) (\<lambda>_.
     op_bind (op_get (\<lambda>s. subscribe_reply (e_json env) (se_client s))) (\<lambda>reply.
     on_client (send_reply env messageId reply)))"

definition subscribes :: "'j env \<Rightarrow> bytes \<Rightarrow> (u32 \<times> string) option" where
  "subscribes env packet =
     (case j_parse (e_json env) packet of
        Inl _ \<Rightarrow> None
      | Inr payload \<Rightarrow>
          if \<not> j_is_object (e_json env) payload then None
          else (case parse_message (e_json env) payload of
                  Inr (Some (Mining_subscribe messageId client)) \<Rightarrow> Some (messageId, client)
                | _ \<Rightarrow> None))"

section \<open>The steps\<close>

text \<open>
  Where the worker is: it waits for an update; the information is set; the outputs are balanced; it is
  before connection \<open>i\<close>; it has cleared the jobs of connection \<open>i\<close>; it sends what the reference to a job
  shows it. The flag is \<open>forceUpdate\<close>. A job is referred to by its id.
\<close>

datatype worker_place =
    Worker_waits | Information_set bool | Outputs_set bool
  | Before_connection bool nat | Jobs_cleared nat | Worker_notifies bool nat u32

datatype receiver_place = Receiver_waits | Receiver_notifies u32

record run =
  rn_pool :: pool
  rn_queue :: "generation_information queue"
  rn_worker :: worker_place
  rn_receivers :: "receiver_place list"

abbreviation manager_of :: "run \<Rightarrow> job_manager" where "manager_of s \<equiv> po_manager (rn_pool s)"
abbreviation clients_of :: "run \<Rightarrow> stratum_client list" where "clients_of s \<equiv> po_clients (rn_pool s)"

definition set_manager :: "job_manager \<Rightarrow> run \<Rightarrow> run" where
  "set_manager jm s = s\<lparr>rn_pool := (rn_pool s)\<lparr>po_manager := jm\<rparr>\<rparr>"

definition session_of :: "nat \<Rightarrow> run \<Rightarrow> session" where
  "session_of i s = \<lparr>se_manager = manager_of s, se_client = clients_of s ! i\<rparr>"

definition set_session :: "nat \<Rightarrow> session \<Rightarrow> run \<Rightarrow> run" where
  "set_session i t s =
     s\<lparr>rn_pool := \<lparr>po_manager = se_manager t, po_clients = (clients_of s)[i := se_client t]\<rparr>\<rparr>"

definition job_of :: "nat \<Rightarrow> u32 \<Rightarrow> run \<Rightarrow> stratum_job option" where
  "job_of i ref s = find_job ref (sc_jobs (clients_of s ! i))"

definition receiver_at :: "nat \<Rightarrow> receiver_place \<Rightarrow> run \<Rightarrow> bool" where
  "receiver_at i p s \<longleftrightarrow> i < length (clients_of s) \<and> i < length (rn_receivers s) \<and> rn_receivers s ! i = p"

definition move_receiver :: "nat \<Rightarrow> receiver_place \<Rightarrow> run \<Rightarrow> run" where
  "move_receiver i p s = s\<lparr>rn_receivers := (rn_receivers s)[i := p]\<rparr>"

definition drop_nth :: "nat \<Rightarrow> 'a list \<Rightarrow> 'a list" where
  "drop_nth i xs = take i xs @ drop (Suc i) xs"

fun in_connections :: "worker_place \<Rightarrow> bool" where
  "in_connections (Before_connection _ _) = True" | "in_connections (Jobs_cleared _) = True"
| "in_connections (Worker_notifies _ _ _) = True" | "in_connections _ = False"

text \<open>
  \<open>reports\<close> is the work the node may report, and \<open>env\<close> the surroundings but for the time. Connections
  come and go while the list is not locked; whether one belongs to the pool is open.
\<close>

inductive run_step ::
  "'j env \<Rightarrow> (generation_information \<Rightarrow> bool) \<Rightarrow> run \<Rightarrow> run \<Rightarrow> bool" for env reports where
  new_work: "reports info \<Longrightarrow> run_step env reports s (s\<lparr>rn_queue := pool_update_work info (rn_queue s)\<rparr>)"
| joined: "\<not> in_connections (rn_worker s) \<Longrightarrow>
    run_step env reports s
      (s\<lparr>rn_pool := (rn_pool s)\<lparr>po_clients := clients_of s @ [(client_new now cid)\<lparr>sc_pooled := pooled\<rparr>]\<rparr>,
         rn_receivers := rn_receivers s @ [Receiver_waits]\<rparr>)"
| left: "\<not> in_connections (rn_worker s) \<Longrightarrow> receiver_at i Receiver_waits s \<Longrightarrow>
    run_step env reports s
      (s\<lparr>rn_pool := (rn_pool s)\<lparr>po_clients := drop_nth i (clients_of s)\<rparr>,
         rn_receivers := drop_nth i (rn_receivers s)\<rparr>)"
| line: "receiver_at i Receiver_waits s \<Longrightarrow>
    subscribes env packet = None \<or> \<not> sc_pooled (clients_of s ! i) \<Longrightarrow>
    on_receive (env\<lparr>e_now := now\<rparr>) packet (session_of i s) = (Inr (), t) \<Longrightarrow>
    run_step env reports s (set_session i t s)"
| subscribe: "receiver_at i Receiver_waits s \<Longrightarrow> sc_pooled (clients_of s ! i) \<Longrightarrow>
    subscribes env packet = Some (messageId, client) \<Longrightarrow>
    begin_subscribe (env\<lparr>e_now := now\<rparr>) messageId client (session_of i s) = (Inr (), t) \<Longrightarrow>
    current_job (env\<lparr>e_now := now\<rparr>) False t = (Inr job, u) \<Longrightarrow>
    run_step env reports s (move_receiver i (Receiver_notifies (job_id job)) (set_session i u s))"
| notify: "receiver_at i (Receiver_notifies ref) s \<Longrightarrow> job_of i ref s = Some job \<Longrightarrow>
    send_notify (env\<lparr>e_now := now\<rparr>) False job (session_of i s) = (Inr (), t) \<Longrightarrow>
    run_step env reports s (move_receiver i Receiver_waits (set_session i t s))"
| take_work: "rn_worker s = Worker_waits \<Longrightarrow> wait_for_message (rn_queue s) = Some (Inr info, q) \<Longrightarrow>
    jm_information (manager_of s) = Some old \<Longrightarrow>
    run_step env reports s
      (set_manager ((manager_of s)\<lparr>jm_information := Some info\<rparr>)
         (s\<lparr>rn_queue := q, rn_worker := Information_set (ns_differs (gi_networkState info) (gi_networkState old))\<rparr>))"
| balance: "rn_worker s = Information_set force \<Longrightarrow> update_coinbase_outputs0 (manager_of s) = Some (Inr (), jm) \<Longrightarrow>
    run_step env reports s (set_manager jm (s\<lparr>rn_worker := Outputs_set force\<rparr>))"
| coinbase: "rn_worker s = Outputs_set force \<Longrightarrow>
    generate_coinbase_transaction (env\<lparr>e_now := now\<rparr>) (manager_of s) = Some (Inr tx, jm) \<Longrightarrow>
    run_step env reports s (set_manager (jm\<lparr>jm_coinbase := Some tx\<rparr>) (s\<lparr>rn_worker := Before_connection force 0\<rparr>))"
| clear: "rn_worker s = Before_connection True i \<Longrightarrow> i < length (clients_of s) \<Longrightarrow>
    run_step env reports s
      (set_session i \<lparr>se_manager = manager_of s, se_client = clear_jobs (clients_of s ! i)\<rparr>
         (s\<lparr>rn_worker := Jobs_cleared i\<rparr>))"
| next_job: "rn_worker s = (if force then Jobs_cleared i else Before_connection False i) \<Longrightarrow>
    i < length (clients_of s) \<Longrightarrow>
    current_job (env\<lparr>e_now := now\<rparr>) force (session_of i s) = (Inr job, t) \<Longrightarrow>
    run_step env reports s (set_session i t (s\<lparr>rn_worker := Worker_notifies force i (job_id job)\<rparr>))"
| worker_notify: "rn_worker s = Worker_notifies force i ref \<Longrightarrow> job_of i ref s = Some job \<Longrightarrow>
    send_notify (env\<lparr>e_now := now\<rparr>) force job (session_of i s) = (Inr (), t) \<Longrightarrow>
    run_step env reports s (set_session i t (s\<lparr>rn_worker := Before_connection force (i + 1)\<rparr>))"
| all_sent: "rn_worker s = Before_connection force i \<Longrightarrow> \<not> i < length (clients_of s) \<Longrightarrow>
    run_step env reports s (s\<lparr>rn_worker := Worker_waits\<rparr>)"

text \<open>
  A run begins with a manager that has work, and without connections; the number counts the steps, of
  which each makes at most one job.
\<close>

inductive run_reachable ::
  "'j env \<Rightarrow> (generation_information \<Rightarrow> bool) \<Rightarrow> nat \<Rightarrow> run \<Rightarrow> bool" for env reports where
  start: "jm_information jm = Some info \<Longrightarrow> reports info \<Longrightarrow> jm_jobCounter jm = 0 \<Longrightarrow>
    run_reachable env reports 0
      \<lparr>rn_pool = \<lparr>po_manager = jm, po_clients = []\<rparr>, rn_queue = queue_new, rn_worker = Worker_waits, rn_receivers = []\<rparr>"
| step: "run_reachable env reports n s \<Longrightarrow> run_step env reports s s' \<Longrightarrow> run_reachable env reports (Suc n) s'"

section \<open>The parts make up the operations\<close>

lemma send_job_split: "send_job env force = op_bind (current_job env force) (send_notify env force)"
  unfolding send_job_def send_notify_def [abs_def] by (rule refl)

lemma on_receive_subscribe:
  assumes "subscribes env packet = Some (messageId, client)" "sc_pooled (se_client s)"
  shows "on_receive env packet s =
    catch_json (op_bind (begin_subscribe env messageId client)
      (\<lambda>_. op_bind (current_job env False) (send_notify env False))) s"
proof -
  obtain payload where p: "j_parse (e_json env) packet = Inr payload" "j_is_object (e_json env) payload"
    "parse_message (e_json env) payload = Inr (Some (Mining_subscribe messageId client))"
    using assms(1) by (auto simp: subscribes_def split: sum.splits if_splits option.splits stratum_call.splits)
  let ?s = "s\<lparr>se_client := note_software (Mining_subscribe messageId client) (se_client s)\<rparr>"
  obtain r t where run: "on_client (send_reply env messageId (subscribe_reply (e_json env) (se_client ?s))) ?s = (r, t)"
    by fastforce
  have "snd (on_client (send_reply env messageId (subscribe_reply (e_json env) (se_client ?s))) ?s) = t" using run by simp
  then have "sc_pooled (se_client t)"
    using assms(2) same_jobs_reply(2) [of "se_client ?s" env messageId "subscribe_reply (e_json env) (se_client ?s)"]
    by (auto simp: on_client_def same_jobs_def note_software_def split: prod.splits)
  with run show ?thesis
    unfolding send_job_split [symmetric]
    by (cases r) (simp_all add: on_receive_def catch_json_def receive_body_def p process_call_def process_subscribe_def
        begin_subscribe_def on_client_def [of "op_set _"] op_bind_def [of "on_client _"] op_bind_def)
qed

section \<open>What a step makes of the jobs\<close>

text \<open>A session gets no job, or one with the next id; the manager keeps its work.\<close>

definition grows :: "session \<Rightarrow> session \<Rightarrow> bool" where
  "grows s t \<longleftrightarrow>
     jm_information (se_manager t) = jm_information (se_manager s) \<and>
     (sc_jobs (se_client t) = sc_jobs (se_client s) \<and> jm_jobCounter (se_manager t) = jm_jobCounter (se_manager s) \<or>
      (\<exists>job. sc_jobs (se_client t) = sc_jobs (se_client s) @ [job] \<and>
         job_id job = jm_jobCounter (se_manager s) + 1 \<and> jm_jobCounter (se_manager t) = jm_jobCounter (se_manager s) + 1))"

lemma grows_frame: "grows s t \<Longrightarrow> frame t u \<Longrightarrow> grows s u"
  and frame_grows: "frame s t \<Longrightarrow> grows t u \<Longrightarrow> grows s u"
  and frame_imp_grows: "frame s t \<Longrightarrow> grows s t"
  by (auto simp: grows_def frame_def same_jobs_def)

lemma grows_list: "same_job_list (se_client s) (se_client t) \<Longrightarrow> se_manager t = se_manager s \<Longrightarrow> grows s t"
  by (simp add: grows_def same_job_list_def)

lemma grows_current_job:
  assumes "current_job env force s = (r, t)"
  shows "grows s t"
  using assms
proof (cases rule: current_job_cases)
  case (made job c)
  from made(5) create_job_Inr have "jm_information (se_manager t) = jm_information (se_manager s) \<and>
      job_id job = jm_jobCounter (se_manager s) + 1 \<and> jm_jobCounter (se_manager t) = jm_jobCounter (se_manager s) + 1"
    by fastforce
  with made(2,4) show ?thesis by (simp add: grows_def same_jobs_def)
qed (auto simp: grows_def same_jobs_def)

lemma frame_send_notify: "frame s (snd (send_notify env force job s))"
proof -
  have "keeps (frame s) (send_notify env force job)"
    unfolding send_notify_def by (intro keeps_bind) (auto intro!: keeps_frame_client keeps_pure)
  from keepsD [OF this frame_refl] show ?thesis .
qed

lemma grows_send_job: "grows s (snd (send_job env force s))"
proof (cases "current_job env force s")
  case (Pair r t)
  with grows_current_job [OF Pair] send_job_frame [OF Pair] grows_frame show ?thesis by blast
qed

lemma on_client_list:
  assumes "\<And>c. same_job_list c (snd (m c))" "on_client m s = (r, t)"
  shows "same_job_list (se_client s) (se_client t) \<and> se_manager t = se_manager s"
  using assms(1) [of "se_client s"] assms(2) by (auto simp: on_client_def split: prod.splits)

lemma same_list_grows: "same_job_list (se_client s) (se_client t) \<Longrightarrow> se_manager t = se_manager s \<Longrightarrow> grows t u \<Longrightarrow> grows s u"
  by (simp add: grows_def same_job_list_def)

lemma begin_subscribe_list:
  assumes "begin_subscribe env i client s = (r, t)"
  shows "same_job_list (se_client s) (se_client t) \<and> se_manager t = se_manager s"
proof -
  let ?s = "s\<lparr>se_client := note_software (Mining_subscribe i client) (se_client s)\<rparr>"
  have "on_client (send_reply env i (subscribe_reply (e_json env) (se_client ?s))) ?s = (r, t)"
    using assms by (simp add: begin_subscribe_def on_client_def [of "op_set _"] op_bind_def [of "\<lambda>s. (Inr (), _ s)"]
        op_bind_def)
  from on_client_list [OF _ this] same_job_list_trans [OF note_software_jobs]
  show ?thesis by (fastforce intro: same_jobs_job_list)
qed

lemma grows_process_call: "grows s (snd (process_call env call s))"
proof (cases call)
  case (Mining_subscribe i cl)
  let ?m = "send_reply env i (subscribe_reply (e_json env) (se_client s))"
  obtain r t where run: "on_client ?m s = (r, t)" by fastforce
  then have t: "same_job_list (se_client s) (se_client t) \<and> se_manager t = se_manager s"
    by (rule on_client_list [rotated]) (simp add: same_jobs_job_list)
  then show ?thesis
    using run Mining_subscribe same_list_grows [of s t, OF _ _ grows_send_job [of t env False]] grows_list [of s t]
    by (cases r) (simp_all add: process_call_def process_subscribe_def op_bind_def [of "on_client _"])
qed (auto simp: process_call_def process_authorize_def process_extranonce_subscribe_def same_jobs_job_list
    process_submit_jobs on_client_def split: prod.splits
    intro!: grows_list; metis snd_conv process_submit_jobs same_jobs_job_list same_jobs_reply)+

lemma grows_on_receive: "grows s (snd (on_receive env packet s))"
proof (cases rule: on_receive_cases [of env packet s])
  case (handled payload call r t)
  from same_list_grows [of s, OF _ _ grows_process_call, of "s\<lparr>se_client := note_software call (se_client s)\<rparr>" env call]
    handled(4,5) note_software_jobs show ?thesis by simp
qed (simp_all add: grows_def)

section \<open>The invariant of a run\<close>

definition held_ids :: "stratum_client list \<Rightarrow> u32 list" where
  "held_ids cs = concat (map (\<lambda>c. map job_id (sc_jobs c)) cs)"

definition run_inv :: "(generation_information \<Rightarrow> bool) \<Rightarrow> nat \<Rightarrow> run \<Rightarrow> bool" where
  "run_inv reports n s \<longleftrightarrow>
     length (rn_receivers s) = length (clients_of s) \<and>
     (\<forall>info \<in> set (q_items (rn_queue s)). reports info) \<and>
     (\<exists>info. jm_information (manager_of s) = Some info \<and> reports info) \<and>
     list_all client_ok (clients_of s) \<and>
     unat (jm_jobCounter (manager_of s)) \<le> n \<and>
     distinct (held_ids (clients_of s)) \<and>
     (\<forall>i \<in> set (held_ids (clients_of s)). i \<le> jm_jobCounter (manager_of s))"

lemma held_ids_simps [simp]:
  "held_ids [] = []" "held_ids (c # cs) = map job_id (sc_jobs c) @ held_ids cs" "held_ids (xs @ ys) = held_ids xs @ held_ids ys"
  by (simp_all add: held_ids_def)

lemma held_ids_update:
  assumes "i < length cs"
  shows "held_ids (cs[i := c]) = held_ids (take i cs) @ map job_id (sc_jobs c) @ held_ids (drop (Suc i) cs)"
  using assms by (simp add: upd_conv_take_nth_drop)

lemma held_ids_split:
  assumes "i < length cs"
  shows "held_ids cs = held_ids (take i cs) @ map job_id (sc_jobs (cs ! i)) @ held_ids (drop (Suc i) cs)"
  using held_ids_update [OF assms, of "cs ! i"] by simp

text \<open>What the connections other than the one that steps see of it.\<close>

lemma run_inv_session:
  assumes inv: "run_inv reports n s" and i: "i < length (clients_of s)"
    and grows: "grows (session_of i s) t" and ok: "client_ok (se_client t)" and room: "Suc n < 2 ^ 32"
  shows "run_inv reports (Suc n) (set_session i t s)"
proof -
  let ?k = "jm_jobCounter (manager_of s)"
  have k: "unat ?k \<le> n" using inv by (simp add: run_inv_def)
  then have succ: "unat (?k + 1) = Suc (unat ?k)" using room by (simp add: unat_add_lem [THEN iffD1])
  then have less: "?k < ?k + 1" by (simp add: word_less_nat_alt)
  have dist: "distinct (held_ids (clients_of s))" and below: "\<forall>x \<in> set (held_ids (clients_of s)). x \<le> ?k"
    using inv by (simp_all add: run_inv_def)
  have info: "jm_information (se_manager t) = jm_information (manager_of s)"
    using grows by (simp add: grows_def session_of_def)
  have clients: "list_all client_ok ((clients_of s)[i := se_client t])"
    using inv ok set_update_subset_insert [of "clients_of s" i "se_client t"] by (auto simp: run_inv_def list_all_iff)
  from grows consider
      (same) "sc_jobs (se_client t) = sc_jobs (clients_of s ! i)" "jm_jobCounter (se_manager t) = ?k"
    | (made) job where "sc_jobs (se_client t) = sc_jobs (clients_of s ! i) @ [job]" "job_id job = ?k + 1"
        "jm_jobCounter (se_manager t) = ?k + 1"
    by (auto simp: grows_def session_of_def)
  then show ?thesis
  proof cases
    case same
    then have "held_ids ((clients_of s)[i := se_client t]) = held_ids (clients_of s)"
      unfolding held_ids_update [OF i] held_ids_split [OF i] by simp
    with inv info clients same show ?thesis by (simp add: run_inv_def set_session_def)
  next
    case made
    have "set (held_ids ((clients_of s)[i := se_client t])) = insert (?k + 1) (set (held_ids (clients_of s)))"
      unfolding held_ids_update [OF i] held_ids_split [OF i] by (auto simp: made)
    moreover have "?k + 1 \<notin> set (held_ids (clients_of s))" using below less by fastforce
    then have "distinct (held_ids ((clients_of s)[i := se_client t]))"
      using dist unfolding held_ids_update [OF i] held_ids_split [OF i] by (auto simp: made)
    moreover have "\<forall>x \<in> set (held_ids (clients_of s)). x \<le> ?k + 1" using below less by fastforce
    ultimately show ?thesis
      using inv info clients made(3) succ k by (simp add: run_inv_def set_session_def)
  qed
qed

lemma run_inv_places:
  "run_inv reports n (s\<lparr>rn_worker := w\<rparr>) = run_inv reports n s"
  "run_inv reports n (move_receiver i p s) = run_inv reports n s"
  by (simp_all add: run_inv_def move_receiver_def)

lemma run_inv_manager:
  assumes "run_inv reports n s" "jm_information jm = Some info" "reports info"
    "jm_jobCounter jm = jm_jobCounter (manager_of s)"
  shows "run_inv reports (Suc n) (set_manager jm s)"
  using assms by (simp add: run_inv_def set_manager_def)

lemma run_inv_Suc: "run_inv reports n s \<Longrightarrow> run_inv reports (Suc n) s"
  by (simp add: run_inv_def)

lemma session_of_ok:
  assumes "run_inv reports n s" "\<And>info. reports info \<Longrightarrow> state_ok (gi_networkState info)" "i < length (clients_of s)"
  shows "work_ok (session_of i s)"
  using assms by (auto simp: run_inv_def work_ok_def session_of_def manager_ok_def list_all_length)

lemma work_ok_op:
  assumes "keeps work_ok m" "work_ok s" "m s = (r, t)"
  shows "client_ok (se_client t)"
  using keepsD [OF assms(1,2)] assms(3) by (simp add: work_ok_def)

lemma drop_nth_map: "map f (drop_nth i xs) = drop_nth i (map f xs)"
  by (simp add: drop_nth_def take_map drop_map)

lemma drop_nth_sublist: "set (held_ids (drop_nth i cs)) \<subseteq> set (held_ids cs) \<and>
    (distinct (held_ids cs) \<longrightarrow> distinct (held_ids (drop_nth i cs)))"
proof (cases "i < length cs")
  case True
  then show ?thesis unfolding held_ids_split [OF True] drop_nth_def by auto
qed (simp add: drop_nth_def)

lemma length_drop_nth: "length xs = length ys \<Longrightarrow> length (drop_nth i xs) = length (drop_nth i ys)"
  by (simp add: drop_nth_def)

lemma run_inv_clear:
  assumes inv: "run_inv reports n s" and i: "i < length (clients_of s)"
  shows "run_inv reports (Suc n) (set_session i \<lparr>se_manager = manager_of s, se_client = clear_jobs (clients_of s ! i)\<rparr> s)"
proof -
  have "distinct (held_ids (clients_of s))" using inv by (simp add: run_inv_def)
  then have "distinct (held_ids ((clients_of s)[i := clear_jobs (clients_of s ! i)]))"
    and sub: "set (held_ids ((clients_of s)[i := clear_jobs (clients_of s ! i)])) \<subseteq> set (held_ids (clients_of s))"
    unfolding held_ids_update [OF i] held_ids_split [OF i] by (auto simp: clear_jobs_def)
  moreover have "client_ok (clear_jobs c)" for c by (simp add: client_ok_def) (simp add: clear_jobs_def)
  then have "list_all client_ok ((clients_of s)[i := clear_jobs (clients_of s ! i)])"
    using inv set_update_subset_insert [of "clients_of s" i "clear_jobs (clients_of s ! i)"]
    by (auto simp: run_inv_def list_all_iff)
  ultimately show ?thesis using inv by (auto simp: run_inv_def set_session_def)
qed

text \<open>The list is locked while the worker is at one of its connections.\<close>

fun place_ok :: "worker_place \<Rightarrow> nat \<Rightarrow> bool" where
  "place_ok (Jobs_cleared i) n = (i < n)" | "place_ok (Worker_notifies _ i _) n = (i < n)" | "place_ok _ n = True"

lemma run_step_place:
  assumes "place_ok (rn_worker s) (length (clients_of s))" "run_step env reports s s'"
  shows "place_ok (rn_worker s') (length (clients_of s'))"
  using assms(2,1)
  by (cases rule: run_step.cases; cases "rn_worker s")
    (auto simp: set_session_def set_manager_def move_receiver_def split: if_splits)

lemma run_step_inv:
  assumes inv: "run_inv reports n s" and place: "place_ok (rn_worker s) (length (clients_of s))" and good: "\<And>info. reports info \<Longrightarrow> state_ok (gi_networkState info)"
    and room: "Suc n < 2 ^ 32" and step: "run_step env reports s s'"
  shows "run_inv reports (Suc n) s'"
  using step
proof (cases rule: run_step.cases)
  case (new_work info)
  with inv show ?thesis by (simp add: run_inv_def pool_update_work_def queue_push_def)
next
  case (joined pooled now cid)
  have "client_ok ((client_new now cid)\<lparr>sc_pooled := pooled\<rparr>)" by (simp add: client_ok_def client_new_def jobs_inv_def)
  moreover have "sc_jobs ((client_new now cid)\<lparr>sc_pooled := pooled\<rparr>) = []" by (simp add: client_new_def)
  ultimately show ?thesis using inv unfolding joined(1) by (simp add: run_inv_def)
next
  case (left i)
  have "list_all client_ok (drop_nth i (clients_of s))"
    using inv set_take_subset [of i "clients_of s"] set_drop_subset [of "Suc i" "clients_of s"]
    by (auto simp: run_inv_def list_all_iff drop_nth_def)
  with inv drop_nth_sublist [of i "clients_of s"] show ?thesis
    unfolding left(1) by (auto simp: run_inv_def intro!: length_drop_nth)
next
  case (line i packet now t)
  then have i: "i < length (clients_of s)" by (simp add: receiver_at_def)
  have "grows (session_of i s) t" using grows_on_receive [of "session_of i s"] line(4) by (metis snd_conv)
  from run_inv_session [OF inv i this work_ok_op [OF work_ok_on_receive session_of_ok [OF inv good i] line(4)] room] line(1)
  show ?thesis by simp
next
  case (subscribe i packet messageId client now t job u)
  then have i: "i < length (clients_of s)" by (simp add: receiver_at_def)
  have list: "same_job_list (se_client (session_of i s)) (se_client t)" "se_manager t = se_manager (session_of i s)"
    using begin_subscribe_list [OF subscribe(5)] by simp_all
  then have "work_ok t" using session_of_ok [OF inv good i] client_ok_list by (auto simp: work_ok_def)
  from run_inv_session [OF inv i same_list_grows [OF list grows_current_job [OF subscribe(6)]]
      work_ok_op [OF work_ok_current_job this subscribe(6)] room]
  show ?thesis unfolding subscribe(1) run_inv_places .
next
  case (notify i ref job now t)
  then have i: "i < length (clients_of s)" by (simp add: receiver_at_def)
  have frame: "frame (session_of i s) t" using frame_send_notify [of "session_of i s"] notify(4) by (metis snd_conv)
  have "client_ok (se_client t)"
    using frame session_of_ok [OF inv good i] client_ok_same by (auto simp: frame_def work_ok_def)
  from run_inv_session [OF inv i frame_imp_grows [OF frame] this room] show ?thesis unfolding notify(1) run_inv_places .
next
  case (take_work info q old)
  then have "q_items (rn_queue s) = info # q_items q" by (auto simp: wait_for_message_eq split: if_splits list.splits)
  with inv have "reports info" "\<forall>info \<in> set (q_items q). reports info" by (simp_all add: run_inv_def)
  with inv show ?thesis unfolding take_work(1) by (simp add: run_inv_def set_manager_def)
next
  case (balance force jm)
  then obtain outs where "jm = (manager_of s)\<lparr>jm_coinbaseOutputs := outs\<rparr>"
    by (auto simp: update_coinbase_outputs0_def Let_def split: list.splits option.splits sum.splits)
  with inv show ?thesis unfolding balance(1) by (simp add: run_inv_def set_manager_def)
next
  case (coinbase force now tx jm)
  obtain info where "jm_information (manager_of s) = Some info" using inv by (auto simp: run_inv_def)
  from generate_cases [OF coinbase(3) this] obtain outs where "jm = (manager_of s)\<lparr>jm_coinbaseOutputs := outs\<rparr>" by blast
  with inv show ?thesis unfolding coinbase(1) by (simp add: run_inv_def set_manager_def)
next
  case (clear i)
  have "set_session i t (s\<lparr>rn_worker := w\<rparr>) = set_session i t s\<lparr>rn_worker := w\<rparr>" for t w by (simp add: set_session_def)
  with run_inv_clear [OF inv clear(3)] show ?thesis unfolding clear(1) by (simp add: run_inv_places)
next
  case (next_job force i now job t)
  have eq: "set_session i t (s\<lparr>rn_worker := w\<rparr>) = set_session i t s\<lparr>rn_worker := w\<rparr>" for w by (simp add: set_session_def)
  from run_inv_session [OF inv next_job(3) grows_current_job [OF next_job(4)]
      work_ok_op [OF work_ok_current_job session_of_ok [OF inv good next_job(3)] next_job(4)] room]
  show ?thesis unfolding next_job(1) eq run_inv_places .
next
  case (worker_notify force i ref job now t)
  have i: "i < length (clients_of s)" using place worker_notify(2) by simp
  have eq: "set_session i t (s\<lparr>rn_worker := w\<rparr>) = set_session i t s\<lparr>rn_worker := w\<rparr>" for w by (simp add: set_session_def)
  have frame: "frame (session_of i s) t" using frame_send_notify [of "session_of i s"] worker_notify(4) by (metis snd_conv)
  have "client_ok (se_client t)"
    using frame session_of_ok [OF inv good i] client_ok_same by (auto simp: frame_def work_ok_def)
  from run_inv_session [OF inv i frame_imp_grows [OF frame] this room] show ?thesis unfolding worker_notify(1) eq run_inv_places .
next
  case (all_sent force i)
  with run_inv_Suc [OF inv] show ?thesis by (simp add: run_inv_places)
qed

lemma run_reachable_inv:
  assumes "run_reachable env reports n s" "\<And>info. reports info \<Longrightarrow> state_ok (gi_networkState info)" "n < 2 ^ 32"
  shows "run_inv reports n s \<and> place_ok (rn_worker s) (length (clients_of s))"
  using assms(1,3)
proof (induction rule: run_reachable.induct)
  case (start jm info)
  then show ?case by (simp add: run_inv_def queue_new_def)
next
  case (step n s s')
  then have "run_inv reports n s" "place_ok (rn_worker s) (length (clients_of s))" by simp_all
  with run_step_inv [OF this assms(2) step.prems step.hyps(2)] run_step_place [OF _ step.hyps(2)] show ?case by blast
qed

section \<open>A subscription while the work changes\<close>

lemma begin_subscribe_succeeds:
  obtains c where "begin_subscribe env messageId client s = (Inr (), s\<lparr>se_client := c\<rparr>)"
    "sc_pooled c = sc_pooled (se_client s)" "sc_activeJob c = sc_activeJob (se_client s)" "sc_jobs c = sc_jobs (se_client s)"
  by (rule that [of "snd (send_reply env messageId
      (subscribe_reply (e_json env) (note_software (Mining_subscribe messageId client) (se_client s)))
      (note_software (Mining_subscribe messageId client) (se_client s)))"])
    (simp_all add: begin_subscribe_def on_client_def op_bind_def send_reply_def send_reply_error_def client_send_def
      Let_def note_software_def)

lemma current_job_makes:
  assumes "sc_pooled (se_client s)" "force \<or> sc_activeJob (se_client s) = None" "jm_information (se_manager s) = Some info"
  obtains job t where "current_job env force s = (Inr job, t)"
    "sc_jobs (se_client t) = sc_jobs (se_client s) @ [job]" "job_information job = info"
    "job_coinbase job = jm_coinbase (se_manager s)" "se_manager t = (se_manager s)\<lparr>jm_jobCounter := jm_jobCounter (se_manager s) + 1\<rparr>"
    "job_id job = jm_jobCounter (se_manager s) + 1"
proof -
  obtain d c where calc: "calc_new_diff (e_now env) (se_client s) = (Inr d, c)"
    using that by (fastforce simp: calc_new_diff_def Let_def split: if_splits)
  have same: "same_jobs (se_client s) c" using same_jobs_calc [of "se_client s" "e_now env"] calc by simp
  obtain job jm where made: "create_job env (sc_currentDiff c) d (se_manager s) = (Inr job, jm)"
    using assms(3) by (simp add: create_job_def Let_def)
  have cur: "current_job env force s = push_job job \<lparr>se_manager = jm, se_client = c\<rparr>"
    using assms calc made
    by (auto simp: current_job_def op_bind_def need_manager_def on_client_def on_manager_def push_job_def Let_def
        split: option.splits bool.splits)
  show ?thesis
    by (rule that [of job "snd (push_job job \<lparr>se_manager = jm, se_client = c\<rparr>)"])
      (use cur create_job_Inr [OF made] same assms(3) in \<open>simp_all add: push_job_def Let_def same_jobs_def\<close>)
qed

text \<open>Wherever the worker is, a subscription gets a job of the information and the coinbase there are.\<close>

lemma subscribe_makes_job:
  assumes at: "receiver_at i Receiver_waits s" and pooled: "sc_pooled (clients_of s ! i)"
    and none: "sc_activeJob (clients_of s ! i) = None" and packet: "subscribes env packet = Some (messageId, client)"
    and info: "jm_information (manager_of s) = Some info"
  obtains s' job where "run_step env reports s s'" "sc_jobs (clients_of s' ! i) = sc_jobs (clients_of s ! i) @ [job]"
    "job_information job = info" "job_coinbase job = jm_coinbase (manager_of s)"
    "receiver_at i (Receiver_notifies (job_id job)) s'" "rn_worker s' = rn_worker s" "rn_queue s' = rn_queue s"
    "manager_of s' = (manager_of s)\<lparr>jm_jobCounter := jm_jobCounter (manager_of s) + 1\<rparr>"
    "length (clients_of s') = length (clients_of s)"
proof -
  let ?env = "env\<lparr>e_now := e_now env\<rparr>" and ?s = "session_of i s"
  obtain c where beg: "begin_subscribe ?env messageId client ?s = (Inr (), ?s\<lparr>se_client := c\<rparr>)"
    and c: "sc_pooled c" "sc_activeJob c = None" "sc_jobs c = sc_jobs (clients_of s ! i)"
    using begin_subscribe_succeeds [of ?env messageId client ?s] pooled none by (auto simp: session_of_def)
  let ?t = "?s\<lparr>se_client := c\<rparr>"
  have pre: "sc_pooled (se_client ?t)" "False \<or> sc_activeJob (se_client ?t) = None" "jm_information (se_manager ?t) = Some info"
    using c info by (simp_all add: session_of_def)
  obtain job t where cur: "current_job ?env False ?t = (Inr job, t)"
    and made: "sc_jobs (se_client t) = sc_jobs (se_client ?t) @ [job]" "job_information job = info"
      "job_coinbase job = jm_coinbase (se_manager ?t)"
      "se_manager t = (se_manager ?t)\<lparr>jm_jobCounter := jm_jobCounter (se_manager ?t) + 1\<rparr>"
    using current_job_makes [OF pre, of ?env] by blast
  have job: "sc_jobs (se_client t) = sc_jobs c @ [job]" "job_information job = info"
    "job_coinbase job = jm_coinbase (manager_of s)"
    "se_manager t = (manager_of s)\<lparr>jm_jobCounter := jm_jobCounter (manager_of s) + 1\<rparr>"
    using made by (simp_all add: session_of_def)
  have i: "i < length (clients_of s)" "i < length (rn_receivers s)" using at by (simp_all add: receiver_at_def)
  let ?s' = "move_receiver i (Receiver_notifies (job_id job)) (set_session i t s)"
  show ?thesis
    by (rule that [OF run_step.subscribe [OF at pooled packet beg cur]])
      (use i job c in \<open>simp_all add: move_receiver_def set_session_def receiver_at_def\<close>)
qed

text \<open>Clearing the jobs of a connection leaves its receiver with a reference to nothing.\<close>

lemma clear_dangles:
  assumes "rn_worker s = Before_connection True i" "receiver_at i (Receiver_notifies ref) s"
  obtains s' where "run_step env reports s s'" "receiver_at i (Receiver_notifies ref) s'" "job_of i ref s' = None"
proof -
  have i: "i < length (clients_of s)" using assms(2) by (simp add: receiver_at_def)
  show ?thesis
    by (rule that [OF run_step.clear [OF assms(1) i]])
      (use assms(2) i in \<open>simp_all add: receiver_at_def set_session_def job_of_def clear_jobs_def find_job_def\<close>)
qed

end
