(* ===== verification/Locks.thy ===== *)
theory Locks
  imports Sync
begin

text \<open>
  Locks (\<open>lib/util/Lock\<close>), and why a method that holds one is a single step: the queue with its
  methods taken apart into the statements of \<open>Queue.h\<close>, which threads run in any interleaving.
\<close>

section \<open>Mutual exclusion\<close>

text \<open>
  The mutex is the thread that holds it; \<open>None\<close> as the result of taking it is that the caller waits. The
  constructor ends the program with a status when there is no mutex (\<open>result\<close> is what
  \<open>pthread_mutex_init\<close> answers).
\<close>

definition lock_new :: "int \<Rightarrow> int + nat option" where
  "lock_new result = (if result \<noteq> 0 then Inl 1 else Inr None)"

definition aquire_unmanaged :: "nat \<Rightarrow> nat option \<Rightarrow> nat option option" where
  "aquire_unmanaged self mutex = (case mutex of None \<Rightarrow> Some (Some self) | Some _ \<Rightarrow> None)"

definition release_unmanaged :: "nat option \<Rightarrow> nat option" where
  "release_unmanaged mutex = None"

text \<open>
  A \<open>Ref\<close> takes the lock when it is made and gives it back when it goes out of scope; \<open>aquire\<close> makes one
  for the scope of the caller.
\<close>

definition ref_new :: "nat \<Rightarrow> nat option \<Rightarrow> nat option option" where
  "ref_new self parent = aquire_unmanaged self parent"

definition ref_delete :: "nat option \<Rightarrow> nat option" where
  "ref_delete parent = release_unmanaged parent"

definition lock_aquire :: "nat \<Rightarrow> nat option \<Rightarrow> nat option option" where
  "lock_aquire self mutex = ref_new self mutex"

lemma lock_aquire_iff: "lock_aquire self mutex = Some m \<longleftrightarrow> mutex = None \<and> m = Some self"
  by (auto simp: lock_aquire_def ref_new_def aquire_unmanaged_def split: option.splits)

lemma ref_delete_eq [simp]: "ref_delete mutex = None"
  by (simp add: ref_delete_def release_unmanaged_def)

section \<open>The queue, statement by statement\<close>

text \<open>
  Where a thread is: outside, before the lock of \<open>queue\<close>, behind it, behind \<open>push_back\<close>; behind
  \<open>sem_wait\<close>, behind the lock of \<open>waitForMessage\<close>, in its loop with the message it moved out and
  the index; before the end of the scope, where the lock is given back.
\<close>

datatype 'a place =
    Outside | Before_push 'a | Push_locked 'a | Pushed 'a
  | Claimed | Take_locked | Shifting 'a nat
  | Leaving

record 'a locked_queue =
  lq_queue :: "'a queue"
  lq_mutex :: "nat option"
  lq_places :: "'a place list"
  lq_sent :: "'a list"
  lq_received :: "'a res list"

definition locked_queue_new :: "nat \<Rightarrow> 'a locked_queue" where
  "locked_queue_new threads =
     \<lparr>lq_queue = queue_new, lq_mutex = None, lq_places = replicate threads Outside, lq_sent = [], lq_received = []\<rparr>"

definition move_to :: "nat \<Rightarrow> 'a place \<Rightarrow> 'a locked_queue \<Rightarrow> 'a locked_queue" where
  "move_to i p s = s\<lparr>lq_places := (lq_places s)[i := p]\<rparr>"

definition at_place :: "nat \<Rightarrow> 'a place \<Rightarrow> 'a locked_queue \<Rightarrow> bool" where
  "at_place i p s \<longleftrightarrow> i < length (lq_places s) \<and> lq_places s ! i = p"

abbreviation queued :: "'a locked_queue \<Rightarrow> 'a list" where
  "queued s \<equiv> q_items (lq_queue s)"

definition set_items :: "'a list \<Rightarrow> 'a locked_queue \<Rightarrow> 'a locked_queue" where
  "set_items xs s = s\<lparr>lq_queue := (lq_queue s)\<lparr>q_items := xs\<rparr>\<rparr>"

inductive locked_step :: "'a locked_queue \<Rightarrow> 'a locked_queue \<Rightarrow> bool" where
  call_queue: "at_place i Outside s \<Longrightarrow> locked_step s (move_to i (Before_push x) s)"
| lock_queue: "at_place i (Before_push x) s \<Longrightarrow> lock_aquire i (lq_mutex s) = Some m \<Longrightarrow>
    locked_step s (move_to i (Push_locked x) (s\<lparr>lq_mutex := m\<rparr>))"
| push_back: "at_place i (Push_locked x) s \<Longrightarrow>
    locked_step s (move_to i (Pushed x) (set_items (queued s @ [x]) s))"
| post: "at_place i (Pushed x) s \<Longrightarrow>
    locked_step s (move_to i Leaving
      (s\<lparr>lq_queue := (lq_queue s)\<lparr>q_semaphore := q_semaphore (lq_queue s) + 1\<rparr>, lq_sent := lq_sent s @ [x]\<rparr>))"
| wait: "at_place i Outside s \<Longrightarrow> sem_wait (lq_queue s) = Some q \<Longrightarrow>
    locked_step s (move_to i Claimed (s\<lparr>lq_queue := q\<rparr>))"
| lock_take: "at_place i Claimed s \<Longrightarrow> lock_aquire i (lq_mutex s) = Some m \<Longrightarrow>
    locked_step s (move_to i Take_locked (s\<lparr>lq_mutex := m\<rparr>))"
| no_first: "at_place i Take_locked s \<Longrightarrow> queued s = [] \<Longrightarrow>
    locked_step s (move_to i Leaving (s\<lparr>lq_received := lq_received s @ [Inl (Undefined ''_queue[0]'')]\<rparr>))"
| first: "at_place i Take_locked s \<Longrightarrow> queued s = x # xs \<Longrightarrow> locked_step s (move_to i (Shifting x 1) s)"
| shift: "at_place i (Shifting x k) s \<Longrightarrow> k < length (queued s) \<Longrightarrow>
    locked_step s (move_to i (Shifting x (k + 1)) (set_items ((queued s)[k - 1 := queued s ! k]) s))"
| pop_back: "at_place i (Shifting x k) s \<Longrightarrow> \<not> k < length (queued s) \<Longrightarrow>
    locked_step s (move_to i Leaving (set_items (butlast (queued s)) (s\<lparr>lq_received := lq_received s @ [Inr x]\<rparr>)))"
| unlock: "at_place i Leaving s \<Longrightarrow> locked_step s (move_to i Outside (s\<lparr>lq_mutex := ref_delete (lq_mutex s)\<rparr>))"

inductive locked_reachable :: "nat \<Rightarrow> 'a locked_queue \<Rightarrow> bool" for threads where
  start: "locked_reachable threads (locked_queue_new threads)"
| step: "locked_reachable threads s \<Longrightarrow> locked_step s s' \<Longrightarrow> locked_reachable threads s'"

section \<open>Who holds the lock\<close>

fun inside :: "'a place \<Rightarrow> bool" where
  "inside Outside = False" | "inside (Before_push _) = False" | "inside Claimed = False" | "inside _ = True"

definition one_inside :: "'a place list \<Rightarrow> nat option \<Rightarrow> bool" where
  "one_inside ps m \<longleftrightarrow> (\<forall>i < length ps. inside (ps ! i) \<longleftrightarrow> m = Some i) \<and> (\<forall>i. m = Some i \<longrightarrow> i < length ps)"

lemma one_inside_keep:
  "one_inside ps m \<Longrightarrow> i < length ps \<Longrightarrow> inside p = inside (ps ! i) \<Longrightarrow> one_inside (ps[i := p]) m"
  by (auto simp: one_inside_def nth_list_update)

lemma one_inside_enter:
  "one_inside ps None \<Longrightarrow> i < length ps \<Longrightarrow> inside p \<Longrightarrow> one_inside (ps[i := p]) (Some i)"
  by (auto simp: one_inside_def nth_list_update)

lemma one_inside_leave:
  "one_inside ps m \<Longrightarrow> i < length ps \<Longrightarrow> inside (ps ! i) \<Longrightarrow> \<not> inside p \<Longrightarrow> one_inside (ps[i := p]) None"
  by (auto simp: one_inside_def nth_list_update)

section \<open>The methods are single steps\<close>

text \<open>
  What the holder of the lock makes of the items of the abstract queue: a push counts from \<open>sem_post\<close>
  on, taking a message from \<open>pop_back\<close> on.
\<close>

fun seen :: "'a place \<Rightarrow> 'a list \<Rightarrow> 'a list \<Rightarrow> bool" where
  "seen (Pushed x) xs ys \<longleftrightarrow> xs = ys @ [x]"
| "seen (Shifting x k) xs ys \<longleftrightarrow>
     ys \<noteq> [] \<and> x = hd ys \<and> 1 \<le> k \<and> k \<le> length ys \<and> xs = take (k - 1) (tl ys) @ drop (k - 1) ys"
| "seen _ xs ys \<longleftrightarrow> xs = ys"

fun claims_of :: "'a place \<Rightarrow> nat" where
  "claims_of Claimed = 1" | "claims_of Take_locked = 1" | "claims_of (Shifting _ _) = 1" | "claims_of _ = 0"

definition holder :: "'a place list \<Rightarrow> nat option \<Rightarrow> 'a place" where
  "holder ps m = (case m of None \<Rightarrow> Outside | Some i \<Rightarrow> ps ! i)"

definition simulates :: "'a traffic \<Rightarrow> 'a locked_queue \<Rightarrow> bool" where
  "simulates t s \<longleftrightarrow>
     one_inside (lq_places s) (lq_mutex s) \<and>
     t_sent t = lq_sent s \<and> t_received t = lq_received s \<and>
     q_semaphore (t_queue t) = q_semaphore (lq_queue s) \<and>
     t_claims t = sum_list (map claims_of (lq_places s)) \<and>
     seen (holder (lq_places s) (lq_mutex s)) (queued s) (q_items (t_queue t))"

lemma claims_update:
  "i < length ps \<Longrightarrow> sum_list (map claims_of (ps[i := p])) + claims_of (ps ! i) = sum_list (map claims_of ps) + claims_of p"
proof (induction ps arbitrary: i)
  case (Cons a ps)
  then show ?case by (cases i) auto
qed simp

lemma holder_inside: "one_inside ps m \<Longrightarrow> i < length ps \<Longrightarrow> inside (ps ! i) \<Longrightarrow> m = Some i"
  by (simp add: one_inside_def)

lemma holder_other:
  "one_inside ps m \<Longrightarrow> i < length ps \<Longrightarrow> \<not> inside (ps ! i) \<Longrightarrow> holder (ps[i := p]) m = holder ps m"
  by (auto simp: one_inside_def holder_def split: option.split)

lemma holder_self: "i < length ps \<Longrightarrow> holder (ps[i := p]) (Some i) = p" "holder ps None = Outside"
  by (simp_all add: holder_def)

text \<open>A thread that is not inside moves to another place that is not; what it changes of the abstract queue.\<close>

lemma simulates_outside:
  assumes sim: "simulates t s" and i: "i < length (lq_places s)"
    and out: "\<not> inside (lq_places s ! i)" "\<not> inside p"
    and n: "n + claims_of (lq_places s ! i) = t_claims t + claims_of p"
  shows "simulates (t\<lparr>t_queue := (t_queue t)\<lparr>q_semaphore := k\<rparr>, t_claims := n\<rparr>)
    (move_to i p (s\<lparr>lq_queue := (lq_queue s)\<lparr>q_semaphore := k\<rparr>\<rparr>))"
proof -
  have one: "one_inside (lq_places s) (lq_mutex s)" using sim by (simp add: simulates_def)
  show ?thesis
    using sim n claims_update [OF i, of p] one_inside_keep [OF one i, of p] holder_other [OF one i out(1), of p] out
    by (simp add: simulates_def move_to_def)
qed

text \<open>A thread takes the lock.\<close>

lemma simulates_lock:
  assumes sim: "simulates t s" and i: "i < length (lq_places s)" and m: "lock_aquire i (lq_mutex s) = Some m"
    and p: "inside p" "claims_of p = claims_of (lq_places s ! i)" "\<And>xs ys. seen p xs ys \<longleftrightarrow> xs = ys"
  shows "simulates t (move_to i p (s\<lparr>lq_mutex := m\<rparr>))"
proof -
  have free: "lq_mutex s = None" "m = Some i" using m by (simp_all add: lock_aquire_iff)
  have one: "one_inside (lq_places s) None" using sim free by (simp add: simulates_def)
  show ?thesis
    using sim free claims_update [OF i, of p] one_inside_enter [OF one i p(1)] p i
    by (simp add: simulates_def move_to_def holder_self)
qed

text \<open>The holder of the lock goes on, and may give it back.\<close>

lemma simulates_inside:
  assumes sim: "simulates t s" and i: "i < length (lq_places s)" "inside (lq_places s ! i)"
    and s': "lq_places s' = (lq_places s)[i := p]" "lq_mutex s' = (if inside p then lq_mutex s else None)"
    and t': "t_sent t' = lq_sent s'" "t_received t' = lq_received s'"
      "q_semaphore (t_queue t') = q_semaphore (lq_queue s')"
      "t_claims t' + claims_of (lq_places s ! i) = t_claims t + claims_of p"
      "seen (if inside p then p else Outside) (queued s') (q_items (t_queue t'))"
  shows "simulates t' s'"
proof -
  have one: "one_inside (lq_places s) (lq_mutex s)" using sim by (simp add: simulates_def)
  have m: "lq_mutex s = Some i" using holder_inside [OF one i] .
  have "one_inside (lq_places s') (lq_mutex s')"
    using one_inside_keep [OF one i(1), of p] one_inside_leave [OF one i, of p] i(2) s' by simp
  moreover have "holder (lq_places s') (lq_mutex s') = (if inside p then p else Outside)"
    using s' m i(1) by (simp add: holder_self)
  moreover have "t_claims t' = sum_list (map claims_of (lq_places s'))"
    using claims_update [OF i(1), of p] sim s'(1) t'(4) by (simp add: simulates_def)
  ultimately show ?thesis using t' by (simp add: simulates_def)
qed

lemma seen_holder:
  assumes "simulates t s" "i < length (lq_places s)" "inside (lq_places s ! i)"
  shows "seen (lq_places s ! i) (queued s) (q_items (t_queue t))"
  using assms holder_inside [of "lq_places s" "lq_mutex s" i] by (simp add: simulates_def holder_def)

text \<open>One turn of the loop of \<open>waitForMessage\<close>.\<close>

lemma shift_turn:
  assumes "ys \<noteq> []" "1 \<le> k" "k < length ys" "xs = take (k - 1) (tl ys) @ drop (k - 1) ys"
  shows "xs[k - 1 := xs ! k] = take k (tl ys) @ drop k ys"
proof -
  obtain j where k: "k = Suc j" using assms(2) by (cases k) auto
  have fold: "fold (\<lambda>i v. v[i - 1 := v ! i]) [1..<Suc j] ys = xs" using shift_loop [of j ys] assms k by simp
  have "fold (\<lambda>i v. v[i - 1 := v ! i]) [1..<Suc k] ys = xs[k - 1 := xs ! k]"
    using fold by (simp add: k)
  with shift_loop [of k ys] assms(3) show ?thesis by simp
qed

lemma shift_end:
  assumes "ys \<noteq> []" "k = length ys" "xs = take (k - 1) (tl ys) @ drop (k - 1) ys"
  shows "butlast xs = tl ys"
  using assms by (cases ys rule: rev_cases) (auto simp: butlast_append)

lemma locked_step_simulated:
  assumes sim: "simulates t s" and step: "locked_step s s'"
  shows "\<exists>t'. (t' = t \<or> traffic_step t t') \<and> simulates t' s'"
  using step
proof (cases rule: locked_step.cases)
  case (call_queue i x)
  then have "simulates (t\<lparr>t_queue := (t_queue t)\<lparr>q_semaphore := q_semaphore (t_queue t)\<rparr>, t_claims := t_claims t\<rparr>)
      (move_to i (Before_push x) (s\<lparr>lq_queue := (lq_queue s)\<lparr>q_semaphore := q_semaphore (t_queue t)\<rparr>\<rparr>))"
    using sim by (intro simulates_outside) (simp_all add: at_place_def)
  moreover have "s\<lparr>lq_queue := (lq_queue s)\<lparr>q_semaphore := q_semaphore (t_queue t)\<rparr>\<rparr> = s"
    using sim by (simp add: simulates_def)
  ultimately have "simulates t s'" unfolding call_queue(1) by simp
  then show ?thesis by blast
next
  case (lock_queue i x m)
  with sim have "simulates t s'" by (auto intro!: simulates_lock simp: at_place_def)
  then show ?thesis by blast
next
  case (push_back i x)
  with sim seen_holder [OF sim, of i] have "simulates t s'"
    by (intro simulates_inside [OF sim, of i s' "Pushed x"])
      (simp_all add: at_place_def move_to_def set_items_def simulates_def)
  then show ?thesis by blast
next
  case (post i x)
  let ?t = "t\<lparr>t_queue := queue_push x (t_queue t), t_sent := t_sent t @ [x]\<rparr>"
  from post sim seen_holder [OF sim, of i] have "simulates ?t s'"
    by (intro simulates_inside [OF sim, of i s' Leaving])
      (simp_all add: at_place_def move_to_def simulates_def queue_push_def)
  with traffic_step.push [of t x] show ?thesis by blast
next
  case (wait i q)
  from wait(3) have q: "0 < q_semaphore (lq_queue s)" "q = (lq_queue s)\<lparr>q_semaphore := q_semaphore (lq_queue s) - 1\<rparr>"
    by (auto simp: sem_wait_def split: if_splits)
  have eq: "q_semaphore (t_queue t) = q_semaphore (lq_queue s)" using sim by (simp add: simulates_def)
  let ?t = "t\<lparr>t_queue := (t_queue t)\<lparr>q_semaphore := q_semaphore (lq_queue s) - 1\<rparr>, t_claims := t_claims t + 1\<rparr>"
  have "simulates ?t (move_to i Claimed (s\<lparr>lq_queue := (lq_queue s)\<lparr>q_semaphore := q_semaphore (lq_queue s) - 1\<rparr>\<rparr>))"
    using wait(2) sim by (intro simulates_outside) (simp_all add: at_place_def)
  moreover have "traffic_step t ?t" by (rule traffic_step.claim) (use q eq in \<open>simp add: sem_wait_def\<close>)
  ultimately show ?thesis using wait(1) q(2) by auto
next
  case (lock_take i m)
  with sim have "simulates t s'" by (auto intro!: simulates_lock simp: at_place_def)
  then show ?thesis by blast
next
  case (no_first i)
  let ?r = "Inl (Undefined ''_queue[0]'')"
  let ?t = "t\<lparr>t_queue := t_queue t, t_claims := t_claims t - 1, t_received := t_received t @ [?r]\<rparr>"
  have place: "i < length (lq_places s)" "lq_places s ! i = Take_locked" using no_first by (simp_all add: at_place_def)
  have pos: "0 < t_claims t" using claims_update [OF place(1), of Outside] place sim by (simp add: simulates_def)
  have empty: "q_items (t_queue t) = []" using seen_holder [OF sim place(1)] place no_first by simp
  have "simulates ?t s'"
    by (rule simulates_inside [OF sim place(1), of s' Leaving])
      (use no_first pos empty place sim in \<open>simp_all add: move_to_def simulates_def\<close>)
  moreover have "traffic_step t ?t"
    by (rule traffic_step.take [OF pos]) (simp add: take_first_def empty)
  ultimately show ?thesis by blast
next
  case (first i x xs)
  then have place: "i < length (lq_places s)" "lq_places s ! i = Take_locked" by (simp_all add: at_place_def)
  then have ys: "q_items (t_queue t) = x # xs" using seen_holder [OF sim place(1)] first(3) by simp
  have "simulates t s'"
    by (rule simulates_inside [OF sim place(1), of s' "Shifting x 1"])
      (use ys place first(3) sim in \<open>simp_all add: first(1) move_to_def simulates_def\<close>)
  then show ?thesis by blast
next
  case (shift i x k)
  have place: "i < length (lq_places s)" "lq_places s ! i = Shifting x k" using shift by (simp_all add: at_place_def)
  let ?ys = "q_items (t_queue t)"
  have ys: "?ys \<noteq> []" "x = hd ?ys" "1 \<le> k" "k \<le> length ?ys" "queued s = take (k - 1) (tl ?ys) @ drop (k - 1) ?ys"
    using seen_holder [OF sim place(1)] place by simp_all
  then have "length (queued s) = length ?ys" by simp
  with shift(3) ys shift_turn [of ?ys k "queued s"] place sim have "simulates t s'"
    by (intro simulates_inside [OF sim place(1), of s' "Shifting x (k + 1)"])
      (simp_all add: shift(1) move_to_def set_items_def simulates_def)
  then show ?thesis by blast
next
  case (pop_back i x k)
  let ?ys = "q_items (t_queue t)"
  let ?t = "t\<lparr>t_queue := (t_queue t)\<lparr>q_items := tl ?ys\<rparr>, t_claims := t_claims t - 1, t_received := t_received t @ [Inr x]\<rparr>"
  have place: "i < length (lq_places s)" "lq_places s ! i = Shifting x k" using pop_back by (simp_all add: at_place_def)
  have ys: "?ys \<noteq> []" "x = hd ?ys" "k \<le> length ?ys" "queued s = take (k - 1) (tl ?ys) @ drop (k - 1) ?ys"
    using seen_holder [OF sim place(1)] place by simp_all
  then have "length (queued s) = length ?ys" by simp
  with pop_back(3) ys(3) have k: "k = length ?ys" by simp
  have pos: "0 < t_claims t" using claims_update [OF place(1), of Outside] place sim by (simp add: simulates_def)
  have "simulates ?t s'"
    by (rule simulates_inside [OF sim place(1), of s' Leaving])
      (use shift_end [OF ys(1) k ys(4)] pos place sim in \<open>simp_all add: pop_back(1) move_to_def set_items_def simulates_def\<close>)
  moreover have "take_first (t_queue t) = (Inr x, (t_queue t)\<lparr>q_items := tl ?ys\<rparr>)"
    using ys(1,2) by (cases ?ys) (simp_all add: take_first_def shift_down_eq)
  from traffic_step.take [OF pos this] have "traffic_step t ?t" .
  ultimately show ?thesis by blast
next
  case (unlock i)
  with sim seen_holder [OF sim, of i] have "simulates t s'"
    by (intro simulates_inside [OF sim, of i s' Outside])
      (simp_all add: at_place_def move_to_def simulates_def)
  then show ?thesis by blast
qed

lemma locked_reachable_simulated:
  "locked_reachable threads s \<Longrightarrow> \<exists>t. traffic_reachable t \<and> simulates t s"
proof (induction rule: locked_reachable.induct)
  case start
  have "simulates traffic_new (locked_queue_new threads)"
    by (simp add: simulates_def traffic_new_def locked_queue_new_def one_inside_def holder_def sum_list_replicate
        map_replicate)
  then show ?case using traffic_reachable.start by blast
next
  case (step s s')
  then obtain t where t: "traffic_reachable t" "simulates t s" by blast
  from locked_step_simulated [OF t(2) step.hyps(2)] obtain t' where
    t': "t' = t \<or> traffic_step t t'" "simulates t' s'" by blast
  with traffic_reachable.step [OF t(1), of t'] t(1) show ?case by blast
qed

text \<open>What has been taken, and what is left of what was sent; while nobody is inside, that is the queue.\<close>

lemma locked_queue_fifo:
  assumes "locked_reachable threads s"
  shows "(\<forall>r \<in> set (lq_received s). \<exists>x. r = Inr x) \<and>
    (\<exists>left. map Inr (lq_sent s) = lq_received s @ map Inr left \<and> (lq_mutex s = None \<longrightarrow> queued s = left))"
proof -
  obtain t where t: "traffic_reachable t" "simulates t s" using locked_reachable_simulated [OF assms] by blast
  have inv: "map Inr (lq_sent s) = lq_received s @ map Inr (q_items (t_queue t))"
    using traffic_reachable_inv [OF t(1)] t(2) by (simp add: traffic_inv_def simulates_def)
  then have "set (lq_received s) \<subseteq> set (map Inr (lq_sent s))" by simp
  then have "\<forall>r \<in> set (lq_received s). \<exists>x. r = Inr x" by fastforce
  moreover have "queued s = q_items (t_queue t)" if "lq_mutex s = None"
  proof -
    have "seen (holder (lq_places s) (lq_mutex s)) (queued s) (q_items (t_queue t))" using t(2) by (simp add: simulates_def)
    then show ?thesis unfolding that by (simp add: holder_def)
  qed
  ultimately show ?thesis using inv by (intro conjI exI [of _ "q_items (t_queue t)"]) simp_all
qed

lemma one_at_a_time:
  assumes "locked_reachable threads s" "i < length (lq_places s)" "j < length (lq_places s)"
    and "inside (lq_places s ! i)" "inside (lq_places s ! j)"
  shows "i = j"
proof -
  obtain t where "simulates t s" using locked_reachable_simulated [OF assms(1)] by blast
  then have "one_inside (lq_places s) (lq_mutex s)" by (simp add: simulates_def)
  then have "lq_mutex s = Some i" "lq_mutex s = Some j" using holder_inside assms(2-) by blast+
  then show ?thesis by simp
qed

lemma locked_run: "locked_reachable n s \<Longrightarrow> locked_step s s' \<Longrightarrow> s' = u \<Longrightarrow> locked_reachable n u"
  using locked_reachable.step by blast

end
