(* ===== verification/LockOrder.thy ===== *)
theory LockOrder
  imports Locks
begin

text \<open>
  Why the threads of the pool and of the relay never wait for each other for ever: which locks their
  methods take, one inside the other, and in which order. A method is the list of its actions on
  locks, with its conditions as parameters; \<open>OBTAIN_LOCK\<close> holds a lock to the end of its scope.

  Not here are the locks that are taken while no other is held and inside which at most the log's is
  taken: those of the random source, of the resolver and of the plugins, and the one a new thread
  waits for (theory Sync). No thread is cancelled.
\<close>

section \<open>Threads and locks\<close>

text \<open>
  The lock of a list of connections; that of a connection (the jobs of a miner, the subscriptions of a
  bus client); that of a job manager; that of a queue; and that of the log.
\<close>

datatype shared_lock =
    Connections_lock | Connection_lock nat | Manager_lock | Queue_lock nat | Logger_lock

datatype lock_action = Takes shared_lock | Gives shared_lock

definition obtain_lock :: "shared_lock \<Rightarrow> lock_action list \<Rightarrow> lock_action list" where
  "obtain_lock lock body = Takes lock # body @ [Gives lock]"

text \<open>What each thread still has to do, and who holds which lock.\<close>

record lock_run =
  lr_threads :: "lock_action list list"
  lr_holder :: "shared_lock \<Rightarrow> nat option"

definition lock_run_new :: "lock_action list list \<Rightarrow> lock_run" where
  "lock_run_new threads = \<lparr>lr_threads = threads, lr_holder = (\<lambda>_. None)\<rparr>"

definition goes_on :: "nat \<Rightarrow> lock_action list \<Rightarrow> shared_lock \<Rightarrow> nat option \<Rightarrow> lock_run \<Rightarrow> lock_run" where
  "goes_on i rest lock owner s =
     \<lparr>lr_threads = (lr_threads s)[i := rest], lr_holder = (lr_holder s)(lock := owner)\<rparr>"

inductive lock_step :: "lock_run \<Rightarrow> lock_run \<Rightarrow> bool" where
  takes: "i < length (lr_threads s) \<Longrightarrow> lr_threads s ! i = Takes lock # rest \<Longrightarrow>
    lock_aquire i (lr_holder s lock) = Some owner \<Longrightarrow> lock_step s (goes_on i rest lock owner s)"
| gives: "i < length (lr_threads s) \<Longrightarrow> lr_threads s ! i = Gives lock # rest \<Longrightarrow>
    lock_step s (goes_on i rest lock (ref_delete (lr_holder s lock)) s)"

inductive lock_reachable :: "lock_action list list \<Rightarrow> lock_run \<Rightarrow> bool" for threads where
  start: "lock_reachable threads (lock_run_new threads)"
| step: "lock_reachable threads s \<Longrightarrow> lock_step s s' \<Longrightarrow> lock_reachable threads s'"

definition all_through :: "lock_run \<Rightarrow> bool" where
  "all_through s \<longleftrightarrow> (\<forall>rest \<in> set (lr_threads s). rest = [])"

section \<open>The methods\<close>

text \<open>\<open>log_raw\<close>, for a message that is logged at all.\<close>

definition log_locks :: "bool \<Rightarrow> lock_action list" where
  "log_locks enabled = (if enabled then obtain_lock Logger_lock [] else [])"

definition logs_locks :: "nat \<Rightarrow> lock_action list" where
  "logs_locks n = concat (replicate n (log_locks True))"

text \<open>The pool. \<open>n\<close> is how many messages are logged where that depends on more than the level.\<close>

definition create_job_locks :: "lock_action list" where
  "create_job_locks = obtain_lock Manager_lock []"

definition job_locks :: "bool \<Rightarrow> nat \<Rightarrow> nat \<Rightarrow> bool \<Rightarrow> bool \<Rightarrow> lock_action list" where
  "job_locks level n client forceNew activeJob =
     obtain_lock (Connection_lock client)
       (if \<not> forceNew \<and> activeJob then [] else logs_locks n @ create_job_locks @ log_locks level)"

definition clear_jobs_locks :: "bool \<Rightarrow> nat \<Rightarrow> lock_action list" where
  "clear_jobs_locks level client = obtain_lock (Connection_lock client) (log_locks level)"

definition get_active_job_locks :: "nat \<Rightarrow> lock_action list" where
  "get_active_job_locks client = obtain_lock (Connection_lock client) []"

text \<open>\<open>sent\<close> is how many messages writing to the socket logs.\<close>

definition send_job_locks ::
  "bool \<Rightarrow> nat \<Rightarrow> nat \<Rightarrow> bool \<Rightarrow> nat \<Rightarrow> bool \<Rightarrow> bool \<Rightarrow> lock_action list" where
  "send_job_locks level n sent diffChanges client forceNew activeJob =
     job_locks level n client forceNew activeJob @
     (if diffChanges then log_locks level @ logs_locks sent else []) @ logs_locks sent"

definition send_new_jobs_locks ::
  "bool \<Rightarrow> (nat \<Rightarrow> nat) \<Rightarrow> (nat \<Rightarrow> nat) \<Rightarrow> (nat \<Rightarrow> bool) \<Rightarrow> (nat \<Rightarrow> bool) \<Rightarrow> bool \<Rightarrow> nat list \<Rightarrow>
   lock_action list" where
  "send_new_jobs_locks level n sent diffChanges activeJob forceUpdate clients =
     obtain_lock Connections_lock
       (concat (map (\<lambda>client.
          (if forceUpdate then clear_jobs_locks level client else []) @
          send_job_locks level (n client) (sent client) (diffChanges client) client forceUpdate (activeJob client))
        clients))"

text \<open>An update of the work, as the worker of the pool makes it: \<open>rebalances\<close> is what balancing logs.\<close>

definition update_work_locks ::
  "bool \<Rightarrow> nat \<Rightarrow> (nat \<Rightarrow> nat) \<Rightarrow> (nat \<Rightarrow> nat) \<Rightarrow> (nat \<Rightarrow> bool) \<Rightarrow> (nat \<Rightarrow> bool) \<Rightarrow> bool \<Rightarrow> nat list \<Rightarrow>
   lock_action list" where
  "update_work_locks level rebalances n sent diffChanges activeJob blockUpdate clients =
     obtain_lock Manager_lock [] @
     logs_locks rebalances @
     obtain_lock Manager_lock (logs_locks rebalances) @
     send_new_jobs_locks level n sent diffChanges activeJob blockUpdate clients"

text \<open>Queues: \<open>queue\<close>, and \<open>waitForMessage\<close> behind its semaphore.\<close>

definition queue_locks :: "nat \<Rightarrow> lock_action list" where
  "queue_locks q = obtain_lock (Queue_lock q) []"

text \<open>
  The list of connections. The connection that is taken out is destroyed while the list is locked;
  \<open>n\<close> counts what that logs.
\<close>

definition connections_add_locks :: "bool \<Rightarrow> lock_action list" where
  "connections_add_locks level = obtain_lock Connections_lock (log_locks level)"

definition connections_remove_locks :: "nat \<Rightarrow> lock_action list" where
  "connections_remove_locks n = obtain_lock Connections_lock (logs_locks n)"

text \<open>The relay.\<close>

definition set_subscriptions_locks :: "bool \<Rightarrow> nat \<Rightarrow> lock_action list" where
  "set_subscriptions_locks level connection = log_locks level @ obtain_lock (Connection_lock connection) []"

definition is_subscribed_locks :: "nat \<Rightarrow> lock_action list" where
  "is_subscribed_locks connection = obtain_lock (Connection_lock connection) []"

definition queue_if_subscribed_locks :: "(nat \<Rightarrow> bool) \<Rightarrow> nat \<Rightarrow> lock_action list" where
  "queue_if_subscribed_locks subscribed connection =
     is_subscribed_locks connection @ (if subscribed connection then queue_locks connection else [])"

text \<open>The clients are counted for the log only, and before it is locked.\<close>

definition count_subscribed_locks :: "nat list \<Rightarrow> lock_action list" where
  "count_subscribed_locks connections =
     obtain_lock Connections_lock (concat (map is_subscribed_locks connections))"

definition broadcast_locks :: "bool \<Rightarrow> bool \<Rightarrow> (nat \<Rightarrow> bool) \<Rightarrow> nat list \<Rightarrow> lock_action list" where
  "broadcast_locks module level subscribed connections =
     (if module then count_subscribed_locks connections @ log_locks level else []) @
     obtain_lock Connections_lock (concat (map (queue_if_subscribed_locks subscribed) connections))"

text \<open>What the threads of the two programs call, with any values of the parameters, any number of times.\<close>

inductive lock_call :: "lock_action list \<Rightarrow> bool" where
  update_work: "lock_call (update_work_locks level rebalances n sent diffChanges activeJob blockUpdate clients)"
| send_job: "lock_call (send_job_locks level n sent diffChanges client forceNew activeJob)"
| get_active_job: "lock_call (get_active_job_locks client)"
| add: "lock_call (connections_add_locks level)"
| remove: "lock_call (connections_remove_locks n)"
| queue: "lock_call (queue_locks q)"
| set_subscriptions: "lock_call (set_subscriptions_locks level connection)"
| broadcast: "lock_call (broadcast_locks module level subscribed connections)"
| log: "lock_call (logs_locks n)"

section \<open>The order\<close>

text \<open>
  The list of connections comes first, then a connection, then the job manager or a queue, then the
  log: inside a lock only later ones are taken. \<open>held\<close> are the locks of the thread, the last first.
\<close>

fun lock_rank :: "shared_lock \<Rightarrow> nat" where
  "lock_rank Connections_lock = 0" | "lock_rank (Connection_lock c) = 1" | "lock_rank Manager_lock = 2"
| "lock_rank (Queue_lock q) = 2" | "lock_rank Logger_lock = 3"

fun in_order :: "shared_lock list \<Rightarrow> lock_action list \<Rightarrow> bool" where
  "in_order held [] \<longleftrightarrow> held = []"
| "in_order held (Takes lock # rest) \<longleftrightarrow>
     (\<forall>l \<in> set held. lock_rank l < lock_rank lock) \<and> in_order (lock # held) rest"
| "in_order held (Gives lock # rest) \<longleftrightarrow>
     (case held of [] \<Rightarrow> False | l # held' \<Rightarrow> l = lock \<and> in_order held' rest)"

text \<open>A method may be called wherever the locks that are held come before the first of its own.\<close>

definition callable :: "nat \<Rightarrow> lock_action list \<Rightarrow> bool" where
  "callable r as \<longleftrightarrow>
     (\<forall>held rest. (\<forall>l \<in> set held. lock_rank l < r) \<longrightarrow> in_order held rest \<longrightarrow> in_order held (as @ rest))"

lemma callable_Nil [simp]: "callable r []"
  by (simp add: callable_def)

lemma callable_in_order: "callable r as \<Longrightarrow> in_order [] as"
  unfolding callable_def by (drule spec [of _ "[]"], drule spec [of _ "[]"]) simp

lemma callable_append: "callable r as \<Longrightarrow> callable r bs \<Longrightarrow> callable r (as @ bs)"
  by (simp add: callable_def)

lemma callable_concat: "\<forall>as \<in> set ass. callable r as \<Longrightarrow> callable r (concat ass)"
  by (induction ass) (auto intro: callable_append)

lemma callable_earlier: "callable r as \<Longrightarrow> r' \<le> r \<Longrightarrow> callable r' as"
  by (fastforce simp: callable_def)

lemma callable_obtain: "callable (Suc (lock_rank lock)) body \<Longrightarrow> callable (lock_rank lock) (obtain_lock lock body)"
  unfolding callable_def obtain_lock_def
  by (intro allI impI) (simp add: less_Suc_eq)

lemma callable_lock: "callable (Suc r) body \<Longrightarrow> lock_rank lock = r \<Longrightarrow> callable r (obtain_lock lock body)"
  using callable_obtain by blast

lemma callable_logs: "callable 3 (log_locks level)" "callable 3 (logs_locks n)"
proof -
  show log: "callable 3 (log_locks level)" for level
    by (simp add: log_locks_def callable_lock)
  show "callable 3 (logs_locks n)"
    unfolding logs_locks_def by (rule callable_concat) (simp add: log)
qed

lemma callable_jobs:
  "callable 1 (job_locks level n client forceNew activeJob)" "callable 1 (clear_jobs_locks level client)"
  "callable 1 (get_active_job_locks client)" "callable 2 create_job_locks"
  "callable 1 (send_job_locks level n sent diffChanges client forceNew activeJob)"
proof -
  show create: "callable 2 create_job_locks"
    by (simp add: create_job_locks_def callable_lock)
  have logs: "callable 2 (logs_locks n)" "callable 2 (log_locks level)" for n level
    by (rule callable_earlier [OF callable_logs(2)], simp) (rule callable_earlier [OF callable_logs(1)], simp)
  show job: "callable 1 (job_locks level n client forceNew activeJob)"
    unfolding job_locks_def by (rule callable_lock) (simp_all add: callable_append logs create numeral_2_eq_2 [symmetric])
  show "callable 1 (clear_jobs_locks level client)"
    unfolding clear_jobs_locks_def by (rule callable_lock) (simp_all add: logs numeral_2_eq_2 [symmetric])
  show "callable 1 (get_active_job_locks client)"
    by (simp add: get_active_job_locks_def callable_lock)
  have "callable 1 (logs_locks n)" "callable 1 (log_locks level)" for n level
    by (rule callable_earlier [OF logs(1)], simp) (rule callable_earlier [OF logs(2)], simp)
  with job show "callable 1 (send_job_locks level n sent diffChanges client forceNew activeJob)"
    by (simp add: send_job_locks_def callable_append)
qed

lemma callable_relay: "callable 1 (is_subscribed_locks c)" "callable 1 (queue_if_subscribed_locks subscribed c)"
proof -
  show "callable 1 (is_subscribed_locks c)" by (simp add: is_subscribed_locks_def callable_lock)
  moreover have "callable 1 (queue_locks c)"
    by (rule callable_earlier [of 2]) (simp_all add: queue_locks_def callable_lock)
  ultimately show "callable 1 (queue_if_subscribed_locks subscribed c)"
    by (simp add: queue_if_subscribed_locks_def callable_append)
qed

lemma callable_call: "lock_call as \<Longrightarrow> callable 0 as"
proof (induction rule: lock_call.induct)
  case (update_work level rebalances n sent diffChanges activeJob blockUpdate clients)
  have "callable 0 (send_new_jobs_locks level n sent diffChanges activeJob blockUpdate clients)"
    unfolding send_new_jobs_locks_def
    by (rule callable_lock) (auto intro!: callable_concat callable_append callable_jobs [unfolded One_nat_def])
  moreover have "callable 0 (obtain_lock Manager_lock body)" if "callable 3 body" for body
    by (rule callable_earlier [of 2]) (simp_all add: callable_lock that)
  ultimately show ?case
    unfolding update_work_locks_def
    by (intro callable_append) (simp_all add: callable_logs callable_earlier [OF callable_logs(2)])
next
  case (broadcast module level subscribed connections)
  have "callable 0 (count_subscribed_locks connections)"
    unfolding count_subscribed_locks_def
    by (rule callable_lock) (auto intro!: callable_concat callable_relay [unfolded One_nat_def])
  moreover have "callable 0 (obtain_lock Connections_lock (concat (map (queue_if_subscribed_locks subscribed) connections)))"
    by (rule callable_lock) (auto intro!: callable_concat callable_relay [unfolded One_nat_def])
  ultimately show ?case
    by (simp add: broadcast_locks_def callable_append callable_earlier [OF callable_logs(1)])
next
  case (set_subscriptions level connection)
  have "callable 0 (obtain_lock (Connection_lock connection) [])"
    by (rule callable_earlier [of 1]) (simp_all add: callable_lock)
  then show ?case by (simp add: set_subscriptions_locks_def callable_append callable_earlier [OF callable_logs(1)])
next
  case (queue q)
  show ?case by (rule callable_earlier [of 2]) (simp_all add: queue_locks_def callable_lock)
next
  case (add level)
  show ?case
    unfolding connections_add_locks_def by (rule callable_lock) (simp_all add: callable_earlier [OF callable_logs(1)])
next
  case (remove n)
  show ?case
    unfolding connections_remove_locks_def by (rule callable_lock) (simp_all add: callable_earlier [OF callable_logs(2)])
qed (auto intro: callable_earlier [OF callable_jobs(5)] callable_earlier [OF callable_jobs(3)]
    callable_earlier [OF callable_logs(2)])

section \<open>No thread waits for ever\<close>

text \<open>What each thread holds, the last first.\<close>

definition lock_inv :: "lock_run \<Rightarrow> shared_lock list list \<Rightarrow> bool" where
  "lock_inv s held \<longleftrightarrow>
     length held = length (lr_threads s) \<and>
     (\<forall>i < length held. in_order (held ! i) (lr_threads s ! i)) \<and>
     (\<forall>lock i. lr_holder s lock = Some i \<longleftrightarrow> i < length held \<and> lock \<in> set (held ! i)) \<and>
     (\<forall>i < length held. distinct (held ! i))"

lemma lock_inv_step:
  assumes "lock_inv s held" "lock_step s s'"
  shows "\<exists>held'. lock_inv s' held'"
  using assms(2)
proof (cases rule: lock_step.cases)
  case (takes i lock rest owner)
  have free: "lr_holder s lock = None" "owner = Some i" using takes(4) by (simp_all add: lock_aquire_iff)
  have i: "i < length held" "in_order (held ! i) (Takes lock # rest)"
    using assms(1) takes(2,3) by (auto simp: lock_inv_def)
  have nobody: "lock \<notin> set (held ! j)" if "j < length held" for j
    using assms(1) free(1) that unfolding lock_inv_def by (metis option.distinct(1))
  have "lock_inv s' (held[i := lock # held ! i])"
    using assms(1) i nobody takes(1) free(2)
    by (auto simp: lock_inv_def goes_on_def nth_list_update)
  then show ?thesis by blast
next
  case (gives i lock rest)
  have i: "i < length held" "in_order (held ! i) (Gives lock # rest)"
    using assms(1) gives(2,3) by (auto simp: lock_inv_def)
  then obtain ls where ls: "held ! i = lock # ls" "in_order ls rest" by (auto split: list.splits)
  have mine: "lr_holder s lock = Some i" using assms(1) i(1) ls(1) by (simp add: lock_inv_def)
  have other: "lock \<notin> set (held ! j)" if "j < length held" "j \<noteq> i" for j
    using assms(1) mine that unfolding lock_inv_def by (metis option.inject)
  have "distinct (lock # ls)" using assms(1) i(1) ls(1) by (simp add: lock_inv_def flip: ls(1))
  with assms(1) i ls mine other gives(1) have "lock_inv s' (held[i := ls])"
    by (auto simp: lock_inv_def goes_on_def nth_list_update)
  then show ?thesis by blast
qed

lemma lock_reachable_inv:
  assumes "\<forall>thread \<in> set threads. \<exists>calls. thread = concat calls \<and> (\<forall>as \<in> set calls. lock_call as)"
    and "lock_reachable threads s"
  shows "\<exists>held. lock_inv s held"
  using assms(2)
proof (induction rule: lock_reachable.induct)
  case start
  have "in_order [] thread" if "thread \<in> set threads" for thread
  proof -
    obtain calls where "thread = concat calls" "\<forall>as \<in> set calls. callable 0 as"
      using assms(1) \<open>thread \<in> set threads\<close> callable_call by blast
    then show ?thesis using callable_in_order callable_concat by blast
  qed
  then have "lock_inv (lock_run_new threads) (replicate (length threads) [])"
    by (simp add: lock_inv_def lock_run_new_def)
  then show ?case by blast
next
  case (step s s')
  then show ?case using lock_inv_step by blast
qed

text \<open>Of the threads that are not through, one that waits for the last lock in the order can go on.\<close>

lemma lock_inv_progress:
  assumes inv: "lock_inv s held" and "\<not> all_through s"
  shows "\<exists>s'. lock_step s s'"
proof (rule ccontr)
  assume stuck: "\<not> (\<exists>s'. lock_step s s')"
  have wants: "\<exists>lock rest j. lr_threads s ! i = Takes lock # rest \<and> lr_holder s lock = Some j"
    if "i < length (lr_threads s)" "lr_threads s ! i \<noteq> []" for i
  proof -
    note i = that
    obtain a rest where a: "lr_threads s ! i = a # rest" using i(2) by (cases "lr_threads s ! i") auto
    show ?thesis
    proof (cases a)
      case (Gives lock)
      with stuck lock_step.gives [OF i(1)] a show ?thesis by blast
    next
      case (Takes lock)
      have "lr_holder s lock \<noteq> None"
      proof
        assume "lr_holder s lock = None"
        then have "lock_aquire i (lr_holder s lock) = Some (Some i)" by (simp add: lock_aquire_iff)
        from lock_step.takes [OF i(1) a [unfolded Takes] this] stuck show False by blast
      qed
      with a Takes show ?thesis by blast
    qed
  qed
  have later: "\<exists>j < length (lr_threads s). \<exists>lock' rest'. lr_threads s ! j = Takes lock' # rest' \<and>
      lock_rank lock < lock_rank lock'"
    if "i < length (lr_threads s)" "lr_threads s ! i = Takes lock # rest" for i lock rest
  proof -
    note i = that
    obtain j where j: "lr_holder s lock = Some j" using wants [OF i(1)] i(2) by auto
    then have held: "j < length held" "lock \<in> set (held ! j)" using inv by (auto simp: lock_inv_def)
    have order: "in_order (held ! j) (lr_threads s ! j)" using inv held(1) by (simp add: lock_inv_def)
    then have "lr_threads s ! j \<noteq> []" using held(2) by auto
    moreover have j': "j < length (lr_threads s)" using inv held(1) by (simp add: lock_inv_def)
    ultimately obtain lock' rest' where wanted: "lr_threads s ! j = Takes lock' # rest'" using wants by blast
    have "lock_rank lock < lock_rank lock'" using order held(2) by (simp add: wanted)
    with wanted j' show ?thesis by blast
  qed
  have "\<exists>i < length (lr_threads s). \<exists>lock rest. lr_threads s ! i = Takes lock # rest \<and> n \<le> lock_rank lock" for n
  proof (induction n)
    case 0
    obtain i where "i < length (lr_threads s)" "lr_threads s ! i \<noteq> []"
      using assms(2) by (auto simp: all_through_def in_set_conv_nth)
    with wants show ?case by blast
  next
    case (Suc n)
    then show ?case using later by (meson Suc_leI le_less_trans)
  qed
  from this [of 4] obtain lock where "4 \<le> lock_rank lock" by blast
  then show False by (cases lock) simp_all
qed

text \<open>Every action is one fewer to come: a run ends, and then everybody is through.\<close>

definition actions_left :: "lock_run \<Rightarrow> nat" where
  "actions_left s = sum_list (map length (lr_threads s))"

lemma thread_fewer:
  "i < length ts \<Longrightarrow> ts ! i = a # rest \<Longrightarrow> Suc (sum_list (map length (ts[i := rest]))) = sum_list (map length ts)"
proof (induction ts arbitrary: i)
  case (Cons t ts)
  then show ?case by (cases i) auto
qed simp

lemma lock_step_fewer: "lock_step s s' \<Longrightarrow> Suc (actions_left s') = actions_left s"
  by (induction rule: lock_step.induct) (simp_all add: actions_left_def goes_on_def thread_fewer)

lemma no_actions_left: "actions_left s = 0 \<longleftrightarrow> all_through s"
  by (auto simp: actions_left_def all_through_def)

text \<open>The runs of the pool and the relay: as long as somebody is not through there is a next step.\<close>

lemma lock_run_goes_on:
  assumes "\<forall>thread \<in> set threads. \<exists>calls. thread = concat calls \<and> (\<forall>as \<in> set calls. lock_call as)"
    and "lock_reachable threads s" "\<not> all_through s"
  shows "\<exists>s'. lock_step s s' \<and> actions_left s = Suc (actions_left s')"
  using lock_reachable_inv [OF assms(1,2)] lock_inv_progress [OF _ assms(3)] lock_step_fewer by metis

lemma lock_run_bounded: "(lock_step ^^ n) s s' \<Longrightarrow> n + actions_left s' = actions_left s"
proof (induction n arbitrary: s')
  case (Suc n)
  then obtain t where t: "(lock_step ^^ n) s t" "lock_step t s'" by auto
  from Suc.IH [OF t(1)] lock_step_fewer [OF t(2)] show ?case by simp
qed simp

lemma lock_reachable_steps: "lock_step\<^sup>*\<^sup>* s s' \<Longrightarrow> lock_reachable threads s \<Longrightarrow> lock_reachable threads s'"
  by (induction rule: rtranclp_induct) (auto intro: lock_reachable.step)

lemma lock_run_ends: "\<exists>s'. lock_step\<^sup>*\<^sup>* s s' \<and> \<not> (\<exists>t. lock_step s' t)"
proof (induction "actions_left s" arbitrary: s rule: less_induct)
  case less
  show ?case
  proof (cases "\<exists>t. lock_step s t")
    case True
    then obtain t where t: "lock_step s t" by blast
    have "actions_left t < actions_left s" using lock_step_fewer [OF t] by simp
    from less [OF this] t show ?thesis by (meson converse_rtranclp_into_rtranclp)
  qed blast
qed

text \<open>With the locks in the other order two threads can come to wait for each other.\<close>

lemma other_order_deadlocks:
  "\<exists>s. lock_reachable
      [obtain_lock Manager_lock (obtain_lock Connections_lock []),
       obtain_lock Connections_lock (obtain_lock Manager_lock [])] s \<and>
    \<not> all_through s \<and> \<not> (\<exists>s'. lock_step s s')"
proof -
  let ?a = "obtain_lock Manager_lock (obtain_lock Connections_lock [])"
  let ?b = "obtain_lock Connections_lock (obtain_lock Manager_lock [])"
  let ?a' = "tl ?a" and ?b' = "tl ?b"
  let ?s1 = "goes_on 0 ?a' Manager_lock (Some 0) (lock_run_new [?a, ?b])"
  let ?s2 = "goes_on 1 ?b' Connections_lock (Some 1) ?s1"
  have "lock_step (lock_run_new [?a, ?b]) ?s1"
    by (rule lock_step.takes) (simp_all add: lock_run_new_def obtain_lock_def lock_aquire_iff)
  moreover have "lock_step ?s1 ?s2"
    by (rule lock_step.takes) (simp_all add: lock_run_new_def goes_on_def obtain_lock_def lock_aquire_iff)
  ultimately have "lock_reachable [?a, ?b] ?s2"
    using lock_reachable.start lock_reachable.step by blast
  moreover have "\<not> all_through ?s2"
    by (simp add: all_through_def goes_on_def lock_run_new_def obtain_lock_def)
  moreover have "\<not> lock_step ?s2 s'" for s'
  proof
    assume "lock_step ?s2 s'"
    then show False
      by cases (auto simp: goes_on_def lock_run_new_def obtain_lock_def lock_aquire_iff less_Suc_eq)
  qed
  ultimately show ?thesis by blast
qed

end
