(* ===== verification/Run_Properties.thy ===== *)
theory Run_Properties
  imports Stratum_Properties Interleaving LockOrder
begin

text \<open>
  What holds of a pool while it runs, under every interleaving of the threads of its connections with
  the worker that brings new work, and what does not.
\<close>

section \<open>Jobs of all miners\<close>

text \<open>
  C4. In every interleaving of lines, subscriptions, arrivals, departures and updates of the work, as
  long as fewer than 2^32 steps are made: the active job of every miner is its newest one, every job
  that is held is on a well-formed state and asks for no more than a block of this state does, so
  that no solved block is rejected for its difficulty; and no two jobs have the same id, be it of
  one miner or of two.
\<close>

theorem running_pool_keeps_jobs:
  assumes "run_reachable env reports n s" and "\<And>info. reports info \<Longrightarrow> state_ok (gi_networkState info)" and "n < 2 ^ 32"
  shows "(\<forall>c \<in> set (clients_of s). jobs_inv c \<and> (\<forall>job \<in> set (sc_jobs c). job_ok job)) \<and>
    distinct (held_ids (clients_of s))"
  using run_reachable_inv [OF assms] by (simp add: run_inv_def list_all_iff client_ok_def)

section \<open>A miner that subscribes while the work changes\<close>

text \<open>
  C6. The information on the new block is set before the coinbase is made for it. A miner that
  subscribes in between gets a job with the new header and the coinbase of the old block: in every
  run in which an update waits and a miner without a job subscribes, two steps lead there.
\<close>

theorem subscription_mixes_blocks:
  assumes "run_reachable env reports n s" and "rn_worker s = Worker_waits"
    and "wait_for_message (rn_queue s) = Some (Inr info, q)" and "jm_information (manager_of s) = Some old"
    and "receiver_at i Receiver_waits s" and "sc_pooled (clients_of s ! i)" and "sc_activeJob (clients_of s ! i) = None"
    and "subscribes env packet = Some (messageId, client)"
  shows "\<exists>s' job. run_reachable env reports (n + 2) s' \<and> receiver_at i (Receiver_notifies (job_id job)) s' \<and>
    sc_jobs (clients_of s' ! i) = sc_jobs (clients_of s ! i) @ [job] \<and>
    job_information job = info \<and> job_coinbase job = jm_coinbase (manager_of s)"
proof -
  let ?s = "set_manager ((manager_of s)\<lparr>jm_information := Some info\<rparr>)
     (s\<lparr>rn_queue := q, rn_worker := Information_set (ns_differs (gi_networkState info) (gi_networkState old))\<rparr>)"
  have one: "run_reachable env reports (Suc n) ?s"
    by (rule run_reachable.step [OF assms(1) run_step.take_work [OF assms(2-4)]])
  have at: "receiver_at i Receiver_waits ?s" "sc_pooled (clients_of ?s ! i)" "sc_activeJob (clients_of ?s ! i) = None"
    "jm_information (manager_of ?s) = Some info"
    using assms(5-7) by (simp_all add: set_manager_def receiver_at_def)
  obtain s' job where step: "run_step env reports ?s s'" "sc_jobs (clients_of s' ! i) = sc_jobs (clients_of ?s ! i) @ [job]"
    "job_information job = info" "job_coinbase job = jm_coinbase (manager_of ?s)"
    "receiver_at i (Receiver_notifies (job_id job)) s'"
    using subscribe_makes_job [OF at(1-3) assms(8) at(4)] by metis
  have "run_reachable env reports (n + 2) s'" using run_reachable.step [OF one step(1)] by simp
  with step show ?thesis by (auto simp: set_manager_def)
qed

text \<open>
  C7. \<open>sendJob\<close> uses its reference to a job when the lock on the jobs is free again. In every run in
  which the worker is about to clear the jobs of a miner whose thread holds such a reference, one step
  leaves the reference to a job that is no more.
\<close>

theorem reference_to_job_dangles:
  assumes "run_reachable env reports n s" and "rn_worker s = Before_connection True i"
    and "receiver_at i (Receiver_notifies ref) s"
  shows "\<exists>s'. run_reachable env reports (Suc n) s' \<and> receiver_at i (Receiver_notifies ref) s' \<and> job_of i ref s' = None"
  using clear_dangles [OF assms(2,3), where env = env and reports = reports] run_reachable.step [OF assms(1)] by metis

section \<open>A run\<close>

definition subscribe_request :: jtree where
  "subscribe_request = JObject
     [(''id'', JInt 1), (''method'', JString ''mining.subscribe''), (''params'', JArray [JString ''miner''])]"

definition subscribe_env :: "jtree env" where
  "subscribe_env = easy_env\<lparr>e_json := tree_api\<lparr>j_parse := (\<lambda>_. Inr subscribe_request)\<rparr>\<rparr>"

definition easy_reports :: "generation_information \<Rightarrow> bool" where
  "easy_reports info \<longleftrightarrow> info = easy_info \<or> info = next_info"

text \<open>One miner, and a new block that is reported.\<close>

definition waiting_run :: run where
  "waiting_run = \<lparr>rn_pool = \<lparr>po_manager = po_manager easy_pool, po_clients = [(client_new 5 [1, 2, 3, 4])\<lparr>sc_pooled := True\<rparr>]\<rparr>,
     rn_queue = pool_update_work next_info queue_new, rn_worker = Worker_waits, rn_receivers = [Receiver_waits]\<rparr>"

lemma easy_reports_ok: "easy_reports info \<Longrightarrow> state_ok (gi_networkState info)"
  by (auto simp: easy_reports_def easy_info_def next_info_def generation_information_new_def)

lemma waiting_run_reachable: "run_reachable env easy_reports 2 waiting_run"
proof -
  let ?s0 = "\<lparr>rn_pool = \<lparr>po_manager = po_manager easy_pool, po_clients = []\<rparr>, rn_queue = queue_new,
    rn_worker = Worker_waits, rn_receivers = []\<rparr>"
  have "run_reachable env easy_reports 0 ?s0"
    by (rule run_reachable.start [OF next_info_fields(5)])
      (simp_all add: easy_reports_def easy_pool_def easy_manager_def job_manager_new_def)
  from run_reachable.step [OF this run_step.joined [where now = 5 and cid = "[1, 2, 3, 4]" and pooled = True]]
  have "run_reachable env easy_reports (Suc 0) (waiting_run\<lparr>rn_queue := queue_new\<rparr>)" by (simp add: waiting_run_def)
  from run_reachable.step [OF this run_step.new_work [of easy_reports next_info]] show ?thesis
    by (simp add: easy_reports_def waiting_run_def numeral_2_eq_2)
qed

lemma waiting_run_fields:
  "rn_worker waiting_run = Worker_waits" "receiver_at 0 Receiver_waits waiting_run"
  "wait_for_message (rn_queue waiting_run) = Some (Inr next_info, queue_new)"
  "jm_information (manager_of waiting_run) = Some easy_info" "jm_coinbase (manager_of waiting_run) = Some some_tx"
  "sc_pooled (clients_of waiting_run ! 0)" "sc_activeJob (clients_of waiting_run ! 0) = None"
  "sc_jobs (clients_of waiting_run ! 0) = []" "length (clients_of waiting_run) = 1"
  by (simp_all add: waiting_run_def receiver_at_def wait_for_message_eq pool_update_work_def queue_push_def queue_new_def
      next_info_fields(5) client_new_def) (simp add: easy_pool_def easy_manager_def)

lemma subscribes_request: "subscribes subscribe_env [] = Some (1, ''miner'')"
  by (simp add: subscribes_def subscribe_env_def subscribe_request_def tree_api_def parse_message_def j_const_member_def
      authorize_method_def extranonce_subscribe_method_def submit_method_def subscribe_method_def
      mining_subscribe_new_def get_param_string_def)

theorem subscription_mixes_blocks_witness:
  "\<exists>s job. run_reachable subscribe_env easy_reports 4 s \<and> sc_jobs (clients_of s ! 0) = [job] \<and>
     ns_blockHeight (job_state job) = 5 \<and> job_coinbase job = jm_coinbase easy_manager \<and>
     jm_information easy_manager = Some easy_info \<and> ns_blockHeight (gi_networkState easy_info) = 4"
proof -
  from subscription_mixes_blocks [OF waiting_run_reachable waiting_run_fields(1,3,4,2,6,7) subscribes_request]
  obtain s job where "run_reachable subscribe_env easy_reports 4 s" "sc_jobs (clients_of s ! 0) = [job]"
    "job_information job = next_info" "job_coinbase job = jm_coinbase (manager_of waiting_run)"
    by (auto simp: waiting_run_fields(8))
  then show ?thesis
    by (intro exI [of _ s] exI [of _ job])
      (simp add: next_info_fields waiting_run_fields(5), simp add: easy_manager_def)
qed

text \<open>The miner subscribes, the coinbase is made, and the worker comes to the miner.\<close>

lemma clearing_run:
  obtains s ref where "run_reachable subscribe_env easy_reports 6 s" "rn_worker s = Before_connection True 0"
    "receiver_at 0 (Receiver_notifies ref) s" "length (held_ids (clients_of s)) = 1"
proof -
  let ?s = "set_manager ((manager_of waiting_run)\<lparr>jm_information := Some next_info\<rparr>)
     (waiting_run\<lparr>rn_queue := queue_new, rn_worker := Information_set True\<rparr>)"
  have s: "run_reachable subscribe_env easy_reports 3 ?s"
    using run_reachable.step [OF waiting_run_reachable run_step.take_work [OF waiting_run_fields(1,3,4)]] next_differs
    by (simp add: numeral_3_eq_3 numeral_2_eq_2)
  have pre: "receiver_at 0 Receiver_waits ?s" "sc_pooled (clients_of ?s ! 0)" "sc_activeJob (clients_of ?s ! 0) = None"
    "jm_information (manager_of ?s) = Some next_info"
    using waiting_run_fields by (simp_all add: set_manager_def receiver_at_def)
  obtain t job where step: "run_step subscribe_env easy_reports ?s t"
    and jobs: "sc_jobs (clients_of t ! 0) = sc_jobs (clients_of ?s ! 0) @ [job]"
    and at: "receiver_at 0 (Receiver_notifies (job_id job)) t" and w: "rn_worker t = rn_worker ?s"
    and jm: "manager_of t = (manager_of ?s)\<lparr>jm_jobCounter := jm_jobCounter (manager_of ?s) + 1\<rparr>"
    and len: "length (clients_of t) = length (clients_of ?s)"
    using subscribe_makes_job [OF pre(1-3) subscribes_request pre(4), where reports = easy_reports] by metis
  have t: "run_reachable subscribe_env easy_reports 4 t" using run_reachable.step [OF s step] by simp
  have jm_t: "jm_coinbaseOutputs (manager_of t) = map Some easy_outputs" "jm_information (manager_of t) = Some next_info"
    unfolding jm by (simp_all add: set_manager_def waiting_run_def easy_pool_def)
  obtain others where outs: "easy_outputs = witness_for_coinbase_only toy_hash # others"
    using easy_outputs_Cons by blast
  have "(manager_of t)\<lparr>jm_coinbaseOutputs := map Some easy_outputs\<rparr> = manager_of t" unfolding jm_t(1) [symmetric] by simp
  then have balanced: "update_coinbase_outputs0 (manager_of t) = Some (Inr (), manager_of t)"
    using easy_rebalance jm_t unfolding outs by (simp add: update_coinbase_outputs0_def next_info_fields Let_def)
  have "rn_worker t = Information_set True" using w by (simp add: set_manager_def)
  from run_reachable.step [OF t run_step.balance [OF this balanced]]
  have u: "run_reachable subscribe_env easy_reports 5 (t\<lparr>rn_worker := Outputs_set True\<rparr>)" by (simp add: set_manager_def)
  let ?u = "t\<lparr>rn_worker := Outputs_set True\<rparr>"
  obtain tx where tx: "generate_coinbase_transaction (subscribe_env\<lparr>e_now := 5\<rparr>) (manager_of ?u) = Some (Inr tx, manager_of t)"
    using easy_generated [OF jm_t] by auto
  let ?v = "set_manager ((manager_of t)\<lparr>jm_coinbase := Some tx\<rparr>) (?u\<lparr>rn_worker := Before_connection True 0\<rparr>)"
  have v: "run_reachable subscribe_env easy_reports 6 ?v"
    using run_reachable.step [OF u run_step.coinbase [OF _ tx]] by simp
  have "length (clients_of t) = 1" using len by (simp add: set_manager_def waiting_run_def)
  then obtain c where "clients_of t = [c]" by (auto simp: length_Suc_conv)
  with jobs have "length (held_ids (clients_of t)) = 1" by (simp add: set_manager_def waiting_run_fields(8))
  with at show ?thesis by (intro that [OF v, of "job_id job"]) (simp_all add: set_manager_def receiver_at_def)
qed

theorem running_pool_keeps_jobs_witness:
  "\<exists>s. run_reachable subscribe_env easy_reports 6 s \<and> length (held_ids (clients_of s)) = 1 \<and>
     (\<forall>c \<in> set (clients_of s). jobs_inv c)"
proof -
  obtain s ref where "run_reachable subscribe_env easy_reports 6 s" "length (held_ids (clients_of s)) = 1"
    using clearing_run by metis
  with running_pool_keeps_jobs [OF this(1) easy_reports_ok] show ?thesis by auto
qed

theorem reference_to_job_dangles_witness:
  "\<exists>s ref. run_reachable subscribe_env easy_reports 7 s \<and> receiver_at 0 (Receiver_notifies ref) s \<and> job_of 0 ref s = None"
proof -
  obtain s ref where "run_reachable subscribe_env easy_reports 6 s" "rn_worker s = Before_connection True 0"
    "receiver_at 0 (Receiver_notifies ref) s"
    using clearing_run by metis
  from reference_to_job_dangles [OF this] show ?thesis by auto
qed

section \<open>Locks\<close>


definition some_threads :: "lock_action list list" where
  "some_threads =
     [update_work_locks True 2 (\<lambda>_. 2) (\<lambda>_. 0) (\<lambda>_. True) (\<lambda>_. False) True [0, 1],
      send_job_locks True 2 0 True 0 False False @ get_active_job_locks 0 @ connections_remove_locks 1]"


end
