(* ===== verification/Connections.thy ===== *)
theory Connections
  imports Sockets "HOL-Library.Multiset"
begin

text \<open>
  Listening, accepting and connecting (\<open>lib/socket/Listener\<close>, \<open>ConnectionManager\<close>,
  \<open>ListeningConnectionManager\<close>, \<open>IncomingConnection\<close>, \<open>ReconnectingClient\<close>, \<open>openConnectionTo\<close>). What the
  kernel answers to a system call is given; descriptors that were closed are kept in order.
\<close>

section \<open>The listener\<close>

record listener =
  ls_socket :: socket_base
  ls_port :: int
  ls_ipv6 :: bool

definition listener_new :: "int \<Rightarrow> bool \<Rightarrow> listener" where
  "listener_new port ipv6 = \<lparr>ls_socket = socket_base_new (- 1), ls_port = port, ls_ipv6 = ipv6\<rparr>"

definition listener_move :: "listener \<Rightarrow> listener \<times> listener" where
  "listener_move l =
     (case socket_base_move (ls_socket l) of
        (new, old) \<Rightarrow> (\<lparr>ls_socket = new, ls_port = ls_port l, ls_ipv6 = ls_ipv6 l\<rparr>, l\<lparr>ls_socket := old\<rparr>))"

text \<open>The answers of \<open>socket\<close>, \<open>setsockopt(IPV6_V6ONLY)\<close>, \<open>bind\<close> and \<open>listen\<close>, and \<open>errno\<close> after a failure.\<close>

record kernel =
  k_socket :: int
  k_v6only :: int
  k_bind :: int
  k_listen :: int
  k_errno :: int

definition open_socket_ipv4 :: "kernel \<Rightarrow> listener \<Rightarrow> int \<times> listener" where
  "open_socket_ipv4 k l =
     (let l = l\<lparr>ls_socket := \<lparr>sb_fd = k_socket k\<rparr>\<rparr> in
      if k_socket k < 0 then (k_errno k, l)
      else if k_bind k < 0 then (k_errno k, l)
      else (0, l))"

definition open_socket_ipv6 :: "kernel \<Rightarrow> listener \<Rightarrow> int \<times> listener" where
  "open_socket_ipv6 k l =
     (let l = l\<lparr>ls_socket := \<lparr>sb_fd = k_socket k\<rparr>\<rparr> in
      if k_socket k < 0 then (k_errno k, l)
      else if k_v6only k < 0 then (k_errno k, l)
      else if k_bind k < 0 then (k_errno k, l)
      else (0, l))"

definition listener_open :: "kernel \<Rightarrow> listener \<Rightarrow> int \<times> listener" where
  "listener_open k l =
     (if connected (ls_socket l) then (0, l)
      else
        case (if ls_ipv6 l then open_socket_ipv6 k l else open_socket_ipv4 k l) of
          (result, l') \<Rightarrow> if result \<noteq> 0 then (result, l') else (0, l'))"

text \<open>
  The loop of \<open>listen\<close> over what \<open>accept\<close> returns; what the handler throws is logged and dropped.
  \<open>None\<close>: it waits for the next connection.
\<close>

fun listener_accept ::
  "(socket_base \<Rightarrow> ('s, unit) op) \<Rightarrow> int \<Rightarrow> int list \<Rightarrow> 's \<Rightarrow> (int \<times> 's) option" where
  "listener_accept handler errno [] s = None"
| "listener_accept handler errno (conn_sock_fd # fds) s =
     (if conn_sock_fd \<ge> 0
      then (case handler (socket_base_new conn_sock_fd) s of (_, s') \<Rightarrow> listener_accept handler errno fds s')
      else Some (errno, s))"

definition listener_listen ::
  "kernel \<Rightarrow> (socket_base \<Rightarrow> ('s, unit) op) \<Rightarrow> int list \<Rightarrow> 's \<Rightarrow> (int \<times> 's) option" where
  "listener_listen k handler fds s =
     (if k_listen k < 0 then Some (k_errno k, s) else listener_accept handler (k_errno k) fds s)"

text \<open>\<open>ListeningConnectionManager::listen\<close>, and the thread that runs it and only ends with an exception.\<close>

definition manager_listen ::
  "kernel \<Rightarrow> (socket_base \<Rightarrow> ('s, unit) op) \<Rightarrow> int list \<Rightarrow> listener \<Rightarrow> 's \<Rightarrow> (int \<times> listener \<times> 's) option" where
  "manager_listen k handler fds l s =
     (case (if \<not> connected (ls_socket l) then listener_open k l else (0, l)) of
        (result, l') \<Rightarrow>
          if result \<noteq> 0 then Some (result, l', s)
          else map_option (\<lambda>(error, s'). (error, l', s')) (listener_listen k handler fds s))"

definition listener_thread_main ::
  "kernel \<Rightarrow> (socket_base \<Rightarrow> ('s, unit) op) \<Rightarrow> int list \<Rightarrow> listener \<Rightarrow> 's \<Rightarrow> (unit res \<times> listener \<times> 's) option" where
  "listener_thread_main k handler fds l s =
     map_option (\<lambda>(errorCode, l', s').
         (Inl (Runtime_error ''Failed to listen on stratum listener socket''), l', s'))
       (manager_listen k handler fds l s)"

section \<open>Incoming connections\<close>

record incoming =
  ic_address :: nat
  ic_socket :: socket_base
  ic_receiver :: thread
  ic_dangling :: bool

text \<open>
  The constructor: the socket is moved in, the receiver is created (\<open>created\<close> is what \<open>pthread_create\<close>
  answers). When the receiver's constructor throws, the base object closes the socket.
\<close>

definition incoming_connection_new ::
  "nat \<Rightarrow> int \<Rightarrow> socket_base \<Rightarrow> int list \<Rightarrow> incoming res \<times> int list" where
  "incoming_connection_new address created socket closed =
     (let own = fst (socket_base_move socket) in
      case thread_new created of
        Inl e \<Rightarrow> (Inl e, snd (socket_base_close own closed))
      | Inr receiver \<Rightarrow>
          (Inr \<lparr>ic_address = address, ic_socket = own, ic_receiver = receiver,
                ic_dangling = (th_state receiver = Failed_to_start)\<rparr>, closed))"

text \<open>
  A manager: its connections, the descriptors closed so far, the answers \<open>pthread_create\<close> will give,
  the address of the next object, and which descriptors \<open>accept\<close> has returned.
\<close>

record acceptor =
  am_clients :: "incoming list"
  am_closed :: "int list"
  am_created :: "nat \<Rightarrow> int"
  am_next :: nat
  am_accepted :: "int list"

definition acceptor_new :: "(nat \<Rightarrow> int) \<Rightarrow> acceptor" where
  "acceptor_new created = \<lparr>am_clients = [], am_closed = [], am_created = created, am_next = 0, am_accepted = []\<rparr>"

text \<open>
  \<open>addConnection\<close>. \<open>makeConnection\<close> is virtual; \<open>derived\<close> is what the constructor of its class does after
  the one of \<open>IncomingConnection\<close>, which may throw.
\<close>

definition add_incoming :: "(incoming \<Rightarrow> unit res) \<Rightarrow> socket_base \<Rightarrow> (acceptor, unit) op" where
  "add_incoming derived socket m =
     (let m' = m\<lparr>am_next := am_next m + 1\<rparr> in
      case incoming_connection_new (am_next m) (am_created m (am_next m)) socket (am_closed m) of
        (Inl e, closed) \<Rightarrow> (Inl e, m'\<lparr>am_closed := closed\<rparr>)
      | (Inr c, closed) \<Rightarrow>
          (case derived c of
             Inl e \<Rightarrow> (Inl e, m'\<lparr>am_closed := snd (socket_base_close (ic_socket c) closed)\<rparr>)
           | Inr _ \<Rightarrow>
               (Inr (), m'\<lparr>am_closed := closed,
                  am_clients := am_clients m @ [c\<lparr>ic_receiver := thread_start (ic_receiver c)\<rparr>]\<rparr>)))"

definition accept_handler :: "(incoming \<Rightarrow> unit res) \<Rightarrow> socket_base \<Rightarrow> (acceptor, unit) op" where
  "accept_handler derived socket m =
     add_incoming derived socket (m\<lparr>am_accepted := am_accepted m @ [sb_fd socket]\<rparr>)"

text \<open>
  \<open>cleanup\<close>, at the end of the receiver: the connection is taken out of its list and destroyed, which
  closes the socket if it is still open.
\<close>

definition dangling_address :: "acceptor \<Rightarrow> nat \<Rightarrow> bool" where
  "dangling_address m address = list_ex (\<lambda>c. ic_address c = address \<and> ic_dangling c) (am_clients m)"

definition connection_cleanup :: "nat \<Rightarrow> (acceptor, unit) op" where
  "connection_cleanup address m =
     (case connections_remove (dangling_address m) address False (map ic_address (am_clients m)) of
        (r, left) \<Rightarrow>
          (map_sum id (\<lambda>_. ()) r,
           m\<lparr>am_clients := filter (\<lambda>c. ic_address c \<in> set left) (am_clients m),
             am_closed := destroy_all (map ic_socket (filter (\<lambda>c. ic_address c \<notin> set left) (am_clients m)))
               (am_closed m)\<rparr>))"

text \<open>The end of \<open>receive\<close>: the receiver of a connection closes the socket.\<close>

definition connection_ended :: "nat \<Rightarrow> acceptor \<Rightarrow> acceptor" where
  "connection_ended i m =
     (let c = am_clients m ! i in
      case socket_base_close (ic_socket c) (am_closed m) of
        (sock, closed) \<Rightarrow> m\<lparr>am_clients := (am_clients m)[i := c\<lparr>ic_socket := sock\<rparr>], am_closed := closed\<rparr>)"

text \<open>A manager over time: connections come in, end and go, in any order.\<close>

inductive acceptor_step :: "(incoming \<Rightarrow> unit res) \<Rightarrow> acceptor \<Rightarrow> acceptor \<Rightarrow> bool" for derived where
  accepted: "0 \<le> fd \<Longrightarrow> accept_handler derived (socket_base_new fd) m = (r, m') \<Longrightarrow> acceptor_step derived m m'"
| ended: "i < length (am_clients m) \<Longrightarrow> acceptor_step derived m (connection_ended i m)"
| gone: "c \<in> set (am_clients m) \<Longrightarrow> connection_cleanup (ic_address c) m = (r, m') \<Longrightarrow> acceptor_step derived m m'"

inductive acceptor_reachable :: "(incoming \<Rightarrow> unit res) \<Rightarrow> acceptor \<Rightarrow> bool" for derived where
  start: "acceptor_reachable derived (acceptor_new created)"
| step: "acceptor_reachable derived m \<Longrightarrow> acceptor_step derived m m' \<Longrightarrow> acceptor_reachable derived m'"

definition held :: "incoming list \<Rightarrow> int multiset" where
  "held cs = mset (filter (\<lambda>fd. 0 \<le> fd) (map (sb_fd \<circ> ic_socket) cs))"

definition acceptor_inv :: "acceptor \<Rightarrow> bool" where
  "acceptor_inv m \<longleftrightarrow>
     distinct (map ic_address (am_clients m)) \<and>
     (\<forall>c \<in> set (am_clients m). ic_address c < am_next m \<and> \<not> ic_dangling c \<and> th_state (ic_receiver c) = Running) \<and>
     mset (am_accepted m) = held (am_clients m) + mset (am_closed m)"

section \<open>Descriptors are held or closed\<close>

lemma close_held:
  "held [c] + mset closed = mset (snd (socket_base_close (ic_socket c) closed))"
  "held (xs @ ys) = held xs + held ys"
  by (simp_all add: held_def socket_base_close_def connected_def)

lemma destroy_held: "mset (destroy_all (map ic_socket cs) closed) = held cs + mset closed"
proof (induction cs arbitrary: closed)
  case (Cons c cs)
  have "held (c # cs) = held [c] + held cs" using close_held(2) [of "[c]" cs] by simp
  with Cons [of "snd (socket_base_close (ic_socket c) closed)"] close_held(1) [of c closed] show ?case
    by (simp add: ac_simps)
qed (simp add: held_def)

lemma held_eq: "held cs = filter_mset (\<lambda>fd. 0 \<le> fd) (image_mset (sb_fd \<circ> ic_socket) (mset cs))"
  by (simp add: held_def)

lemma held_filter: "held (filter P cs) + held (filter (\<lambda>c. \<not> P c) cs) = held cs"
  unfolding held_eq mset_filter filter_union_mset [symmetric] image_mset_union [symmetric]
    multiset_partition [of "mset cs" P, symmetric] by (rule refl)

lemma filter_one: "distinct xs \<Longrightarrow> x \<in> set xs \<Longrightarrow> filter (\<lambda>y. y = x) xs = [x]"
  by (induction xs) (auto simp: filter_empty_conv)

lemma filter_address:
  assumes "acceptor_inv m" "c \<in> set (am_clients m)"
  shows "filter (\<lambda>d. ic_address d = ic_address c) (am_clients m) = [c]"
proof -
  have dist: "distinct (map ic_address (am_clients m))" using assms(1) by (simp add: acceptor_inv_def)
  then have "\<forall>d \<in> set (am_clients m). ic_address d = ic_address c \<longleftrightarrow> d = c"
    using assms(2) by (metis distinct_map inj_onD)
  then have "filter (\<lambda>d. ic_address d = ic_address c) (am_clients m) = filter (\<lambda>d. d = c) (am_clients m)"
    by (intro filter_cong refl) blast
  also have "\<dots> = [c]" using dist assms(2) by (intro filter_one) (simp_all add: distinct_map)
  finally show ?thesis .
qed

text \<open>Nothing dangles, so \<open>remove\<close> takes out the connection it is asked to, and only that.\<close>

lemma connection_cleanup_removes:
  assumes "acceptor_inv m" "c \<in> set (am_clients m)"
  shows "connection_cleanup (ic_address c) m =
    (Inr (), m\<lparr>am_clients := filter (\<lambda>d. ic_address d \<noteq> ic_address c) (am_clients m),
       am_closed := snd (socket_base_close (ic_socket c) (am_closed m))\<rparr>)"
proof -
  let ?cs = "am_clients m" let ?as = "map ic_address ?cs"
  have dist: "distinct ?as" and nd: "\<forall>a \<in> set ?as. \<not> dangling_address m a"
    using assms(1) by (auto simp: acceptor_inv_def dangling_address_def list_ex_iff distinct_map inj_on_def)
  have "connections_remove (dangling_address m) (ic_address c) False ?as = (Inr None, remove1 (ic_address c) ?as)"
    unfolding connections_remove_def connections_remove_none_dangling [OF nd] using assms(2) by simp
  moreover have "set (remove1 (ic_address c) ?as) = set ?as - {ic_address c}" using dist by simp
  moreover have "filter (\<lambda>d. ic_address d \<in> set ?as - {ic_address c}) ?cs = filter (\<lambda>d. ic_address d \<noteq> ic_address c) ?cs"
    by (rule filter_cong) auto
  moreover have "filter (\<lambda>d. ic_address d \<notin> set ?as - {ic_address c}) ?cs = [c]"
  proof -
    have "filter (\<lambda>d. ic_address d \<notin> set ?as - {ic_address c}) ?cs = filter (\<lambda>d. ic_address d = ic_address c) ?cs"
      by (rule filter_cong) auto
    then show ?thesis using filter_address [OF assms] by simp
  qed
  ultimately show ?thesis by (simp add: connection_cleanup_def)
qed

lemma held_Cons: "held (c # cs) = held [c] + held cs"
  using close_held(2) [of "[c]" cs] by simp

lemma accept_handler_inv:
  assumes inv: "acceptor_inv m" and fd: "0 \<le> fd"
  shows "acceptor_inv (snd (accept_handler derived (socket_base_new fd) m))"
proof -
  let ?n = "am_next m" let ?own = "fst (socket_base_move (socket_base_new fd))"
  have own: "?own = \<lparr>sb_fd = fd\<rparr>" by (simp add: socket_base_move_def socket_base_new_def)
  have closed: "snd (socket_base_close \<lparr>sb_fd = fd\<rparr> cl) = cl @ [fd]" for cl
    using fd by (simp add: socket_base_close_def connected_def)
  have old: "\<forall>c \<in> set (am_clients m). ic_address c < ?n + 1" using inv by (auto simp: acceptor_inv_def)
  have sum: "mset (am_accepted m) = held (am_clients m) + mset (am_closed m)"
    using inv by (simp add: acceptor_inv_def)
  show ?thesis
  proof (cases "thread_new (am_created m ?n)")
    case (Inl e)
    with inv sum own closed show ?thesis
      by (auto simp: accept_handler_def add_incoming_def incoming_connection_new_def acceptor_inv_def
          socket_base_new_def Let_def)
  next
    case (Inr t)
    have t: "th_state t = Waiting_to_start"
      using Inr by (auto simp: thread_new_def initialization_callback_def Let_def split: if_splits)
    let ?c = "\<lparr>ic_address = ?n, ic_socket = \<lparr>sb_fd = fd\<rparr>, ic_receiver = t, ic_dangling = (th_state t = Failed_to_start)\<rparr>"
    show ?thesis
    proof (cases "derived ?c")
      case (Inl e)
      with Inr inv sum own closed show ?thesis
        by (auto simp: accept_handler_def add_incoming_def incoming_connection_new_def acceptor_inv_def
            socket_base_new_def Let_def)
    next
      case derived: (Inr u)
      have "held [?c\<lparr>ic_receiver := thread_start t\<rparr>] = {#fd#}" using fd by (simp add: held_def)
      moreover have "th_state (thread_start t) = Running" using t by (simp add: thread_start_def)
      ultimately show ?thesis
        using Inr derived inv sum own t close_held(2)
        by (auto simp: accept_handler_def add_incoming_def incoming_connection_new_def acceptor_inv_def
            socket_base_new_def Let_def)
    qed
  qed
qed

lemma connection_ended_inv:
  assumes inv: "acceptor_inv m" and i: "i < length (am_clients m)"
  shows "acceptor_inv (connection_ended i m)"
proof -
  let ?cs = "am_clients m" let ?c = "?cs ! i"
  obtain sock closed where close: "socket_base_close (ic_socket ?c) (am_closed m) = (sock, closed)" by fastforce
  have fd: "sb_fd sock < 0" using close by (auto simp: socket_base_close_def connected_def split: if_splits)
  have cs: "?cs = take i ?cs @ ?c # drop (Suc i) ?cs" using i by (simp add: id_take_nth_drop)
  have upd: "?cs[i := c'] = take i ?cs @ c' # drop (Suc i) ?cs" for c' using i by (simp add: upd_conv_take_nth_drop)
  have none: "held [?c\<lparr>ic_socket := sock\<rparr>] = {#}" using fd by (simp add: held_def)
  have "held ?cs + mset (am_closed m) = held (?cs[i := ?c\<lparr>ic_socket := sock\<rparr>]) + mset closed"
  proof -
    have "held ?cs = held (take i ?cs) + (held [?c] + held (drop (Suc i) ?cs))"
      by (subst cs) (simp only: close_held(2) held_Cons [of ?c "drop (Suc i) ?cs"])
    moreover have "held (?cs[i := ?c\<lparr>ic_socket := sock\<rparr>]) = held (take i ?cs) + held (drop (Suc i) ?cs)"
      unfolding upd close_held(2) held_Cons [of "?c\<lparr>ic_socket := sock\<rparr>" "drop (Suc i) ?cs"] none by simp
    moreover have "held [?c] + mset (am_closed m) = mset closed" using close_held(1) [of ?c "am_closed m"] close by simp
    ultimately show ?thesis by (simp add: ac_simps)
  qed
  moreover have "map ic_address (?cs[i := ?c\<lparr>ic_socket := sock\<rparr>]) = map ic_address ?cs"
    using i by (simp add: map_update list_update_same_conv)
  moreover have "\<forall>d \<in> set (?cs[i := ?c\<lparr>ic_socket := sock\<rparr>]). ic_address d < am_next m \<and> \<not> ic_dangling d \<and>
      th_state (ic_receiver d) = Running"
    using inv i by (auto simp: acceptor_inv_def dest!: set_update_subset_insert [THEN subsetD])
  ultimately show ?thesis
    using inv close by (simp add: connection_ended_def acceptor_inv_def Let_def)
qed

lemma acceptor_inv_step:
  assumes "acceptor_inv m" "acceptor_step derived m m'"
  shows "acceptor_inv m'"
  using assms(2)
proof (cases rule: acceptor_step.cases)
  case (accepted fd r)
  with accept_handler_inv [OF assms(1), of fd derived] show ?thesis by simp
next
  case (ended i)
  with connection_ended_inv [OF assms(1)] show ?thesis by simp
next
  case (gone c r)
  let ?rest = "filter (\<lambda>d. ic_address d \<noteq> ic_address c) (am_clients m)"
  have m': "m' = m\<lparr>am_clients := ?rest, am_closed := snd (socket_base_close (ic_socket c) (am_closed m))\<rparr>"
    using gone connection_cleanup_removes [OF assms(1)] by simp
  have "filter (\<lambda>d. \<not> ic_address d \<noteq> ic_address c) (am_clients m) = [c]"
    unfolding not_not by (rule filter_address [OF assms(1) gone(1)])
  with held_filter [of "\<lambda>d. ic_address d \<noteq> ic_address c" "am_clients m"]
  have "held (am_clients m) = held ?rest + held [c]" by simp
  moreover have "mset (am_accepted m) = held (am_clients m) + mset (am_closed m)"
    using assms(1) by (simp add: acceptor_inv_def)
  ultimately have "mset (am_accepted m) = held ?rest + mset (snd (socket_base_close (ic_socket c) (am_closed m)))"
    by (simp only: add.assoc close_held(1))
  with assms(1) show ?thesis
    by (simp add: acceptor_inv_def m' distinct_map_filter)
qed

lemma acceptor_reachable_inv: "acceptor_reachable derived m \<Longrightarrow> acceptor_inv m"
proof (induction rule: acceptor_reachable.induct)
  case (start created)
  show ?case by (simp add: acceptor_inv_def acceptor_new_def held_def)
qed (blast intro: acceptor_inv_step)

text \<open>The loop of the listener takes only such steps, whatever the constructors of the connections throw.\<close>

lemma listener_accept_reachable:
  "acceptor_reachable derived m \<Longrightarrow> listener_accept (accept_handler derived) errno fds m = Some (e, m') \<Longrightarrow>
   acceptor_reachable derived m'"
proof (induction fds arbitrary: m)
  case (Cons fd fds)
  show ?case
  proof (cases "0 \<le> fd")
    case True
    obtain r m1 where run: "accept_handler derived (socket_base_new fd) m = (r, m1)" by fastforce
    from acceptor_reachable.step [OF Cons.prems(1) acceptor_step.accepted [OF True run]]
    have "acceptor_reachable derived m1" .
    with Cons.IH [of m1] Cons.prems(2) True run show ?thesis by simp
  qed (use Cons.prems in simp)
qed simp

section \<open>Connecting\<close>

text \<open>What \<open>gethostbyname2\<close> finds for a name: the family and the first address.\<close>

datatype host_entry = Ipv4_host bytes | Ipv6_host bytes | Other_host

datatype family = AF_INET | AF_INET6

record ip_addr =
  ia_family :: family
  ia_address :: bytes
  ia_port :: bytes

definition htons :: "int \<Rightarrow> bytes" where
  "htons port = rev (u16_mem (word_of_int port))"

text \<open>\<open>lookup\<close> is the name service, asked for a name and a family.\<close>

definition resolve :: "(string \<Rightarrow> family \<Rightarrow> host_entry option) \<Rightarrow> string \<Rightarrow> int \<Rightarrow> ip_addr option" where
  "resolve lookup host port =
     (case (case lookup host AF_INET6 of None \<Rightarrow> lookup host AF_INET | Some info \<Rightarrow> Some info) of
        None \<Rightarrow> None
      | Some (Ipv4_host address) \<Rightarrow>
          Some \<lparr>ia_family = AF_INET, ia_address = address, ia_port = htons port\<rparr>
      | Some (Ipv6_host address) \<Rightarrow>
          Some \<lparr>ia_family = AF_INET6, ia_address = address, ia_port = htons port\<rparr>
      | Some Other_host \<Rightarrow> None)"

text \<open>
  The network as a program sees it: \<open>socket\<close> for a family, and \<open>connect\<close> to an address. The result is
  the descriptor, or -1, and the descriptors closed on the way.
\<close>

record network =
  nw_lookup :: "string \<Rightarrow> family \<Rightarrow> host_entry option"
  nw_socket :: "family \<Rightarrow> int"
  nw_connect :: "ip_addr \<Rightarrow> int"

definition open_connection_to :: "network \<Rightarrow> string \<Rightarrow> int \<Rightarrow> int list \<Rightarrow> int \<times> int list" where
  "open_connection_to nw host port closed =
     (case resolve (nw_lookup nw) host port of
        None \<Rightarrow> (- 1, closed)
      | Some addr \<Rightarrow>
          let fd = nw_socket nw (ia_family addr) in
          if fd < 0 then (- 1, closed)
          else if nw_connect nw addr < 0 then (- 1, closed @ [fd])
          else (fd, closed))"

text \<open>The descriptor that was opened is returned or closed, never both, and only a connected one is returned.\<close>

lemma open_connection_owned:
  assumes "open_connection_to nw host port closed = (fd, closed')"
  shows "(fd = - 1 \<and> closed' = closed) \<or>
    (\<exists>addr. resolve (nw_lookup nw) host port = Some addr \<and> 0 \<le> nw_socket nw (ia_family addr) \<and>
      (fd = nw_socket nw (ia_family addr) \<and> closed' = closed \<and> 0 \<le> nw_connect nw addr \<or>
       fd = - 1 \<and> closed' = closed @ [nw_socket nw (ia_family addr)] \<and> nw_connect nw addr < 0))"
  using assms by (auto simp: open_connection_to_def Let_def split: option.splits if_splits)

lemma resolve_family:
  "resolve lookup host port = Some addr \<Longrightarrow>
   lookup host AF_INET6 = Some (Ipv6_host (ia_address addr)) \<and> ia_family addr = AF_INET6 \<or>
   lookup host AF_INET6 = Some (Ipv4_host (ia_address addr)) \<and> ia_family addr = AF_INET \<or>
   lookup host AF_INET6 = None \<and> lookup host AF_INET = Some (Ipv6_host (ia_address addr)) \<and> ia_family addr = AF_INET6 \<or>
   lookup host AF_INET6 = None \<and> lookup host AF_INET = Some (Ipv4_host (ia_address addr)) \<and> ia_family addr = AF_INET"
  by (auto simp: resolve_def split: option.splits host_entry.splits)

section \<open>A client that reconnects\<close>

record reconnecting =
  rn_socket :: socket_base
  rn_receiver :: thread

text \<open>
  An asynchronous socket: the socket is moved in and the receiver created (\<open>created\<close> is the answer of
  \<open>pthread_create\<close>). When that throws, the base object closes the socket.
\<close>

definition async_socket_new ::
  "int \<Rightarrow> socket_base \<Rightarrow> bool \<Rightarrow> int list \<Rightarrow> reconnecting res \<times> int list" where
  "async_socket_new created socket startReceiver closed =
     (let own = fst (socket_base_move socket) in
      case thread_new created of
        Inl e \<Rightarrow> (Inl e, snd (socket_base_close own closed))
      | Inr receiver \<Rightarrow>
          (Inr \<lparr>rn_socket = own, rn_receiver = (if startReceiver then thread_start receiver else receiver)\<rparr>, closed))"

definition enable_processing :: "reconnecting \<Rightarrow> reconnecting" where
  "enable_processing c = c\<lparr>rn_receiver := thread_start (rn_receiver c)\<rparr>"

definition receiver_running :: "reconnecting \<Rightarrow> bool" where
  "receiver_running c \<longleftrightarrow> th_state (rn_receiver c) = Running"

text \<open>
  The constructor of the client. When there is a connection it calls \<open>onReconnect\<close>, which there is the
  one of its own class and does nothing, whatever a derived class makes of it.
\<close>

definition reconnecting_new ::
  "network \<Rightarrow> string \<Rightarrow> int \<Rightarrow> bool \<Rightarrow> int \<Rightarrow> int list \<Rightarrow> reconnecting res \<times> int list" where
  "reconnecting_new nw host port startReceiver created closed =
     (case open_connection_to nw host port closed of
        (fd, closed') \<Rightarrow> async_socket_new created (socket_base_new fd) startReceiver closed')"

text \<open>
  \<open>ReconnectingClient::cleanup\<close>, run by the receiver at its end: the network answers each attempt with
  a descriptor (one that is not negative is a connection), then the receiver replaces itself.
  \<open>onReconnect\<close> is virtual. \<open>None\<close>: no attempt of those given succeeds.
\<close>

definition renew_receiver :: "int \<Rightarrow> thread \<Rightarrow> thread res" where
  "renew_receiver created receiver =
     (let (old, cancelled) = thread_destroy receiver in
      rbind (thread_new created) (\<lambda>t. Inr (thread_start t)))"

definition reconnecting_cleanup ::
  "int list \<Rightarrow> ('s, unit) op \<Rightarrow> int \<Rightarrow> reconnecting \<Rightarrow> 's \<Rightarrow> (unit res \<times> reconnecting \<times> 's) option" where
  "reconnecting_cleanup answers onReconnect created c s =
     (let receiver = thread_set_own_state True Running (rn_receiver c) in
      (case reconnect answers (rn_socket c) of
        None \<Rightarrow> None
      | Some (sock, _) \<Rightarrow>
          (case onReconnect s of
             (Inl e, s') \<Rightarrow> Some (Inl e, c\<lparr>rn_socket := sock, rn_receiver := receiver\<rparr>, s')
           | (Inr _, s') \<Rightarrow>
               let receiver = thread_set_own_state True Terminating receiver in
               (case renew_receiver created receiver of
                 Inl e \<Rightarrow> Some (Inl e, c\<lparr>rn_socket := sock, rn_receiver := receiver\<rparr>, s')
               | Inr t \<Rightarrow> Some (Inr (), c\<lparr>rn_socket := sock, rn_receiver := t\<rparr>, s')))))"

text \<open>
  The receiver's thread: it receives until the connection ends, and then cleans up. A parser is the
  socket's as long as the socket object lives.
\<close>

definition receiver_run ::
  "(bytes \<Rightarrow> ('s, unit) op) \<Rightarrow> read_result list \<Rightarrow> int list \<Rightarrow> ('s, unit) op \<Rightarrow> int \<Rightarrow> reconnecting \<Rightarrow> int list \<Rightarrow> 's \<Rightarrow>
   (unit res \<times> reconnecting \<times> int list \<times> 's) option" where
  "receiver_run process reads answers onReconnect created c closed s =
     (case socket_receive process reads (rn_socket c) closed s of
        None \<Rightarrow> None
      | Some (Inl e, sock, closed', s') \<Rightarrow> Some (Inl e, c\<lparr>rn_socket := sock\<rparr>, closed', s')
      | Some (Inr _, sock, closed', s') \<Rightarrow>
          let c' = c\<lparr>rn_socket := sock, rn_receiver := thread_set_own_state True Terminating (rn_receiver c)\<rparr>
          in map_option (\<lambda>(r, c'', s''). (r, c'', closed', s''))
               (reconnecting_cleanup answers onReconnect created c' s'))"

text \<open>After some failed attempts and one that succeeds there is a connection, and a new receiver that may run.\<close>

lemma reconnected:
  assumes "\<not> connected (rn_socket c)" "\<forall>fd \<in> set failed. fd < 0" "0 \<le> fd" "onReconnect s = (Inr (), s')"
  shows "\<exists>c'. reconnecting_cleanup (failed @ fd # answers) onReconnect 0 c s = Some (Inr (), c', s') \<and>
    sb_fd (rn_socket c') = fd \<and> th_state (rn_receiver c') = Running \<and> th_progress (rn_receiver c') = Blocked \<and>
    entry_lock (rn_receiver c') \<noteq> None"
  using reconnect_first [OF assms(1-3), of answers] assms(4)
  by (simp add: reconnecting_cleanup_def renew_receiver_def thread_new_def initialization_callback_def
      thread_start_def entry_lock_def thread_destroy_def thread_set_own_state_def Let_def)

section \<open>The socket of the RPC connection\<close>

text \<open>
  \<open>RPCSocket::sendAndReceive\<close>: the request is sent, and everything is received until the node closes the
  connection. \<open>receive\<close> returns only with the socket closed, so the \<open>while\<close> runs its body once. The
  result is the response, the socket, the descriptors closed, and what the node got.
\<close>

definition rpc_socket_exchange ::
  "bytes \<Rightarrow> int list \<Rightarrow> read_result list \<Rightarrow> socket_base \<Rightarrow> int list \<Rightarrow>
   (string res \<times> socket_base \<times> int list \<times> bytes) option" where
  "rpc_socket_exchange data writes reads sock closed =
     (case socket_send data writes of
        None \<Rightarrow> None
      | Some (sent, _) \<Rightarrow>
          if connected sock
          then map_option (\<lambda>(r, sock', closed', response). (rbind r (\<lambda>_. Inr response), sock', closed', sent))
                 (socket_receive (\<lambda>packet response. (Inr (), response @ bytes_str packet)) reads sock closed '''')
          else Some (Inr '''', sock, closed, sent))"

definition connect_if_not_connected ::
  "network \<Rightarrow> string \<Rightarrow> int \<Rightarrow> socket_base option \<Rightarrow> int list \<Rightarrow> bool \<times> socket_base option \<times> int list" where
  "connect_if_not_connected nw host port sock closed =
     (if (case sock of None \<Rightarrow> True | Some s \<Rightarrow> \<not> connected s)
      then (case open_connection_to nw host port closed of
              (fd, closed') \<Rightarrow>
                let s = socket_base_new fd;
                    closed'' = (case sock of None \<Rightarrow> closed' | Some old \<Rightarrow> snd (socket_base_close old closed'))
                in (connected s, Some s, closed''))
      else (True, sock, closed))"

lemma socket_receive_closed:
  "socket_receive process reads sock closed s = Some (Inr (), sock', closed', s') \<Longrightarrow> \<not> connected sock'"
  by (induction process reads sock closed s rule: socket_receive.induct)
    (auto simp: socket_base_close_def connected_def split: sum.splits prod.splits if_splits)

lemma receive_all:
  "socket_receive (\<lambda>packet response. (Inr (), response @ bytes_str packet)) (map Data packets @ End_of_file # later) sock closed r =
     (case socket_base_close sock closed of (sock', closed') \<Rightarrow> Some (Inr (), sock', closed', r @ concat (map bytes_str packets)))"
  by (induction packets arbitrary: r) (simp_all split: prod.split)

text \<open>A request goes out whole, and the response is everything the node sent before it closed the connection.\<close>

lemma rpc_exchange_complete:
  assumes "connected sock" "data \<noteq> []" "\<forall>len \<in> set writes. 0 < len" "int (length data) \<le> sum_list writes"
  shows "rpc_socket_exchange data writes (map Data packets @ End_of_file # later) sock closed =
    Some (Inr (concat (map bytes_str packets)), sock\<lparr>sb_fd := - 1\<rparr>, closed @ [sb_fd sock], data)"
proof -
  obtain rest where "socket_send data writes = Some (data, rest)"
    using socket_send_all [OF assms(2-4)] by blast
  with assms(1) show ?thesis
    by (simp add: rpc_socket_exchange_def receive_all socket_base_close_def)
qed

end
