(* ===== verification/BusNetwork.thy ===== *)
theory BusNetwork
  imports Relay Connections
begin

text \<open>
  The message bus as a whole: any number of clients, the relay with a connection and a worker for each of
  them, and the streams between them, from which each side reads portions of any length. The steps of
  all of them interleave in any order.
\<close>

section \<open>Streams\<close>

text \<open>One direction of a connection: the bytes under way, and those the parser of the reader keeps.\<close>

record stream =
  st_flight :: bytes
  st_buffer :: bytes

definition stream_new :: stream where "stream_new = \<lparr>st_flight = [], st_buffer = []\<rparr>"

text \<open>What was sent since.\<close>

definition put_news :: "bytes list \<Rightarrow> bytes list \<Rightarrow> stream \<Rightarrow> stream" where
  "put_news old new st = st\<lparr>st_flight := st_flight st @ concat (drop (length old) new)\<rparr>"

definition stream_read :: "nat \<Rightarrow> (bytes \<Rightarrow> ('s, unit) op) \<Rightarrow> stream \<Rightarrow> ('s, stream) op" where
  "stream_read n handle st s =
     (case process_packet message_stream_size handle (take n (st_flight st)) (st_buffer st) s of
        (Inl e, buffer, s') \<Rightarrow> (Inl e, s')
      | (Inr _, buffer, s') \<Rightarrow> (Inr \<lparr>st_flight = drop n (st_flight st), st_buffer = buffer\<rparr>, s'))"

section \<open>The network\<close>

record net_client =
  nc_client :: bus_client
  nc_up :: stream
  nc_down :: stream
  nc_got :: "bus_message list"

record bus_net =
  bn_clients :: "net_client list"
  bn_relay :: "bus_connection list"

definition bus_client_new :: bus_client where
  "bus_client_new = \<lparr>bc_subscriptions = [], bc_sent = []\<rparr>"

text \<open>
  The constructor of \<open>MessageBusClient\<close>: the connection and its receiver, which waits until the parser
  is set.
\<close>

definition message_bus_client_new ::
  "network \<Rightarrow> string \<Rightarrow> int \<Rightarrow> int \<Rightarrow> int list \<Rightarrow>
   (reconnecting \<times> stream_parser option \<times> bus_client) res \<times> int list" where
  "message_bus_client_new nw host port created gone =
     (case reconnecting_new nw host port False created gone of
        (Inl e, gone') \<Rightarrow> (Inl e, gone')
      | (Inr c, gone') \<Rightarrow>
          (Inr (enable_processing c, set_stream_parser (stream_parser_new message_stream_size) None, bus_client_new), gone'))"

text \<open>
  The receiver runs whether there is a connection or not; without one it reads nothing, and reconnects.
\<close>

lemma message_bus_client_runs:
  "message_bus_client_new nw host port created gone = (Inr (c, parser, client), gone') \<Longrightarrow>
   receiver_running c \<and> parser = Some (stream_parser_new message_stream_size) \<and>
   rn_socket c = socket_base_new (fst (open_connection_to nw host port gone))"
  by (auto simp: message_bus_client_new_def reconnecting_new_def async_socket_new_def enable_processing_def
      receiver_running_def set_stream_parser_def socket_base_move_def socket_base_new_def thread_new_def
      thread_start_def rbind_def initialization_callback_def Let_def split: prod.splits sum.splits if_splits)

definition net_client_new :: net_client where
  "net_client_new = \<lparr>nc_client = bus_client_new, nc_up = stream_new, nc_down = stream_new, nc_got = []\<rparr>"

text \<open>What an application does with its client. The messages of the protocol are the client's own.\<close>

inductive client_acts :: "'j json_api \<Rightarrow> bus_client \<Rightarrow> bus_client \<Rightarrow> bool" for api where
  subscribes: "subscribe api x c = (Inr (), c') \<Longrightarrow> client_acts api c c'"
| unsubscribes: "unsubscribe api x c = (Inr (), c') \<Longrightarrow> client_acts api c c'"
| sets: "set_subscriptions api xs c = (Inr (), c') \<Longrightarrow> client_acts api c c'"
| broadcasts: "message_class m \<noteq> meta_class \<Longrightarrow> client_broadcast api m c = (Inr (), c') \<Longrightarrow> client_acts api c c'"

text \<open>
  A run as long as nothing throws and no packet is too long: either ends the thread that meets it. A
  connection's thread may read several messages at once; that others come in between is the run in
  which it reads them one by one. \<open>implementations\<close> is what the clients have registered.
\<close>

inductive bus_step ::
  "'j json_api \<Rightarrow> implementation list \<Rightarrow> bus_net \<Rightarrow> bus_net \<Rightarrow> bool" for api implementations where
  joins: "bus_step api implementations net
    \<lparr>bn_clients = bn_clients net @ [net_client_new], bn_relay = bn_relay net @ [bus_connection_new]\<rparr>"
| acts: "i < length (bn_clients net) \<Longrightarrow> c = bn_clients net ! i \<Longrightarrow> client_acts api (nc_client c) b \<Longrightarrow>
    \<forall>packet \<in> set (bc_sent b). length packet \<le> max_message_size \<Longrightarrow>
    bus_step api implementations net
      (net\<lparr>bn_clients := (bn_clients net)[i := c\<lparr>nc_client := b,
         nc_up := put_news (bc_sent (nc_client c)) (bc_sent b) (nc_up c)\<rparr>]\<rparr>)"
| relay_reads: "i < length (bn_clients net) \<Longrightarrow> c = bn_clients net ! i \<Longrightarrow>
    stream_read n (relay_on_receive api i) (nc_up c) (bn_relay net) = (Inr up, connections) \<Longrightarrow>
    bus_step api implementations net
      \<lparr>bn_clients = (bn_clients net)[i := c\<lparr>nc_up := up\<rparr>], bn_relay = connections\<rparr>"
| relay_sends: "i < length (bn_relay net) \<Longrightarrow> r = bn_relay net ! i \<Longrightarrow> c = bn_clients net ! i \<Longrightarrow>
    wait_for_message (rc_queue r) = Some (Inr m, q) \<Longrightarrow> send_event api m (rc_sent r) = (Inr (), sent) \<Longrightarrow>
    \<forall>packet \<in> set sent. length packet \<le> max_message_size \<Longrightarrow>
    bus_step api implementations net
      \<lparr>bn_clients = (bn_clients net)[i := c\<lparr>nc_down := put_news (rc_sent r) sent (nc_down c)\<rparr>],
       bn_relay = (bn_relay net)[i := r\<lparr>rc_queue := q, rc_sent := sent\<rparr>]\<rparr>"
| client_reads: "i < length (bn_clients net) \<Longrightarrow> c = bn_clients net ! i \<Longrightarrow>
    stream_read n (bus_on_receive implementations (\<lambda>m got. (Inr (), got @ [m]))) (nc_down c) (nc_got c) = (Inr down, got) \<Longrightarrow>
    bus_step api implementations net
      (net\<lparr>bn_clients := (bn_clients net)[i := c\<lparr>nc_down := down, nc_got := got\<rparr>]\<rparr>)"

inductive bus_reachable :: "'j json_api \<Rightarrow> implementation list \<Rightarrow> bus_net \<Rightarrow> bool" for api implementations where
  nobody: "bus_reachable api implementations \<lparr>bn_clients = [], bn_relay = []\<rparr>"
| step: "bus_reachable api implementations net \<Longrightarrow> bus_step api implementations net net' \<Longrightarrow>
    bus_reachable api implementations net'"

section \<open>What the relay is to do\<close>

text \<open>
  The specification, over the log of the packets the relay has handled, each with the number of the client
  it came from: what a packet says, the subscriptions of a client after the log, and the messages for
  it, which are those of a class it was subscribed to when they came.
\<close>

definition understood :: "'j json_api \<Rightarrow> bytes \<Rightarrow> bus_message option" where
  "understood api packet =
     (case decode_opaque packet of
        Inl _ \<Rightarrow> None
      | Inr m \<Rightarrow>
          if message_class m = meta_class
          then (case message_decode (registered api) packet of
                  Inr (Set_subscriptions_message subs) \<Rightarrow> Some (Set_subscriptions_message subs) | _ \<Rightarrow> None)
          else Some m)"

definition new_subs :: "'j json_api \<Rightarrow> bytes \<Rightarrow> string list \<Rightarrow> string list" where
  "new_subs api packet subs =
     (case understood api packet of Some (Set_subscriptions_message new) \<Rightarrow> new | _ \<Rightarrow> subs)"

definition for_class :: "'j json_api \<Rightarrow> bytes \<Rightarrow> string list \<Rightarrow> bus_message list" where
  "for_class api packet subs =
     (case understood api packet of
        Some (Opaque_message c t x) \<Rightarrow> (if c \<in> set subs then [Opaque_message c t x] else []) | _ \<Rightarrow> [])"

fun subs_after :: "'j json_api \<Rightarrow> nat \<Rightarrow> string list \<Rightarrow> (nat \<times> bytes) list \<Rightarrow> string list" where
  "subs_after api i subs [] = subs"
| "subs_after api i subs ((j, packet) # ps) =
     subs_after api i (if j = i then new_subs api packet subs else subs) ps"

fun addressed :: "'j json_api \<Rightarrow> nat \<Rightarrow> string list \<Rightarrow> (nat \<times> bytes) list \<Rightarrow> bus_message list" where
  "addressed api i subs [] = []"
| "addressed api i subs ((j, packet) # ps) =
     for_class api packet subs @ addressed api i (if j = i then new_subs api packet subs else subs) ps"

definition packets_of :: "nat \<Rightarrow> (nat \<times> bytes) list \<Rightarrow> bytes list" where
  "packets_of i ps = map snd (filter (\<lambda>p. fst p = i) ps)"

text \<open>What a client makes of a packet.\<close>

definition decoded :: "implementation list \<Rightarrow> bytes \<Rightarrow> bus_message option" where
  "decoded implementations packet =
     (case message_decode implementations packet of Inl _ \<Rightarrow> None | Inr m \<Rightarrow> Some m)"

lemma subs_after_append: "subs_after api i subs (ps @ qs) = subs_after api i (subs_after api i subs ps) qs"
  by (induction api i subs ps rule: subs_after.induct) auto

lemma addressed_append:
  "addressed api i subs (ps @ qs) = addressed api i subs ps @ addressed api i (subs_after api i subs ps) qs"
  by (induction api i subs ps rule: addressed.induct) auto

lemma subs_after_own: "subs_after api i subs ps = subs_after api i subs (map (Pair i) (packets_of i ps))"
  by (induction api i subs ps rule: subs_after.induct) (auto simp: packets_of_def)

lemma packets_of_simps [simp]:
  "packets_of i [] = []" "packets_of i (ps @ qs) = packets_of i ps @ packets_of i qs"
  "packets_of i (map (Pair j) xs) = (if i = j then xs else [])"
  by (simp_all add: packets_of_def comp_def)

lemma nothing_for_strangers: "i \<notin> fst ` set ps \<Longrightarrow> addressed api i [] ps = [] \<and> subs_after api i [] ps = [] \<and> packets_of i ps = []"
  by (induction ps) (auto simp: packets_of_def for_class_def split: option.splits bus_message.splits)

section \<open>The relay follows its specification\<close>

lemma registered_makes: "do_decode (factory_make (registered api)) packet = Inr m \<Longrightarrow> \<exists>subs. m = Set_subscriptions_message subs"
  by (auto simp: do_decode_iff factory_make_def registered_def set_subscriptions_make_def rbind_eq_Inr
      split: if_splits option.splits)

lemma decode_opaque_makes: "decode_opaque packet = Inr m \<Longrightarrow> \<exists>c t x. m = Opaque_message c t x"
  by (auto simp: decode_opaque_def do_decode_iff opaque_make_def)

lemma relay_on_receive_spec:
  assumes "relay_on_receive api i packet connections = (Inr (), connections')" "i < length connections" "k < length connections"
  shows "length connections' = length connections"
    and "rc_subscriptions (connections' ! k) =
      (if i = k then new_subs api packet (rc_subscriptions (connections ! k)) else rc_subscriptions (connections ! k))"
    and "\<exists>q. rc_queue (connections' ! k) = q \<and> (queue_ok (rc_queue (connections ! k)) \<longrightarrow> queue_ok q) \<and>
      q_items q = q_items (rc_queue (connections ! k)) @ for_class api packet (rc_subscriptions (connections ! k))"
    and "rc_sent (connections' ! k) = rc_sent (connections ! k)"
proof -
  obtain m where m: "decode_opaque packet = Inr m"
    using assms(1) by (cases "decode_opaque packet") (simp_all add: relay_on_receive_def)
  then obtain c t x where opaque: "m = Opaque_message c t x" using decode_opaque_makes by blast
  have "length connections' = length connections \<and>
    rc_subscriptions (connections' ! k) =
      (if i = k then new_subs api packet (rc_subscriptions (connections ! k)) else rc_subscriptions (connections ! k)) \<and>
    (\<exists>q. rc_queue (connections' ! k) = q \<and> (queue_ok (rc_queue (connections ! k)) \<longrightarrow> queue_ok q) \<and>
      q_items q = q_items (rc_queue (connections ! k)) @ for_class api packet (rc_subscriptions (connections ! k))) \<and>
    rc_sent (connections' ! k) = rc_sent (connections ! k)"
  proof (cases "c = meta_class")
    case False
    then have u: "understood api packet = Some (Opaque_message c t x)" by (simp add: understood_def m opaque)
    have "connections' = broadcast_to_clients m connections"
      using assms(1) False by (simp add: relay_on_receive_def m opaque)
    then show ?thesis
      using assms(3) by (simp add: broadcast_to_clients_def queue_message_if_subscribed_def is_subscribed_iff
          new_subs_def for_class_def u opaque queue_push_def queue_ok_def)
  next
    case True
    show ?thesis
    proof (cases "message_decode (registered api) packet")
      case (Inl e)
      then show ?thesis
        using assms(1) True by (simp add: relay_on_receive_def m opaque new_subs_def for_class_def understood_def)
    next
      case (Inr meta)
      then obtain subs where "meta = Set_subscriptions_message subs"
        using registered_makes [of api packet] by (auto simp: message_decode_def)
      then show ?thesis
        using assms True Inr by (auto simp: relay_on_receive_def m opaque new_subs_def for_class_def understood_def
            process_protocol_meta_message_def message_is_def as_subscriptions_def message_as_def nth_list_update)
    qed
  qed
  then show "length connections' = length connections"
    and "rc_subscriptions (connections' ! k) =
      (if i = k then new_subs api packet (rc_subscriptions (connections ! k)) else rc_subscriptions (connections ! k))"
    and "\<exists>q. rc_queue (connections' ! k) = q \<and> (queue_ok (rc_queue (connections ! k)) \<longrightarrow> queue_ok q) \<and>
      q_items q = q_items (rc_queue (connections ! k)) @ for_class api packet (rc_subscriptions (connections ! k))"
    and "rc_sent (connections' ! k) = rc_sent (connections ! k)"
    by blast+
qed

text \<open>A connection of the relay after a log: its subscriptions, and what was sent and is to be sent.\<close>

definition relays :: "'j json_api \<Rightarrow> (nat \<times> bytes) list \<Rightarrow> nat \<Rightarrow> bus_connection \<Rightarrow> bool" where
  "relays api ps i r \<longleftrightarrow>
     rc_subscriptions r = subs_after api i [] ps \<and> queue_ok (rc_queue r) \<and>
     map (encoded api) (addressed api i [] ps) = rc_sent r @ map (encoded api) (q_items (rc_queue r))"

lemma relays_packet:
  assumes "relay_on_receive api i packet connections = (Inr (), connections')" "i < length connections" "k < length connections"
    and "relays api ps k (connections ! k)"
  shows "relays api (ps @ [(i, packet)]) k (connections' ! k)"
  using relay_on_receive_spec [OF assms(1-3)] assms(4)
  by (auto simp: relays_def subs_after_append addressed_append)

lemma relays_packets:
  "process_all (relay_on_receive api i) ms connections = (Inr (), connections') \<Longrightarrow> i < length connections \<Longrightarrow>
   \<forall>k < length connections. relays api ps k (connections ! k) \<Longrightarrow>
   length connections' = length connections \<and>
   (\<forall>k < length connections. relays api (ps @ map (Pair i) ms) k (connections' ! k) \<and>
      rc_sent (connections' ! k) = rc_sent (connections ! k))"
proof (induction ms arbitrary: connections ps)
  case (Cons m ms)
  obtain r mid where run: "relay_on_receive api i m connections = (r, mid)" by fastforce
  with Cons.prems(1) have r: "r = Inr ()" "process_all (relay_on_receive api i) ms mid = (Inr (), connections')"
    by (cases r; simp add: op_bind_def)+
  note run = run [unfolded r(1)]
  have len: "length mid = length connections" using relay_on_receive_spec(1) [OF run Cons.prems(2) Cons.prems(2)] .
  have "\<forall>k < length mid. relays api (ps @ [(i, m)]) k (mid ! k)"
    using relays_packet [OF run Cons.prems(2)] Cons.prems(3) len by simp
  from Cons.IH [OF r(2) _ this] Cons.prems(2) len relay_on_receive_spec(4) [OF run Cons.prems(2)]
  show ?case by simp
qed simp

section \<open>Streams keep what was sent\<close>

definition framed :: "bytes \<Rightarrow> bool" where
  "framed packet \<longleftrightarrow> packet \<noteq> [] \<and> message_stream_size packet = Inr (length packet)"

lemma framed_encoded:
  assumes "message_encode api m = Inr packet" "length packet \<le> max_message_size"
  shows "framed packet"
proof -
  obtain payload where p: "packet = write_ref [] payload"
    using assms(1) by (auto simp: message_encode_def rbind_eq_Inr Let_def)
  have "length packet = 4 + length payload" by (simp add: p byte_simps)
  then have "length payload \<le> max_message_size" "packet \<noteq> []" using assms(2) by auto
  from encoded_frame [OF this(1)] this(2) show ?thesis by (simp add: framed_def p)
qed

text \<open>A packet that is read whole.\<close>

lemma stream_read_one:
  assumes "framed packet" "handle packet s = (Inr (), s')"
  shows "stream_read (length packet) handle \<lparr>st_flight = packet, st_buffer = []\<rparr> s = (Inr stream_new, s')"
proof -
  have "drain message_stream_size handle (concat [packet] @ []) s = (Inr (), [], s')"
    using assms by (intro bus_framing.drain_messages)
      (auto simp: framed_def op_bind_def message_stream_size_eq)
  then show ?thesis by (simp add: stream_read_def process_packet_def stream_new_def)
qed

text \<open>Of the packets that were sent, some have been handled; the bytes of the others are on their way.\<close>

definition carries :: "bytes list \<Rightarrow> bytes list \<Rightarrow> stream \<Rightarrow> bool" where
  "carries sent handled st \<longleftrightarrow>
     (\<forall>packet \<in> set sent. framed packet) \<and>
     (\<exists>later. sent = handled @ later \<and> st_buffer st @ st_flight st = concat later)"

lemma carries_new [simp]: "carries [] [] stream_new"
  by (simp add: carries_def stream_new_def)

lemma carries_put:
  "carries sent handled st \<Longrightarrow> \<forall>packet \<in> set new. framed packet \<Longrightarrow>
   carries (sent @ new) handled (put_news sent (sent @ new) st)"
  unfolding carries_def put_news_def by (auto intro!: exI [of _ "_ @ new"])

lemma carries_read:
  assumes "carries sent handled st" "stream_read n handle st s = (Inr st', s')"
  shows "\<exists>ms. carries sent (handled @ ms) st' \<and> process_all handle ms s = (Inr (), s')"
proof -
  obtain later where sent: "sent = handled @ later" "st_buffer st @ st_flight st = concat later"
    using assms(1) by (auto simp: carries_def)
  obtain buffer where d: "drain message_stream_size handle (st_buffer st @ take n (st_flight st)) s = (Inr (), buffer, s')"
    and st': "st' = \<lparr>st_flight = drop n (st_flight st), st_buffer = buffer\<rparr>"
    using assms(2) by (auto simp: stream_read_def process_packet_def split: prod.splits sum.splits)
  have "\<forall>m \<in> set later. m \<noteq> [] \<and> message_stream_size m = Inr (length m)"
    using assms(1) sent(1) by (auto simp: carries_def framed_def)
  moreover have "(st_buffer st @ take n (st_flight st)) @ drop n (st_flight st) = concat later" using sent(2) by simp
  ultimately obtain k where "buffer @ drop n (st_flight st) = concat (drop k later)"
    "process_all handle (take k later) s = (Inr (), s')"
    using bus_framing.drain_prefix [OF _ _ d] by blast
  then show ?thesis
    using assms(1) sent(1) st' by (intro exI [of _ "take k later"])
      (auto simp: carries_def intro!: exI [of _ "drop k later"])
qed

lemma carries_nothing:
  assumes "carries sent handled stream_new"
  shows "handled = sent"
proof -
  obtain later where later: "sent = handled @ later" "concat later = []"
    using assms by (auto simp: carries_def stream_new_def)
  have "[] \<notin> set later" using assms later(1) by (auto simp: carries_def framed_def)
  with later show ?thesis by (cases later) auto
qed

section \<open>Every run\<close>

lemma process_all_got:
  "process_all (bus_on_receive implementations (\<lambda>m got. (Inr (), got @ [m]))) ms got = (Inr (), got') \<Longrightarrow>
   got' = got @ List.map_filter (decoded implementations) ms"
proof (induction ms arbitrary: got)
  case (Cons m ms)
  show ?case
  proof (cases "message_decode implementations m")
    case (Inl e)
    with Cons show ?thesis by (simp add: op_bind_def bus_on_receive_def decoded_def List.map_filter_simps)
  next
    case (Inr x)
    with Cons.prems Cons.IH [of "got @ [x]"] show ?thesis
      by (simp add: op_bind_def bus_on_receive_def decoded_def List.map_filter_simps)
  qed
qed (simp add: List.map_filter_simps)

text \<open>What an application does with its client sends at most one packet, which says what the subscriptions are now.\<close>

lemma client_acts_sends:
  assumes "json_subscriptions api" "client_acts api c b" "\<forall>packet \<in> set (bc_sent b). length packet \<le> max_message_size"
  shows "\<exists>new. bc_sent b = bc_sent c @ new \<and> (\<forall>packet \<in> set new. framed packet) \<and>
    subs_after api i (bc_subscriptions c) (map (Pair i) new) = bc_subscriptions b"
proof -
  have subs: "new_subs api packet old = subs"
    if "message_encode api (Set_subscriptions_message subs) = Inr packet" "length packet \<le> max_message_size" for packet subs old
  proof -
    note decoded = message_decode_subscriptions [OF assms(1) that]
    have "decode_opaque packet = Inr (Opaque_message meta_class set_subscriptions_type
        (j_dump api (j_init api [j_pair api ''subscriptions'' (j_array api (map (j_string api) subs))])))"
      using that by (auto simp: message_encode_def decode_opaque_encoded)
    with decoded show ?thesis by (simp add: new_subs_def understood_def)
  qed
  have others: "new_subs api packet old = old"
    if "message_encode api m = Inr packet" "length packet \<le> max_message_size" "message_class m \<noteq> meta_class" for packet m old
  proof -
    note sent = that
    obtain x where "decode_opaque packet = Inr (Opaque_message (message_class m) (message_type m) x)"
      using sent(1,2) by (auto simp: message_encode_def decode_opaque_encoded rbind_eq_Inr Let_def)
    with sent(3) show ?thesis by (simp add: new_subs_def understood_def)
  qed
  consider "b = c"
    | packet where "bc_sent b = bc_sent c @ [packet]" "message_encode api (Set_subscriptions_message (bc_subscriptions b)) = Inr packet"
    | packet m where "bc_sent b = bc_sent c @ [packet]" "message_encode api m = Inr packet" "message_class m \<noteq> meta_class"
        "bc_subscriptions b = bc_subscriptions c"
    using assms(2)
    by cases (auto simp: subscribe_def unsubscribe_def set_subscriptions_def broadcast_subscriptions_def client_broadcast_def
        op_bind_def split: if_splits sum.splits)
  then show ?thesis
  proof cases
    case 1
    then show ?thesis by simp
  next
    case 2
    then have small: "length packet \<le> max_message_size" using assms(3) by simp
    from 2 subs [OF 2(2) small] framed_encoded [OF 2(2) small] show ?thesis by simp
  next
    case 3
    then have small: "length packet \<le> max_message_size" using assms(3) by simp
    from 3 others [OF 3(2) small 3(3)] framed_encoded [OF 3(2) small] show ?thesis by simp
  qed
qed

text \<open>The client and its connection, after the log.\<close>

definition member_inv ::
  "'j json_api \<Rightarrow> implementation list \<Rightarrow> (nat \<times> bytes) list \<Rightarrow> nat \<Rightarrow> net_client \<Rightarrow> bus_connection \<Rightarrow> bool" where
  "member_inv api implementations ps i c r \<longleftrightarrow>
     carries (bc_sent (nc_client c)) (packets_of i ps) (nc_up c) \<and>
     subs_after api i [] (map (Pair i) (bc_sent (nc_client c))) = bc_subscriptions (nc_client c) \<and>
     relays api ps i r \<and>
     (\<exists>handled. carries (rc_sent r) handled (nc_down c) \<and> nc_got c = List.map_filter (decoded implementations) handled)"

definition net_inv :: "'j json_api \<Rightarrow> implementation list \<Rightarrow> (nat \<times> bytes) list \<Rightarrow> bus_net \<Rightarrow> bool" where
  "net_inv api implementations ps net \<longleftrightarrow>
     length (bn_relay net) = length (bn_clients net) \<and> (\<forall>i \<in> fst ` set ps. i < length (bn_clients net)) \<and>
     (\<forall>i < length (bn_clients net). member_inv api implementations ps i (bn_clients net ! i) (bn_relay net ! i))"

lemma member_new:
  assumes "i \<notin> fst ` set ps"
  shows "member_inv api implementations ps i net_client_new bus_connection_new"
  using nothing_for_strangers [OF assms, of api]
  by (simp add: member_inv_def net_client_new_def bus_client_new_def relays_def bus_connection_new_def queue_ok_def
      queue_new_def) (auto intro!: exI [of _ "[]"] simp: List.map_filter_def)

lemma member_acts:
  assumes "json_subscriptions api" "member_inv api implementations ps i c r" "client_acts api (nc_client c) b"
    and "\<forall>packet \<in> set (bc_sent b). length packet \<le> max_message_size"
  shows "member_inv api implementations ps i
    (c\<lparr>nc_client := b, nc_up := put_news (bc_sent (nc_client c)) (bc_sent b) (nc_up c)\<rparr>) r"
proof -
  obtain new where new: "bc_sent b = bc_sent (nc_client c) @ new" "\<forall>packet \<in> set new. framed packet"
    "subs_after api i (bc_subscriptions (nc_client c)) (map (Pair i) new) = bc_subscriptions b"
    using client_acts_sends [OF assms(1,3,4)] by blast
  with assms(2) carries_put [OF _ new(2)] show ?thesis
    by (simp add: member_inv_def subs_after_append)
qed

lemma member_client_reads:
  assumes "member_inv api implementations ps i c r"
    and "stream_read n (bus_on_receive implementations (\<lambda>m got. (Inr (), got @ [m]))) (nc_down c) (nc_got c) = (Inr down, got)"
  shows "member_inv api implementations ps i (c\<lparr>nc_down := down, nc_got := got\<rparr>) r"
proof -
  obtain handled where h: "carries (rc_sent r) handled (nc_down c)" "nc_got c = List.map_filter (decoded implementations) handled"
    using assms(1) by (auto simp: member_inv_def)
  from carries_read [OF h(1) assms(2)] obtain ms where ms: "carries (rc_sent r) (handled @ ms) down"
    "process_all (bus_on_receive implementations (\<lambda>m got. (Inr (), got @ [m]))) ms (nc_got c) = (Inr (), got)" by blast
  have "got = List.map_filter (decoded implementations) (handled @ ms)"
    using process_all_got [OF ms(2)] h(2) by (simp add: List.map_filter_def)
  with ms(1) assms(1) show ?thesis by (auto simp: member_inv_def)
qed

lemma member_relay_sends:
  assumes "member_inv api implementations ps i c r" "wait_for_message (rc_queue r) = Some (Inr m, q)"
    and "send_event api m (rc_sent r) = (Inr (), sent)" "\<forall>packet \<in> set sent. length packet \<le> max_message_size"
  shows "member_inv api implementations ps i (c\<lparr>nc_down := put_news (rc_sent r) sent (nc_down c)\<rparr>)
    (r\<lparr>rc_queue := q, rc_sent := sent\<rparr>)"
proof -
  obtain packet where p: "message_encode api m = Inr packet" "sent = rc_sent r @ [packet]"
    using assms(3) by (auto simp: send_event_def split: sum.splits)
  have q: "q_items (rc_queue r) = m # q_items q" "queue_ok (rc_queue r) \<Longrightarrow> queue_ok q"
    using assms(2) by (auto simp: wait_for_message_eq queue_ok_def split: if_splits list.splits)
  obtain handled where h: "carries (rc_sent r) handled (nc_down c)" "nc_got c = List.map_filter (decoded implementations) handled"
    using assms(1) by (auto simp: member_inv_def)
  have "framed packet" using framed_encoded [OF p(1)] assms(4) p(2) by simp
  with carries_put [OF h(1), of "[packet]"] have "carries sent handled (put_news (rc_sent r) sent (nc_down c))"
    by (simp add: p(2))
  moreover have "relays api ps i (r\<lparr>rc_queue := q, rc_sent := sent\<rparr>)"
    using assms(1) q p by (simp add: member_inv_def relays_def encoded_def)
  ultimately show ?thesis using assms(1) h(2) by (auto simp: member_inv_def)
qed

text \<open>One member changes; the log only grows by packets of others.\<close>

lemma net_inv_update:
  assumes "net_inv api implementations ps net" "i < length (bn_clients net)"
    and "member_inv api implementations ps i c r"
  shows "net_inv api implementations ps \<lparr>bn_clients = (bn_clients net)[i := c], bn_relay = (bn_relay net)[i := r]\<rparr>"
  using assms by (simp add: net_inv_def nth_list_update)

lemma net_inv_client:
  assumes "net_inv api implementations ps net" "i < length (bn_clients net)"
    and "member_inv api implementations ps i c (bn_relay net ! i)"
  shows "net_inv api implementations ps (net\<lparr>bn_clients := (bn_clients net)[i := c]\<rparr>)"
  using assms by (simp add: net_inv_def nth_list_update)

lemma net_inv_relay_reads:
  assumes inv: "net_inv api implementations ps net" and i: "i < length (bn_clients net)"
    and "stream_read n (relay_on_receive api i) (nc_up (bn_clients net ! i)) (bn_relay net) = (Inr up, connections)"
  shows "\<exists>ms. net_inv api implementations (ps @ map (Pair i) ms)
    \<lparr>bn_clients = (bn_clients net)[i := (bn_clients net ! i)\<lparr>nc_up := up\<rparr>], bn_relay = connections\<rparr>"
proof -
  let ?c = "bn_clients net ! i"
  have member: "member_inv api implementations ps k (bn_clients net ! k) (bn_relay net ! k)" if "k < length (bn_clients net)" for k
    using inv that by (simp add: net_inv_def)
  have len: "length (bn_relay net) = length (bn_clients net)" using inv by (simp add: net_inv_def)
  from member [OF i] have "carries (bc_sent (nc_client ?c)) (packets_of i ps) (nc_up ?c)" by (simp add: member_inv_def)
  from carries_read [OF this assms(3)] obtain ms where ms: "carries (bc_sent (nc_client ?c)) (packets_of i ps @ ms) up"
    "process_all (relay_on_receive api i) ms (bn_relay net) = (Inr (), connections)" by blast
  have "\<forall>k < length (bn_relay net). relays api ps k (bn_relay net ! k)" using member len by (simp add: member_inv_def)
  from relays_packets [OF ms(2) _ this] i len
  have conns: "length connections = length (bn_clients net)"
    "k < length (bn_clients net) \<Longrightarrow> relays api (ps @ map (Pair i) ms) k (connections ! k) \<and>
       rc_sent (connections ! k) = rc_sent (bn_relay net ! k)" for k
    by simp_all
  have "member_inv api implementations (ps @ map (Pair i) ms) k
      ((bn_clients net)[i := ?c\<lparr>nc_up := up\<rparr>] ! k) (connections ! k)" if "k < length (bn_clients net)" for k
    using member [OF that] conns(2) [OF that] ms(1) that
    by (cases "k = i") (simp_all add: member_inv_def nth_list_update)
  with conns(1) inv i show ?thesis by (auto simp: net_inv_def intro!: exI [of _ ms])
qed

lemma net_inv_step:
  assumes "json_subscriptions api" "bus_step api implementations net net'" "net_inv api implementations ps net"
  shows "\<exists>ps'. net_inv api implementations ps' net'"
  using assms(2)
proof cases
  case joins
  have "length (bn_clients net) \<notin> fst ` set ps" using assms(3) by (auto simp: net_inv_def)
  from member_new [OF this] assms(3) show ?thesis
    unfolding joins by (intro exI [of _ ps]) (auto simp: net_inv_def nth_append less_Suc_eq)
next
  case (acts i c b)
  have "member_inv api implementations ps i c (bn_relay net ! i)" using assms(3) acts(2,3) by (simp add: net_inv_def)
  from member_acts [OF assms(1) this acts(4,5)] show ?thesis
    unfolding acts(1) by (intro exI [of _ ps] net_inv_client [OF assms(3) acts(2)])
next
  case (relay_reads i c n up connections)
  from net_inv_relay_reads [OF assms(3) relay_reads(2)] relay_reads(3,4) show ?thesis unfolding relay_reads(1) by blast
next
  case (relay_sends i r c m q sent)
  then have i: "i < length (bn_clients net)" using assms(3) by (simp add: net_inv_def)
  then have "member_inv api implementations ps i c r" using assms(3) relay_sends(3,4) by (simp add: net_inv_def)
  from member_relay_sends [OF this relay_sends(5,6,7)] show ?thesis
    unfolding relay_sends(1) by (intro exI [of _ ps] net_inv_update [OF assms(3) i])
next
  case (client_reads i c n down got)
  have "member_inv api implementations ps i c (bn_relay net ! i)" using assms(3) client_reads(2,3) by (simp add: net_inv_def)
  from member_client_reads [OF this client_reads(4)] show ?thesis
    unfolding client_reads(1) by (intro exI [of _ ps] net_inv_client [OF assms(3) client_reads(2)])
qed

lemma bus_reachable_inv:
  assumes "json_subscriptions api" "bus_reachable api implementations net"
  shows "\<exists>ps. net_inv api implementations ps net"
  using assms(2)
proof (induction rule: bus_reachable.induct)
  case nobody
  show ?case by (intro exI [of _ "[]"]) (simp add: net_inv_def)
next
  case (step net net')
  with net_inv_step [OF assms(1)] show ?case by blast
qed

text \<open>
  How a log explains a client and its connection: the packets the relay has handled are the first the
  client sent, what the client has received are the first messages for it; and when nothing is under
  way, all of them, and the relay knows the client's subscriptions.
\<close>

definition explains ::
  "'j json_api \<Rightarrow> implementation list \<Rightarrow> (nat \<times> bytes) list \<Rightarrow> nat \<Rightarrow> net_client \<Rightarrow> bus_connection \<Rightarrow> bool" where
  "explains api implementations ps i c r \<longleftrightarrow>
     (\<exists>later. bc_sent (nc_client c) = packets_of i ps @ later) \<and>
     (\<exists>later. List.map_filter (decoded implementations \<circ> encoded api) (addressed api i [] ps) = nc_got c @ later) \<and>
     (nc_up c = stream_new \<longrightarrow>
        packets_of i ps = bc_sent (nc_client c) \<and> rc_subscriptions r = bc_subscriptions (nc_client c)) \<and>
     (nc_down c = stream_new \<and> q_items (rc_queue r) = [] \<longrightarrow>
        nc_got c = List.map_filter (decoded implementations \<circ> encoded api) (addressed api i [] ps))"

lemma member_explained:
  assumes "member_inv api implementations ps i c r"
  shows "explains api implementations ps i c r"
proof -
  have up: "carries (bc_sent (nc_client c)) (packets_of i ps) (nc_up c)"
    and subs: "subs_after api i [] (map (Pair i) (bc_sent (nc_client c))) = bc_subscriptions (nc_client c)"
    and relay: "rc_subscriptions r = subs_after api i [] ps"
      "map (encoded api) (addressed api i [] ps) = rc_sent r @ map (encoded api) (q_items (rc_queue r))"
    using assms by (simp_all add: member_inv_def relays_def)
  obtain handled where h: "carries (rc_sent r) handled (nc_down c)" "nc_got c = List.map_filter (decoded implementations) handled"
    using assms by (auto simp: member_inv_def)
  have filter: "List.map_filter (decoded implementations \<circ> encoded api) ms =
      List.map_filter (decoded implementations) (map (encoded api) ms)" for ms
    by (simp add: List.map_filter_def filter_map comp_def)
  obtain later where "rc_sent r = handled @ later" using h(1) by (auto simp: carries_def)
  then have "\<exists>later. List.map_filter (decoded implementations \<circ> encoded api) (addressed api i [] ps) = nc_got c @ later"
    unfolding filter relay(2) h(2) by (simp add: List.map_filter_def)
  moreover have "nc_up c = stream_new \<Longrightarrow>
      packets_of i ps = bc_sent (nc_client c) \<and> rc_subscriptions r = bc_subscriptions (nc_client c)"
    using carries_nothing [of "bc_sent (nc_client c)" "packets_of i ps"] up subs relay(1) subs_after_own [of api i "[]" ps]
    by simp
  moreover have "nc_got c = List.map_filter (decoded implementations \<circ> encoded api) (addressed api i [] ps)"
    if "nc_down c = stream_new" "q_items (rc_queue r) = []"
    using carries_nothing [of "rc_sent r" handled] that h unfolding filter relay(2) by simp
  moreover have "\<exists>later. bc_sent (nc_client c) = packets_of i ps @ later" using up by (auto simp: carries_def)
  ultimately show ?thesis unfolding explains_def by blast
qed

end
