(* ===== verification/TestClient.thy ===== *)
theory TestClient
  imports MessageBus
begin

text \<open>
  The client that tries out the message bus (\<open>utils/mbus-test\<close>): its message, what it does with the
  messages it receives, and the program. What it writes to the log is its only output, so here the lines
  of the log are the state.
\<close>

section \<open>The message\<close>

definition test_message_default :: bus_message where
  "test_message_default = Test_message ''Hello world!''"

definition as_test :: "bus_message \<Rightarrow> string res" where
  "as_test = message_as test_class test_type (\<lambda>m. case m of Test_message text \<Rightarrow> Some text | _ \<Rightarrow> None)"

definition test_make :: "'j json_api \<Rightarrow> instantiator" where
  "test_make api messageClass messageType content =
     rbind (j_parse api (str_bytes content)) (\<lambda>v.
     rbind (j_index api v ''message'') (\<lambda>m.
     rbind (j_get_string api m) (\<lambda>text. Inr (Test_message text))))"

definition test_registered :: "'j json_api \<Rightarrow> implementation list" where
  "test_registered api = factory_register test_class test_type (test_make api) (registered api)"

section \<open>The client\<close>

definition dummy_on_receive :: "bus_message \<Rightarrow> (string list, unit) op" where
  "dummy_on_receive message lines =
     (let lines = lines @ [''Received message: '' @ message_class message @ ''::'' @ message_type message] in
      if message_is test_class test_type message
      then (case as_test message of
              Inl e \<Rightarrow> (Inl e, lines)
            | Inr text \<Rightarrow> (Inr (), lines @ [''Message text: '' @ text]))
      else (Inr (), lines))"

text \<open>\<open>main\<close>, but for the pauses.\<close>

fun broadcast_times :: "'j json_api \<Rightarrow> bus_message \<Rightarrow> nat \<Rightarrow> (bus_client, unit) op" where
  "broadcast_times api message 0 c = (Inr (), c)"
| "broadcast_times api message (Suc n) c =
     op_bind (client_broadcast api message) (\<lambda>_. broadcast_times api message n) c"

definition test_main :: "'j json_api \<Rightarrow> nat \<Rightarrow> (bus_client, unit) op" where
  "test_main api pid =
     (let message = Test_message (''Hello from '' @ dec_string pid) in
      op_bind (client_broadcast api message) (\<lambda>_.
      op_bind (subscribe api test_class) (\<lambda>_.
      broadcast_times api message 10)))"

section \<open>A message on its way\<close>

text \<open>
  What the messages need of the JSON library: the text of an object with one string is read back as it,
  and printing what was read gives the same text.
\<close>

definition json_messages :: "'j json_api \<Rightarrow> bool" where
  "json_messages api \<longleftrightarrow>
     (\<forall>text. \<exists>v m.
        j_parse api (str_bytes (j_dump api (j_init api [j_pair api ''message'' (j_string api text)]))) = Inr v \<and>
        j_dump api v = j_dump api (j_init api [j_pair api ''message'' (j_string api text)]) \<and>
        j_index api v ''message'' = Inr m \<and> j_get_string api m = Inr text)"

lemma test_registered_eq:
  "test_registered api =
     [(meta_class, set_subscriptions_type, set_subscriptions_make api), (test_class, test_type, test_make api)]"
  by (simp add: test_registered_def registered_def meta_class_def test_class_def)

text \<open>A relay reads a message as opaque and encodes it again; the client reads the message that was sent.\<close>

lemma test_message_decoded:
  assumes "json_messages api" "message_encode api (Test_message text) = Inr packet" "length packet \<le> max_message_size"
  shows "message_decode (test_registered api) packet = Inr (Test_message text)"
    and "\<exists>content. decode_opaque packet = Inr (Opaque_message test_class test_type content) \<and>
      message_encode api (Opaque_message test_class test_type content) = Inr packet"
proof -
  let ?content = "j_dump api (j_init api [j_pair api ''message'' (j_string api text)])"
  have packet: "packet = write_ref [] (write_parts test_class test_type ?content)"
    using assms(2) by (simp add: message_encode_def)
  obtain v m where v: "j_parse api (str_bytes ?content) = Inr v" "j_dump api v = ?content"
    "j_index api v ''message'' = Inr m" "j_get_string api m = Inr text"
    using assms(1) unfolding json_messages_def by blast
  then have "factory_make (test_registered api) test_class test_type ?content = Inr (Test_message text)"
    by (simp add: factory_make_def test_registered_eq test_make_def meta_class_def test_class_def)
  with packet assms(3) show "message_decode (test_registered api) packet = Inr (Test_message text)"
    unfolding message_decode_def do_decode_iff by blast
  show "\<exists>content. decode_opaque packet = Inr (Opaque_message test_class test_type content) \<and>
      message_encode api (Opaque_message test_class test_type content) = Inr packet"
    using packet assms(3) v(1,2) by (intro exI [of _ ?content]) (simp add: decode_opaque_encoded message_encode_def)
qed

lemma dummy_on_receive_test:
  "dummy_on_receive (Test_message text) lines =
     (Inr (), lines @ [''Received message: test::helloWorld'', ''Message text: '' @ text])"
  by (simp add: dummy_on_receive_def message_is_def as_test_def message_as_def test_class_def test_type_def)

lemma broadcast_times_sends:
  "message_encode api message = Inr packet \<Longrightarrow>
   broadcast_times api message n c = (Inr (), c\<lparr>bc_sent := bc_sent c @ replicate n packet\<rparr>)"
  by (induction n arbitrary: c) (simp_all add: op_bind_def client_broadcast_def)

text \<open>The program sends its message eleven times, and says after the first time that it wants such messages.\<close>

lemma test_main_sends:
  "\<exists>packet subs. message_encode api (Test_message (''Hello from '' @ dec_string pid)) = Inr packet \<and>
     message_encode api (Set_subscriptions_message [test_class]) = Inr subs \<and>
     test_main api pid \<lparr>bc_subscriptions = [], bc_sent = []\<rparr> =
       (Inr (), \<lparr>bc_subscriptions = [test_class], bc_sent = packet # subs # replicate 10 packet\<rparr>)"
proof -
  define m where m: "m = Test_message (''Hello from '' @ dec_string pid)"
  have main: "test_main api pid = op_bind (client_broadcast api m) (\<lambda>_.
      op_bind (subscribe api test_class) (\<lambda>_. broadcast_times api m 10))"
    by (simp add: test_main_def m Let_def)
  obtain packet subs where p: "message_encode api m = Inr packet"
    "message_encode api (Set_subscriptions_message [test_class]) = Inr subs"
    by (simp add: message_encode_def m)
  have "test_main api pid \<lparr>bc_subscriptions = [], bc_sent = []\<rparr> =
      (Inr (), \<lparr>bc_subscriptions = [test_class], bc_sent = packet # subs # replicate 10 packet\<rparr>)"
    unfolding main
    by (simp add: op_bind_def client_broadcast_def p subscribe_def broadcast_subscriptions_def
        broadcast_times_sends [OF p(1)])
  with p show ?thesis unfolding m by blast
qed

end
