(* ===== verification/Bus_Properties.thy ===== *)
theory Bus_Properties
  imports Instances BusNetwork TestClient Connections
begin

text \<open>
  What makes the message bus correct as a whole: what reaches its clients is what was sent to them, in
  order, whatever the interleaving of clients, relay and workers.
\<close>

section \<open>From client to client\<close>



section \<open>A connection that breaks\<close>

abbreviation collect :: "bytes \<Rightarrow> (bytes list, unit) op" where
  "collect message got \<equiv> (Inr (), got @ [message])"

lemma drain_collects: "drain msgSize collect buffer got = (r, rest, got') \<Longrightarrow> \<exists>more. got' = got @ more"
proof (induction "length buffer" arbitrary: buffer got rule: less_induct)
  case less
  show ?case
  proof (cases "\<exists>n. msgSize buffer = Inr n \<and> 0 < n \<and> n \<le> length buffer")
    case True
    then obtain n where n: "msgSize buffer = Inr n" "0 < n" "n \<le> length buffer" by blast
    then have "drain msgSize collect (drop n buffer) (got @ [take n buffer]) = (r, rest, got')"
      using less.prems by (simp add: drain.simps [of _ _ buffer] Let_def)
    from less.hyps [OF _ this] n obtain more where "got' = (got @ [take n buffer]) @ more" by fastforce
    then show ?thesis by simp
  next
    case False
    then have "got' = got"
      using less.prems by (auto simp: drain.simps [of _ _ buffer] Let_def split: sum.splits if_splits)
    then show ?thesis by simp
  qed
qed

abbreviation message_parser :: "bytes \<Rightarrow> stream_parser option" where
  "message_parser buffer \<equiv> Some \<lparr>sp_size = message_stream_size, sp_buffer = buffer\<rparr>"

text \<open>
  C26. A client whose connection breaks inside a message reconnects with a new socket but with the parser
  of the old one, which still holds the first part of that message. What the relay sends next is
  taken for the rest of it: the application is handed a message of two halves, nobody's.
\<close>

theorem broken_message_spoils_next:
  assumes "framed packet" "packet = part @ lost" "4 \<le> length part" "lost \<noteq> []" "length lost \<le> length next"
    and "Sockets.connected (rn_socket c)" "\<forall>fd \<in> set failed. fd < 0" "0 \<le> fd"
    and "\<forall>parser got. onReconnect (parser, got) = (Inr (), (parser, got))"
  shows "(\<exists>c' closed'. receiver_run (receive_packet collect) [Data part, End_of_file]
        (failed @ fd # answers) onReconnect 0 c gone (message_parser [], []) = Some (Inr (), c', closed', (message_parser part, [])) \<and>
      sb_fd (rn_socket c') = fd \<and> receiver_running c') \<and>
    (\<exists>r rest more. receive_packet collect next (message_parser part, []) =
        (r, message_parser rest, (part @ take (length lost) next) # more))"
proof
  have size: "unat (mem_u32 (take 4 packet)) \<le> max_message_size" "length packet = 4 + unat (mem_u32 (take 4 packet))"
    using assms(1) by (auto simp: framed_def message_stream_size_eq Let_def split: if_splits)
  have front: "take 4 packet = take 4 part" "take 4 (part @ next) = take 4 part"
    using assms(2,3) by simp_all
  have "message_stream_size part = Inr 0"
  proof -
    have "length part < length packet" using assms(2,4) by simp
    with size assms(3) front(1) show ?thesis by (simp add: message_stream_size_eq Let_def)
  qed
  then have first: "receive_packet collect part (message_parser [], []) = (Inr (), (message_parser part, []))"
    by (simp add: receive_packet_def process_packet_def drain.simps [of _ _ part])
  let ?sock = "(rn_socket c)\<lparr>sb_fd := - 1\<rparr>"
  have close: "socket_base_close (rn_socket c) gone = (?sock, gone @ [sb_fd (rn_socket c)])"
    using assms(6) by (simp add: socket_base_close_def)
  let ?c = "c\<lparr>rn_socket := ?sock, rn_receiver := thread_set_own_state True Terminating (rn_receiver c)\<rparr>"
  have down: "\<not> Sockets.connected (rn_socket ?c)" by (simp add: Sockets.connected_def)
  obtain c' where c': "reconnecting_cleanup (failed @ fd # answers) onReconnect 0 ?c (message_parser part, []) = Some (Inr (), c', (message_parser part, []))"
    "sb_fd (rn_socket c') = fd" "th_state (rn_receiver c') = Running"
    using reconnected [OF down assms(7,8), of onReconnect "(message_parser part, [])" "(message_parser part, [])" answers] assms(9) by blast
  then show "\<exists>c' closed'. receiver_run (receive_packet collect) [Data part, End_of_file]
        (failed @ fd # answers) onReconnect 0 c gone (message_parser [], []) = Some (Inr (), c', closed', (message_parser part, [])) \<and>
      sb_fd (rn_socket c') = fd \<and> receiver_running c'"
    using first close by (simp add: receiver_run_def receiver_running_def Let_def)
  have "message_stream_size (part @ next) = Inr (length packet)"
    using size assms(2-5) front by (simp add: message_stream_size_eq Let_def)
  moreover have "length packet \<noteq> 0" "length packet \<le> length (part @ next)" "take (length packet) (part @ next) = part @ take (length lost) next"
    using assms(2-5) by auto
  moreover obtain r rest got where run: "drain message_stream_size collect (drop (length packet) (part @ next))
      [part @ take (length lost) next] = (r, rest, got)" by (metis prod_cases3)
  ultimately have "receive_packet collect next (message_parser part, []) = (r, message_parser rest, got)"
    by (simp add: receive_packet_def process_packet_def drain.simps [of _ _ "part @ next"] Let_def)
  with drain_collects [OF run] show "\<exists>r rest more. receive_packet collect next (message_parser part, []) =
      (r, message_parser rest, (part @ take (length lost) next) # more)" by auto
qed

section \<open>A run\<close>

lemma subs_api_simps:
  "j_dump subs_api (j_init subs_api [j_pair subs_api ''message'' (j_string subs_api text)]) = text"
  "j_dump subs_api (j_init subs_api [j_pair subs_api ''subscriptions'' (j_array subs_api (map (j_string subs_api) subs))]) =
     subs_text subs"
  by (simp_all add: subs_api_def tree_api_def tree_init_def j_pair_def comp_def)

lemma subs_api_messages: "json_messages subs_api"
  unfolding json_messages_def subs_api_simps
  by (simp add: subs_api_def tree_api_def j_index_def)

definition hi_packet :: bytes where
  "hi_packet = write_ref [] (write_parts test_class test_type ''hi'')"

definition subs_packet :: bytes where
  "subs_packet = write_ref [] (write_parts meta_class set_subscriptions_type (subs_text [test_class]))"

lemma run_packets:
  "message_encode subs_api (Test_message ''hi'') = Inr hi_packet"
  "message_encode subs_api (Set_subscriptions_message [test_class]) = Inr subs_packet"
  "length hi_packet \<le> max_message_size" "length subs_packet \<le> max_message_size"
  using subs_api_simps(2) [of "[test_class]"]
  by (simp_all add: message_encode_def subs_api_simps hi_packet_def subs_packet_def write_parts_eq write_string_def
      byte_simps max_message_size_def test_class_def test_type_def meta_class_def set_subscriptions_type_def subs_text_def)


text \<open>
  Two clients: the first subscribes to the class of the test messages, the second sends one, and it
  arrives.
\<close>

definition hearer :: net_client where
  "hearer = net_client_new\<lparr>nc_client := \<lparr>bc_subscriptions = [test_class], bc_sent = [subs_packet]\<rparr>\<rparr>"

definition speaker :: net_client where
  "speaker = net_client_new\<lparr>nc_client := \<lparr>bc_subscriptions = [], bc_sent = [hi_packet]\<rparr>\<rparr>"

definition hi_opaque :: bus_message where "hi_opaque = Opaque_message test_class test_type ''hi''"

definition subscribed :: bus_connection where
  "subscribed = bus_connection_new\<lparr>rc_subscriptions := [test_class]\<rparr>"

lemma run_framed: "framed hi_packet" "framed subs_packet"
  using framed_encoded run_packets by blast+

lemma run_relay:
  "relay_on_receive subs_api 0 subs_packet [bus_connection_new, bus_connection_new] = (Inr (), [subscribed, bus_connection_new])"
  "relay_on_receive subs_api 1 hi_packet [subscribed, bus_connection_new] =
     (Inr (), [subscribed\<lparr>rc_queue := queue_push hi_opaque queue_new\<rparr>, bus_connection_new])"
proof -
  show "relay_on_receive subs_api 0 subs_packet [bus_connection_new, bus_connection_new] =
      (Inr (), [subscribed, bus_connection_new])"
    using relay_subscribes [OF subs_api_subscriptions run_packets(2,4), of 0 "[bus_connection_new, bus_connection_new]"]
    by (simp add: subscribed_def)
  have "test_class \<noteq> meta_class" by (simp add: test_class_def meta_class_def)
  from relay_delivers_to_subscribers [OF hi_packet_def run_packets(3) this, of subs_api 1 "[subscribed, bus_connection_new]"]
  show "relay_on_receive subs_api 1 hi_packet [subscribed, bus_connection_new] =
      (Inr (), [subscribed\<lparr>rc_queue := queue_push hi_opaque queue_new\<rparr>, bus_connection_new])"
    by (simp add: subscribed_def bus_connection_new_def hi_opaque_def)
qed

lemma hi_passes:
  "send_event subs_api hi_opaque [] = (Inr (), [hi_packet])"
  "bus_on_receive (test_registered subs_api) (\<lambda>m got. (Inr (), got @ [m])) hi_packet [] = (Inr (), [Test_message ''hi''])"
proof -
  obtain content where "decode_opaque hi_packet = Inr (Opaque_message test_class test_type content)"
    "message_encode subs_api (Opaque_message test_class test_type content) = Inr hi_packet"
    using test_message_decoded(2) [OF subs_api_messages run_packets(1,3)] by blast
  moreover have "decode_opaque hi_packet = Inr hi_opaque"
    using decode_opaque_encoded run_packets(3) by (simp add: hi_packet_def hi_opaque_def)
  ultimately show "send_event subs_api hi_opaque [] = (Inr (), [hi_packet])" by (simp add: send_event_def)
  show "bus_on_receive (test_registered subs_api) (\<lambda>m got. (Inr (), got @ [m])) hi_packet [] = (Inr (), [Test_message ''hi''])"
    using test_message_decoded(1) [OF subs_api_messages run_packets(1,3)] by (simp add: bus_on_receive_def)
qed

abbreviation reaches :: "bus_net \<Rightarrow> bool" where
  "reaches \<equiv> bus_reachable subs_api (test_registered subs_api)"

lemma subscription_reaches: "reaches \<lparr>bn_clients = [hearer, net_client_new], bn_relay = [subscribed, bus_connection_new]\<rparr>"
proof -
  note eval = put_news_def hearer_def net_client_new_def bus_client_new_def stream_new_def
  have two: "reaches \<lparr>bn_clients = [net_client_new, net_client_new], bn_relay = [bus_connection_new, bus_connection_new]\<rparr>"
    using bus_reachable.step [OF bus_reachable.step [OF bus_reachable.nobody bus_step.joins] bus_step.joins] by simp
  have acts: "client_acts subs_api (nc_client net_client_new) (nc_client hearer)"
    by (rule client_acts.subscribes [where x = test_class])
      (simp add: eval subscribe_def broadcast_subscriptions_def client_broadcast_def run_packets)
  have sent: "reaches \<lparr>bn_clients = [hearer\<lparr>nc_up := \<lparr>st_flight = subs_packet, st_buffer = []\<rparr>\<rparr>, net_client_new],
      bn_relay = [bus_connection_new, bus_connection_new]\<rparr>"
    using bus_reachable.step [OF two bus_step.acts [OF _ refl, where i = 0 and b = "nc_client hearer"]] acts
    by (simp add: eval run_packets)
  have read: "stream_read (length subs_packet) (relay_on_receive subs_api 0) \<lparr>st_flight = subs_packet, st_buffer = []\<rparr>
      [bus_connection_new, bus_connection_new] = (Inr stream_new, [subscribed, bus_connection_new])"
    by (rule stream_read_one) (rule run_framed run_relay)+
  have "reaches \<lparr>bn_clients = [hearer\<lparr>nc_up := stream_new\<rparr>, net_client_new], bn_relay = [subscribed, bus_connection_new]\<rparr>"
    using bus_reachable.step [OF sent bus_step.relay_reads [OF _ refl, where i = 0 and n = "length subs_packet"
        and up = stream_new and connections = "[subscribed, bus_connection_new]"]] read
    by simp
  moreover have "hearer\<lparr>nc_up := stream_new\<rparr> = hearer" by (simp add: hearer_def net_client_new_def)
  ultimately show ?thesis by simp
qed

lemma message_reaches:
  "reaches \<lparr>bn_clients = [hearer\<lparr>nc_got := [Test_message ''hi'']\<rparr>, speaker],
     bn_relay = [subscribed\<lparr>rc_sent := [hi_packet]\<rparr>, bus_connection_new]\<rparr>"
proof -
  note eval = put_news_def speaker_def net_client_new_def bus_client_new_def stream_new_def
  have acts: "client_acts subs_api (nc_client net_client_new) (nc_client speaker)"
    by (rule client_acts.broadcasts [where m = "Test_message ''hi''"])
      (simp_all add: eval client_broadcast_def run_packets test_class_def meta_class_def)
  have sent: "reaches \<lparr>bn_clients = [hearer, speaker\<lparr>nc_up := \<lparr>st_flight = hi_packet, st_buffer = []\<rparr>\<rparr>],
      bn_relay = [subscribed, bus_connection_new]\<rparr>"
    using bus_reachable.step [OF subscription_reaches bus_step.acts [OF _ refl, where i = 1 and b = "nc_client speaker"]] acts
    by (simp add: eval run_packets)
  have read: "stream_read (length hi_packet) (relay_on_receive subs_api 1) \<lparr>st_flight = hi_packet, st_buffer = []\<rparr>
      [subscribed, bus_connection_new] =
        (Inr stream_new, [subscribed\<lparr>rc_queue := queue_push hi_opaque queue_new\<rparr>, bus_connection_new])"
    by (rule stream_read_one) (rule run_framed run_relay)+
  have "speaker\<lparr>nc_up := stream_new\<rparr> = speaker" by (simp add: speaker_def net_client_new_def)
  then have queued: "reaches \<lparr>bn_clients = [hearer, speaker],
      bn_relay = [subscribed\<lparr>rc_queue := queue_push hi_opaque queue_new\<rparr>, bus_connection_new]\<rparr>"
    using bus_reachable.step [OF sent bus_step.relay_reads [OF _ refl, where i = 1 and n = "length hi_packet"
        and up = stream_new and connections = "[subscribed\<lparr>rc_queue := queue_push hi_opaque queue_new\<rparr>, bus_connection_new]"]] read
    by simp
  have wait: "wait_for_message (queue_push hi_opaque queue_new) = Some (Inr hi_opaque, queue_new)"
    by (simp add: wait_for_message_eq queue_push_def queue_new_def)
  have "subscribed\<lparr>rc_queue := queue_new\<rparr> = subscribed" "rc_sent subscribed = []" "nc_down hearer = stream_new"
    by (simp_all add: subscribed_def bus_connection_new_def hearer_def net_client_new_def)
  then have forwarded: "reaches \<lparr>bn_clients = [hearer\<lparr>nc_down := \<lparr>st_flight = hi_packet, st_buffer = []\<rparr>\<rparr>, speaker],
      bn_relay = [subscribed\<lparr>rc_sent := [hi_packet]\<rparr>, bus_connection_new]\<rparr>"
    using bus_reachable.step [OF queued bus_step.relay_sends [OF _ refl refl, where i = 0 and m = hi_opaque
        and q = queue_new and sent = "[hi_packet]"]] wait hi_passes(1) run_packets(3)
    by (simp add: put_news_def stream_new_def)
  have got: "stream_read (length hi_packet) (bus_on_receive (test_registered subs_api) (\<lambda>m got. (Inr (), got @ [m])))
      \<lparr>st_flight = hi_packet, st_buffer = []\<rparr> [] = (Inr stream_new, [Test_message ''hi''])"
    by (rule stream_read_one) (rule run_framed hi_passes)+
  have "nc_got hearer = []" "hearer\<lparr>nc_down := stream_new\<rparr> = hearer" by (simp_all add: hearer_def net_client_new_def)
  then show ?thesis
    using bus_reachable.step [OF forwarded bus_step.client_reads [OF _ refl, where i = 0 and n = "length hi_packet"
        and down = stream_new and got = "[Test_message ''hi'']"]] got
    by simp
qed


text \<open>The packet breaks after five bytes and is sent again as a whole: it is not handled, and the client's thread ends.\<close>

lemma hi_bytes:
  "hi_packet = [28, 0, 0, 0, 4, 0, 0, 0, 116, 101, 115, 116, 10, 0, 0, 0,
     104, 101, 108, 108, 111, 87, 111, 114, 108, 100, 2, 0, 0, 0, 104, 105]"
proof -
  have mem: "u32_mem 28 = [28, 0, 0, 0]" "u32_mem 4 = [4, 0, 0, 0]" "u32_mem 10 = [10, 0, 0, 0]" "u32_mem 2 = [2, 0, 0, 0]"
    "str_bytes ''test'' = [116, 101, 115, 116]" "str_bytes ''hi'' = [104, 105]"
    "str_bytes ''helloWorld'' = [104, 101, 108, 108, 111, 87, 111, 114, 108, 100]"
    by code_simp+
  show ?thesis
    by (simp add: hi_packet_def write_parts_eq write_string_def byte_simps test_class_def test_type_def mem)
qed

lemma hi_again:
  "receive_packet collect hi_packet (message_parser (take 5 hi_packet), []) =
     (Inl (Runtime_error ''Received invalid message bus packet: message too long''), message_parser (drop 27 hi_packet),
      [take 5 hi_packet @ take 27 hi_packet])"
proof -
  have mem: "mem_u32 [28, 0, 0, 0] = 28" "mem_u32 [0, 0, 0, 104] = 1744830464" by (simp_all add: mem_u32_def)
  have one: "message_stream_size (take 5 hi_packet @ hi_packet) = Inr 32"
    and two: "message_stream_size (drop 27 hi_packet) = Inl (Runtime_error ''Received invalid message bus packet: message too long'')"
    by (simp_all add: message_stream_size_eq hi_bytes mem max_message_size_def)
  have cut: "length hi_packet = 32" "take 32 (take 5 hi_packet @ hi_packet) = take 5 hi_packet @ take 27 hi_packet"
    "drop 32 (take 5 hi_packet @ hi_packet) = drop 27 hi_packet"
    by (simp_all add: hi_bytes)
  show ?thesis
    by (simp add: receive_packet_def process_packet_def drain.simps [of _ _ "take 5 hi_packet @ hi_packet"] one cut
        drain.simps [of _ _ "drop 27 hi_packet"] two)
qed

theorem broken_message_spoils_next_witness:
  "\<exists>c' gone more. receiver_run (receive_packet collect) [Data (take 5 hi_packet), End_of_file] [- 1, 4]
       (\<lambda>st. (Inr (), st)) 0 \<lparr>rn_socket = socket_base_new 3, rn_receiver = \<lparr>th_state = Running, th_lockHeld = False,
         th_progress = In_main, th_mains = 1\<rparr>\<rparr> [] (message_parser [], []) = Some (Inr (), c', gone, (message_parser (take 5 hi_packet), [])) \<and>
     sb_fd (rn_socket c') = 4 \<and>
     receive_packet collect hi_packet (message_parser (take 5 hi_packet), []) =
       (Inl (Runtime_error ''Received invalid message bus packet: message too long''), message_parser (drop 27 hi_packet),
        (take 5 hi_packet @ take 27 hi_packet) # more)"
proof -
  let ?c = "\<lparr>rn_socket = socket_base_new 3, rn_receiver = \<lparr>th_state = Running, th_lockHeld = False,
    th_progress = In_main, th_mains = 1\<rparr>\<rparr>"
  have len: "length hi_packet = 32"
    by (simp add: hi_bytes)
  then have split: "4 \<le> length (take 5 hi_packet)" "drop 5 hi_packet \<noteq> []" "length (drop 5 hi_packet) \<le> length hi_packet"
    by simp_all
  have conn: "Sockets.connected (rn_socket ?c)" "\<forall>fd \<in> set [- 1]. fd < (0 :: int)" "0 \<le> (4 :: int)"
    by (simp_all add: Sockets.connected_def socket_base_new_def)
  from broken_message_spoils_next [OF run_framed(1) append_take_drop_id [symmetric] split conn, of "\<lambda>st. (Inr (), st)" "[]" "[]"]
  show ?thesis using hi_again len by auto
qed

end
