(* ===== verification/Rpc.thy ===== *)
theory Rpc
  imports Jobs
begin

text \<open>
  Talking to the full node (\<open>lib/bitcoinrpc\<close>, \<open>pool/DaemonConnector\<close>). Base64 (OpenSSL) and the
  node behind the socket are parameters: whether there is a connection, and what the node answers
  to a request.
\<close>

section \<open>Requests\<close>

record 'j rpc =
  rpc_json :: "'j json_api"
  rpc_authkey :: string
  rpc_connected :: bool
  rpc_exchange :: "string \<Rightarrow> string"
  rpc_counter :: nat

definition make_auth_key :: "(string \<Rightarrow> string) \<Rightarrow> string \<Rightarrow> string \<Rightarrow> string" where
  "make_auth_key encode_block username password =
     (let raw = username @ '':'' @ password in encode_block raw)"

text \<open>\<open>base64\<close> encodes the key; \<open>connection\<close> and \<open>exchange\<close> are the node.\<close>

definition rpc_connection_new ::
  "'j json_api \<Rightarrow> (string \<Rightarrow> string) \<Rightarrow> bool \<Rightarrow> (string \<Rightarrow> string) \<Rightarrow> string \<Rightarrow> string \<Rightarrow> 'j rpc" where
  "rpc_connection_new api base64 connection exchange username password =
     \<lparr>rpc_json = api, rpc_authkey = make_auth_key base64 username password, rpc_connected = connection,
      rpc_exchange = exchange, rpc_counter = 0\<rparr>"

definition lf :: string where "lf = [char_of (10 :: nat)]"
definition crlf :: string where "crlf = [char_of (13 :: nat), char_of (10 :: nat)]"

definition http_request :: "string \<Rightarrow> string \<Rightarrow> string" where
  "http_request authkey dumped =
     (let data = ''POST / HTTP/1.0'' @ lf @ ''Content-Type: text/plain;'' @ lf;
          data = data @ ''Authorization: Basic '' @ authkey @ lf;
          payload = dumped @ lf;
          data = data @ ''Content-Length: '' @ dec_string (length payload) @ lf @ lf
      in data @ payload)"

text \<open>\<open>strstr\<close>: the text from the first occurrence on.\<close>

fun strstr :: "string \<Rightarrow> string \<Rightarrow> string option" where
  "strstr [] needle = (if needle = [] then Some [] else None)"
| "strstr (c # cs) needle =
     (if take (length needle) (c # cs) = needle then Some (c # cs) else strstr cs needle)"

text \<open>What \<open>c_str\<close> shows of a string to a C function.\<close>

definition c_string :: "string \<Rightarrow> string" where
  "c_string s = takeWhile (\<lambda>c. c \<noteq> char_of (0 :: nat)) s"

definition rpc_send_and_receive :: "'j rpc \<Rightarrow> 'j \<Rightarrow> 'j option res" where
  "rpc_send_and_receive r request =
     (if \<not> rpc_connected r then Inr None
      else
        let data = http_request (rpc_authkey r) (j_dump (rpc_json r) request);
            response = c_string (rpc_exchange r data)
        in case strstr response (crlf @ crlf) of
             None \<Rightarrow> Inr None
           | Some dataStart \<Rightarrow>
               rbind (j_parse (rpc_json r) (str_bytes (drop 4 dataStart))) (\<lambda>v. Inr (Some v)))"

definition rpc_envelope :: "'j json_api \<Rightarrow> nat \<Rightarrow> string \<Rightarrow> 'j \<Rightarrow> 'j" where
  "rpc_envelope api counter method params =
     (let e = j_init api [];
          e = j_set api e ''jsonrpc'' (j_string api ''1.0'');
          e = j_set api e ''id'' (j_string api (dec_string counter));
          e = j_set api e ''method'' (j_string api method)
      in j_set api e ''params'' params)"

text \<open>The payload of the answer; null is both a null result and no answer. Errors are only logged.\<close>

definition rpc_payload :: "'j rpc \<Rightarrow> string \<Rightarrow> 'j \<Rightarrow> 'j option res \<times> 'j rpc" where
  "rpc_payload r method params =
     (let api = rpc_json r;
          envelope = rpc_envelope api (rpc_counter r) method params;
          r' = r\<lparr>rpc_counter := rpc_counter r + 1\<rparr>
      in (rbind (rpc_send_and_receive r envelope) (\<lambda>response_ptr.
            case response_ptr of
              None \<Rightarrow> Inr None
            | Some response \<Rightarrow>
                if \<not> j_contains api response ''result'' then Inr None
                else rbind (j_index api response ''result'') (\<lambda>v.
                  if j_is_null api v then Inr None else Inr (Some v))), r'))"

section \<open>Block templates\<close>

record block_template =
  bt_version :: u32
  bt_height :: u32
  bt_previousBlockHash :: hash256
  bt_transactions :: "raw_transaction list"
  bt_witnessCommitment :: bytes
  bt_coinbaseCoins :: u64
  bt_miningTarget :: hash256
  bt_miningTargetBits :: u32
  bt_notBefore :: u32

definition rpc_field_text :: "'j json_api \<Rightarrow> 'j \<Rightarrow> string \<Rightarrow> bytes res" where
  "rpc_field_text api v key =
     rbind (j_index api v key) (\<lambda>x. rbind (j_get_string api x) (\<lambda>s. Inr (from_hex s)))"

definition read_transaction :: "'j json_api \<Rightarrow> 'j \<Rightarrow> raw_transaction res" where
  "read_transaction api tx =
     rbind (rpc_field_text api tx ''txid'') (\<lambda>txid.
     rbind (hash256_from txid) (\<lambda>h.
     rbind (rpc_field_text api tx ''data'') (\<lambda>raw. Inr \<lparr>txid = h, tx_bytes = raw\<rparr>)))"

text \<open>The four bytes behind \<open>data()\<close>, as many as the text has.\<close>

definition read_bits :: "bytes \<Rightarrow> u32 res" where
  "read_bits raw = (if length raw < 4 then Inl (Undefined ''bits'') else Inr (mem_u32 (take 4 raw)))"

definition read_block_template :: "'j json_api \<Rightarrow> 'j \<Rightarrow> block_template res" where
  "read_block_template api response =
     rbind (j_index api response ''transactions'') (\<lambda>txs.
     rbind (rmap (read_transaction api) (j_elements api txs)) (\<lambda>transactions.
     rbind (rbind (j_index api response ''version'') (j_get_uint32 api)) (\<lambda>version.
     rbind (rbind (j_index api response ''height'') (j_get_uint32 api)) (\<lambda>height.
     rbind (rpc_field_text api response ''previousblockhash'') (\<lambda>prev.
     rbind (hash256_from (reverse_bs prev)) (\<lambda>previousBlockHash.
     rbind (rpc_field_text api response ''default_witness_commitment'') (\<lambda>witness.
     rbind (rbind (j_index api response ''coinbasevalue'') (j_get_uint64 api)) (\<lambda>coins.
     rbind (rpc_field_text api response ''target'') (\<lambda>rawTarget.
     rbind (hash256_from rawTarget) (\<lambda>target.
     rbind (rpc_field_text api response ''bits'') (\<lambda>rawBits.
     rbind (read_bits rawBits) (\<lambda>bits.
     rbind (rbind (j_index api response ''mintime'') (j_get_uint32 api)) (\<lambda>mintime.
     Inr \<lparr>bt_version = version, bt_height = height, bt_previousBlockHash = previousBlockHash,
          bt_transactions = transactions, bt_witnessCommitment = witness, bt_coinbaseCoins = coins,
          bt_miningTarget = target, bt_miningTargetBits = bits, bt_notBefore = mintime\<rparr>)))))))))))))"

definition get_block_template :: "'j rpc \<Rightarrow> block_template res \<times> 'j rpc" where
  "get_block_template r =
     (let api = rpc_json r;
          rules = j_init api [j_pair api ''rules'' (j_init api [j_string api ''segwit''])]
      in case rpc_payload r ''getblocktemplate'' (j_array api [rules]) of
           (Inl e, r') \<Rightarrow> (Inl e, r')
         | (Inr None, r') \<Rightarrow> (Inl (Runtime_error ''getblocktemplate RPC failure''), r')
         | (Inr (Some response), r') \<Rightarrow> (read_block_template api response, r'))"

datatype chain_type = Main_chain | Testnet | Regtest | Unknown_chain

record block_chain_info =
  ci_chain :: chain_type
  ci_height :: u32
  ci_synced :: bool
  ci_chaintip :: hash256

definition chain_of_name :: "string \<Rightarrow> chain_type" where
  "chain_of_name chainName =
     (if chainName = ''main'' then Main_chain
      else if chainName = ''test'' then Testnet
      else if chainName = ''regtest'' then Regtest
      else Unknown_chain)"

definition read_block_chain_info :: "'j json_api \<Rightarrow> 'j \<Rightarrow> block_chain_info res" where
  "read_block_chain_info api response =
     rbind (rbind (j_index api response ''chain'') (j_get_string api)) (\<lambda>chainName.
     rbind (rbind (j_index api response ''blocks'') (j_get_int api)) (\<lambda>blocks.
     rbind (rbind (j_index api response ''headers'') (j_get_int api)) (\<lambda>headers.
     rbind (rpc_field_text api response ''bestblockhash'') (\<lambda>best.
     rbind (hash256_from best) (\<lambda>chaintip.
     Inr \<lparr>ci_chain = chain_of_name chainName, ci_height = blocks, ci_synced = (blocks = headers),
          ci_chaintip = chaintip\<rparr>)))))"

definition get_block_chain_info :: "'j rpc \<Rightarrow> block_chain_info res \<times> 'j rpc" where
  "get_block_chain_info r =
     (case rpc_payload r ''getblockchaininfo'' (j_array (rpc_json r) []) of
        (Inl e, r') \<Rightarrow> (Inl e, r')
      | (Inr None, r') \<Rightarrow> (Inl (Runtime_error ''getblockchaininfo RPC failure''), r')
      | (Inr (Some response), r') \<Rightarrow> (read_block_chain_info (rpc_json r) response, r'))"

definition template_network_state :: "u32 \<Rightarrow> block_template \<Rightarrow> network_state" where
  "template_network_state now t =
     network_state_not_before now (bt_version t) (bt_miningTargetBits t) (bt_notBefore t) (bt_height t)
       (bt_previousBlockHash t) (bt_miningTarget t) (bt_coinbaseCoins t)"

section \<open>Blocks\<close>

definition assert_blockhash :: "bytes \<Rightarrow> unit res" where
  "assert_blockhash blockhash =
     (if length blockhash \<noteq> 32 then Inl (Runtime_error ''Invalid blockhash'') else Inr ())"

definition get_block :: "'j rpc \<Rightarrow> bytes \<Rightarrow> bytes res \<times> 'j rpc" where
  "get_block r blockhash =
     (case assert_blockhash blockhash of
        Inl e \<Rightarrow> (Inl e, r)
      | Inr _ \<Rightarrow>
          let api = rpc_json r; params = j_init api [j_string api (as_hex blockhash), j_int api 0]
          in (case rpc_payload r ''getblock'' params of
               (Inl e, r') \<Rightarrow> (Inl e, r')
             | (Inr None, r') \<Rightarrow> (Inl (Runtime_error ''getblock RPC failure''), r')
             | (Inr (Some v), r') \<Rightarrow>
                 (if \<not> j_is_string api v then Inl (Runtime_error ''getblock RPC failure'')
                  else rbind (j_get_string api v) (\<lambda>s. Inr (from_hex s)), r')))"

definition get_transactions_in_block :: "'j rpc \<Rightarrow> bytes \<Rightarrow> bytes list res \<times> 'j rpc" where
  "get_transactions_in_block r blockhash =
     (case assert_blockhash blockhash of
        Inl e \<Rightarrow> (Inl e, r)
      | Inr _ \<Rightarrow>
          let api = rpc_json r; params = j_init api [j_string api (as_hex blockhash)];
              failure = Inl (Runtime_error ''getblock RPC failure'')
          in (case rpc_payload r ''getblock'' params of
               (Inl e, r') \<Rightarrow> (Inl e, r')
             | (Inr None, r') \<Rightarrow> (failure, r')
             | (Inr (Some v), r') \<Rightarrow>
                 (if \<not> j_is_object api v \<or> \<not> j_contains api v ''tx'' then failure
                  else rbind (j_index api v ''tx'') (\<lambda>txs.
                    if \<not> j_is_array api txs then failure
                    else rmap (\<lambda>tx. rbind (j_get_string api tx) (\<lambda>s. Inr (reverse_bs (from_hex s))))
                           (j_elements api txs)), r')))"

definition serialize_block :: "blockheader \<Rightarrow> bytes \<Rightarrow> raw_transaction list \<Rightarrow> bytes" where
  "serialize_block header coinbaseTransaction transactions =
     (let block = append_ref [] (header_mem header);
          block = append_ref block (varint_encode (word_of_nat (1 + length transactions)));
          block = append_ref block coinbaseTransaction
      in foldl (\<lambda>block tx. append_ref block (tx_bytes tx)) block transactions)"

text \<open>What is logged: the node took the block, or it did not.\<close>

datatype submit_report = Reported_success bytes | Reported_failure bytes

definition submit_block ::
  "(bytes \<Rightarrow> hash256) \<Rightarrow> 'j rpc \<Rightarrow> blockheader \<Rightarrow> bytes \<Rightarrow> raw_transaction list \<Rightarrow>
   submit_report res \<times> 'j rpc" where
  "submit_block sha256d r header coinbaseTransaction transactions =
     (let api = rpc_json r;
          block = serialize_block header coinbaseTransaction transactions
      in case rpc_payload r ''submitblock'' (j_init api [j_string api (as_hex block)]) of
           (Inl e, r') \<Rightarrow> (Inl e, r')
         | (Inr result, r') \<Rightarrow>
             (rbind (header_hash (\<lambda>d. Inr (sha256d d)) header) (\<lambda>h.
                Inr (case result of None \<Rightarrow> Reported_success (raw256 h) | Some _ \<Rightarrow> Reported_failure (raw256 h))), r'))"

section \<open>What is sent, and what is understood\<close>

lemma serialize_block_eq:
  "serialize_block h c txs =
     header_mem h @ varint_encode (word_of_nat (1 + length txs)) @ c @ concat (map tx_bytes txs)"
proof -
  have "foldl (\<lambda>block tx. append_ref block (tx_bytes tx)) b txs = b @ concat (map tx_bytes txs)" for b
    by (induction txs arbitrary: b) auto
  then show ?thesis by (simp add: serialize_block_def)
qed

lemma block_bytes_read_back:
  assumes "wf_header h"
  shows "header_from_raw (take 80 (serialize_block h c txs)) = Inr h"
    and "varint_read (drop 80 (serialize_block h c txs)) =
      Inr (word_of_nat (1 + length txs), c @ concat (map tx_bytes txs))"
  using assms by (simp_all add: serialize_block_eq header_from_raw_mem varint_read_encode)

text \<open>Without a connection the block goes nowhere, and its submission is reported as a success.\<close>

lemma submit_disconnected:
  assumes "\<not> rpc_connected r" "wf_header h" "hasher_ok sha"
  shows "fst (submit_block sha r h c txs) = Inr (Reported_success (rev (raw256 (sha (header_mem h)))))"
proof -
  have "rpc_payload r m ps = (Inr None, r\<lparr>rpc_counter := rpc_counter r + 1\<rparr>)" for m ps
    using assms(1) by (simp add: rpc_payload_def rpc_send_and_receive_def Let_def)
  moreover have "header_hash (\<lambda>d. Inr (sha d)) h = Inr (Hash256 (rev (raw256 (sha (header_mem h)))))"
    using assms by (intro header_hash_ok) auto
  ultimately show ?thesis by (simp add: submit_block_def Let_def)
qed

text \<open>A template's fields are well formed, and so is the network state made of them.\<close>

lemma read_block_template_wf:
  "read_block_template api v = Inr t \<Longrightarrow> wf_hash (bt_previousBlockHash t) \<and> wf_hash (bt_miningTarget t)"
  by (auto simp: read_block_template_def rbind_eq_Inr hash256_from_def hash_from_ref_def wf_hash_def
      split: if_splits)

end
