(* ===== verification/Poller.thy ===== *)
theory Poller
  imports Rpc Pools Sync
begin

text \<open>
  Watching the node for new blocks (\<open>pool/BlockTemplatePoller\<close>, \<open>pool/DaemonConnector\<close>): once a second
  a template is requested, and when it is about another block the stratum server is told. A node
  that is one block behind the last one is ignored.
\<close>

section \<open>The poller\<close>

record poller =
  lastHeight :: u32
  lastPrevBlockHash :: hash256
  lastPrevPrevBlockHash :: hash256

definition poller_new :: poller where
  "poller_new =
     \<lparr>lastHeight = 0, lastPrevBlockHash = hash256_zero, lastPrevPrevBlockHash = hash256_zero\<rparr>"

definition poll_update :: "block_template \<Rightarrow> poller \<Rightarrow> bool" where
  "poll_update t p =
     (if bt_height t \<noteq> lastHeight p
      then if bt_height t = lastHeight p - 1 \<and> hash256_eq (lastPrevPrevBlockHash p) (bt_previousBlockHash t)
           then False
           else True
      else False)"

definition poll_note :: "block_template \<Rightarrow> poller \<Rightarrow> poller" where
  "poll_note t p =
     (let p = (if lastHeight p = bt_height t - 1
               then p\<lparr>lastPrevPrevBlockHash := lastPrevBlockHash p\<rparr>
               else p\<lparr>lastPrevPrevBlockHash := hash256_zero\<rparr>)
      in p\<lparr>lastHeight := bt_height t, lastPrevBlockHash := bt_previousBlockHash t\<rparr>)"

section \<open>The daemon and its stratum server\<close>

record 'j daemon =
  dm_rpc :: "'j rpc"
  dm_poller :: poller
  dm_pollerThread :: thread
  dm_stratum :: "stratum_server option"

text \<open>The connector with its poller, whose thread waits to be started (\<open>created\<close> is what \<open>pthread_create\<close> answers).\<close>

definition daemon_new :: "int \<Rightarrow> 'j rpc \<Rightarrow> 'j daemon res" where
  "daemon_new created r =
     rbind (thread_new created) (\<lambda>t.
       Inr \<lparr>dm_rpc = r, dm_poller = poller_new, dm_pollerThread = t, dm_stratum = None\<rparr>)"

definition get_network_state :: "u32 \<Rightarrow> ('j daemon, network_state) op" where
  "get_network_state now d =
     (case get_block_template (dm_rpc d) of
        (r, rpc') \<Rightarrow> (rbind r (\<lambda>t. Inr (template_network_state now t)), d\<lparr>dm_rpc := rpc'\<rparr>))"

text \<open>
  What the server is given of the connector: the initializer, which asks for the first state, and the
  submitter. The report of a submission only goes to the log.
\<close>

definition stratum_initializer :: "u32 \<Rightarrow> ('j daemon, network_state) op" where
  "stratum_initializer now parent = get_network_state now parent"

definition block_submitter :: "(bytes \<Rightarrow> hash256) \<Rightarrow> submission \<Rightarrow> ('j daemon, unit) op" where
  "block_submitter sha256d block parent =
     (case submit_block sha256d (dm_rpc parent) (sub_header block) (sub_coinbase block) (sub_transactions block) of
        (report, rpc') \<Rightarrow> (map_sum id (\<lambda>_. ()) report, parent\<lparr>dm_rpc := rpc'\<rparr>))"

definition update_stratum_server :: "(bytes \<Rightarrow> hash256) \<Rightarrow> network_state \<Rightarrow> ('j daemon, unit) op" where
  "update_stratum_server sha256d state d =
     (case dm_stratum d of
        None \<Rightarrow> (Inl (Undefined ''null _stratum''), d)
      | Some sv \<Rightarrow> (Inr (), d\<lparr>dm_stratum := Some (server_update_network_state sha256d state sv)\<rparr>))"

definition register_update_notifications_for :: "stratum_server \<Rightarrow> 'j daemon \<Rightarrow> 'j daemon" where
  "register_update_notifications_for sv d =
     d\<lparr>dm_stratum := Some sv, dm_pollerThread := thread_start (dm_pollerThread d)\<rparr>"

definition poll :: "(bytes \<Rightarrow> hash256) \<Rightarrow> u32 \<Rightarrow> ('j daemon, unit) op" where
  "poll sha256d now d =
     (case get_block_template (dm_rpc d) of
        (Inl e, r) \<Rightarrow> (Inl e, d\<lparr>dm_rpc := r\<rparr>)
      | (Inr t, r) \<Rightarrow>
          let d = d\<lparr>dm_rpc := r\<rparr> in
          if poll_update t (dm_poller d)
          then update_stratum_server sha256d (template_network_state now t)
                 (d\<lparr>dm_poller := poll_note t (dm_poller d)\<rparr>)
          else (Inr (), d))"

text \<open>
  \<open>main\<close> of the poller's thread for the times given: nothing catches what a poll throws, so it ends
  there.
\<close>

fun poller_main :: "(bytes \<Rightarrow> hash256) \<Rightarrow> u32 list \<Rightarrow> ('j daemon, unit) op" where
  "poller_main sha256d [] d = (Inr (), d)"
| "poller_main sha256d (now # nows) d = op_bind (poll sha256d now) (\<lambda>_. poller_main sha256d nows) d"

text \<open>A run of polls: the templates that are passed on.\<close>

fun polls :: "block_template list \<Rightarrow> poller \<Rightarrow> block_template list \<times> poller" where
  "polls [] p = ([], p)"
| "polls (t # ts) p =
     (if poll_update t p
      then (case polls ts (poll_note t p) of (passed, p') \<Rightarrow> (t # passed, p'))
      else polls ts p)"

section \<open>What is passed on\<close>

lemma poll_note_simps [simp]:
  "lastHeight (poll_note t p) = bt_height t"
  "lastPrevBlockHash (poll_note t p) = bt_previousBlockHash t"
  "lastPrevPrevBlockHash (poll_note t p) =
     (if lastHeight p = bt_height t - 1 then lastPrevBlockHash p else hash256_zero)"
  by (simp_all add: poll_note_def Let_def)

lemma polls_heights:
  "polls ts p = (passed, p') \<Longrightarrow>
   distinct_adj (lastHeight p # map bt_height passed) \<and> lastHeight p' = last (lastHeight p # map bt_height passed)"
proof (induction ts arbitrary: p passed)
  case (Cons t ts)
  show ?case
  proof (cases "poll_update t p")
    case True
    then obtain rest where "polls ts (poll_note t p) = (rest, p')" "passed = t # rest"
      using Cons.prems by (auto split: prod.splits)
    with Cons.IH [OF this(1)] True show ?thesis by (auto simp: poll_update_def split: if_splits)
  qed (use Cons in simp)
qed simp

text \<open>
  Two nodes that are one block apart: once both blocks have been seen, the slower node's template is
  never passed on again, nor is the faster one's.
\<close>

definition follows :: "block_template \<Rightarrow> block_template \<Rightarrow> bool" where
  "follows b a \<longleftrightarrow> bt_height b = bt_height a + 1"

lemma settled:
  assumes "lastHeight p = bt_height b" "lastPrevPrevBlockHash p = bt_previousBlockHash a"
    and "follows b a" "wf_hash (bt_previousBlockHash a)" "set ts \<subseteq> {a, b}"
  shows "polls ts p = ([], p)"
  using assms(5)
proof (induction ts)
  case (Cons t ts)
  have "bt_height a = bt_height b - 1" using assms(3) by (simp add: follows_def)
  moreover have "hash256_eq h h" if "wf_hash h" for h
    using that by (metis hash256_order)
  ultimately have "\<not> poll_update t p"
    using Cons.prems assms by (auto simp: poll_update_def)
  with Cons show ?case by simp
qed simp

lemma lagging_node_ignored:
  assumes "poll_update a p" "follows b a" "wf_hash (bt_previousBlockHash a)" "set ts \<subseteq> {a, b}"
  shows "fst (polls (a # b # ts) p) = [a, b]"
proof -
  let ?q = "poll_note b (poll_note a p)"
  have ne: "bt_height b \<noteq> bt_height a" using assms(2) by (simp add: follows_def)
  have "bt_height b \<noteq> bt_height a - 1"
    using assms(2) by (simp add: follows_def)
  then have "poll_update b (poll_note a p)" using ne by (auto simp: poll_update_def)
  moreover have "polls ts ?q = ([], ?q)"
    by (rule settled [OF _ _ assms(2-4)]) (use assms(2) in \<open>simp_all add: follows_def\<close>)
  ultimately show ?thesis using assms(1) by (simp del: poll_note_simps)
qed

lemma poll_passes_on:
  assumes "get_block_template (dm_rpc d) = (Inr t, r)" "dm_stratum d = Some sv"
  shows "poll sha256d now d =
    (if poll_update t (dm_poller d)
     then (Inr (), d\<lparr>dm_rpc := r, dm_poller := poll_note t (dm_poller d),
            dm_stratum := Some (sv\<lparr>sv_information := generation_information_new sha256d (template_network_state now t)\<rparr>)\<rparr>)
     else (Inr (), d\<lparr>dm_rpc := r\<rparr>))"
  using assms by (simp add: poll_def update_stratum_server_def server_update_network_state_def Let_def)

end
