(* ===== verification/P2P.thy ===== *)
theory P2P
  imports Sockets Coinbase
begin

text \<open>
  The peer-to-peer protocol of the full nodes (\<open>lib/bitcoinp2p\<close>): messages, their header and
  checksum on the wire, the receiving loop, and the handshake. The clock and the nonces drawn
  from the random source are parameters.
\<close>

section \<open>Messages\<close>

datatype p2p_type = INVALID | VERSION | VERACK | PING | PONG | GETADDR | ADDR

definition command_names :: "(p2p_type \<times> string) list" where
  "command_names =
     [(INVALID, ''''), (VERSION, ''version''), (VERACK, ''verack''), (PING, ''ping''), (PONG, ''pong''),
      (GETADDR, ''getaddr''), (ADDR, ''addr'')]"

definition identify_cmd :: "string \<Rightarrow> p2p_type" where
  "identify_cmd cmd = (case find (\<lambda>(_, entry). cmd = entry) command_names of Some (t, _) \<Rightarrow> t | None \<Rightarrow> INVALID)"

definition get_cmd_name :: "p2p_type \<Rightarrow> string" where
  "get_cmd_name t = the (map_of command_names t)"

record p2p_message =
  pm_type :: p2p_type
  pm_cmd :: string
  pm_payload :: bytes

definition p2p_message_of :: "string \<Rightarrow> bytes \<Rightarrow> p2p_message" where
  "p2p_message_of cmd payload = \<lparr>pm_type = identify_cmd cmd, pm_cmd = cmd, pm_payload = payload\<rparr>"

definition p2p_message_typed :: "p2p_type \<Rightarrow> p2p_message" where
  "p2p_message_typed t = \<lparr>pm_type = t, pm_cmd = '''', pm_payload = []\<rparr>"

definition message_cmd :: "p2p_message \<Rightarrow> string" where
  "message_cmd m = (if pm_type m \<noteq> INVALID then get_cmd_name (pm_type m) else pm_cmd m)"

definition verack_message :: p2p_message where "verack_message = p2p_message_typed VERACK"
definition getaddr_message :: p2p_message where "getaddr_message = p2p_message_typed GETADDR"

definition pong_message :: "u64 \<Rightarrow> p2p_type \<Rightarrow> p2p_message" where
  "pong_message nonce t = (p2p_message_typed t)\<lparr>pm_payload := append_ref [] (u64_mem nonce)\<rparr>"

text \<open>
  The struct of the version message with the padding of the ABI: 112 bytes, of which the version,
  the time stamp and the relay flag are set.
\<close>

definition version_message :: "u64 \<Rightarrow> u32 \<Rightarrow> p2p_message" where
  "version_message now protocolVersion =
     (let msg = replicate 112 0;
          msg = store_loop 104 4 (\<lambda>i. u32_mem 1 ! i) msg;
          msg = store_loop 16 8 (\<lambda>i. u64_mem now ! i) msg;
          msg = store_loop 0 4 (\<lambda>i. u32_mem protocolVersion ! i) msg
      in (p2p_message_typed VERSION)\<lparr>pm_payload := append_ref [] msg\<rparr>)"

definition message_nonce :: "p2p_message \<Rightarrow> u64 res" where
  "message_nonce m =
     (if length (pm_payload m) \<noteq> 8
      then Inl (Runtime_error ''P2P Error: Received invalid length for ping/pong packet'')
      else Inr (mem_u64 (pm_payload m)))"

definition p2p_parse :: "p2p_message \<Rightarrow> p2p_message res" where
  "p2p_parse m =
     (case pm_type m of
        VERSION \<Rightarrow> Inr m
      | PING \<Rightarrow> rbind (message_nonce m) (\<lambda>_. Inr m)
      | _ \<Rightarrow> Inr m)"

section \<open>The wire\<close>

record p2pheader =
  ph_magic :: u32
  ph_cmd :: bytes
  ph_payload_size :: u32
  ph_checksum :: bytes

definition p2pheader_mem :: "p2pheader \<Rightarrow> bytes" where
  "p2pheader_mem h = u32_mem (ph_magic h) @ ph_cmd h @ u32_mem (ph_payload_size h) @ ph_checksum h"

definition mem_p2pheader :: "bytes \<Rightarrow> p2pheader" where
  "mem_p2pheader raw =
     \<lparr>ph_magic = mem_u32 (take 4 raw), ph_cmd = take 12 (drop 4 raw),
      ph_payload_size = mem_u32 (take 4 (drop 16 raw)), ph_checksum = take 4 (drop 20 raw)\<rparr>"

text \<open>\<open>strcpy\<close> of a name into the twelve bytes, which are zero before.\<close>

definition copy_cmd :: "string \<Rightarrow> bytes res" where
  "copy_cmd cmd =
     (let text = takeWhile (\<lambda>b. b \<noteq> 0) (str_bytes cmd) in
      if length text < 12 then Inr (text @ replicate (12 - length text) 0)
      else Inl (Undefined ''header.cmd''))"

definition p2p_wire :: "u32 \<Rightarrow> hash_plugin \<Rightarrow> p2p_message \<Rightarrow> bytes res" where
  "p2p_wire magic sha256d m =
     rbind (copy_cmd (message_cmd m)) (\<lambda>cmd.
     rbind (sha256d (pm_payload m)) (\<lambda>checksum.
       Inr (p2pheader_mem
          \<lparr>ph_magic = magic, ph_cmd = cmd, ph_payload_size = word_of_nat (length (pm_payload m)),
           ph_checksum = take 4 (raw256 checksum)\<rparr> @ pm_payload m)))"

definition p2p_max_payload :: int where "p2p_max_payload = 32 * 1024 * 1024"

text \<open>The command of a header up to its first zero; without one the name runs on behind it.\<close>

definition header_cmd :: "p2pheader \<Rightarrow> string res" where
  "header_cmd hdr =
     (if 0 \<in> set (ph_cmd hdr) then Inr (bytes_str (takeWhile (\<lambda>b. b \<noteq> 0) (ph_cmd hdr)))
      else Inl (Undefined ''hdr.cmd''))"

definition p2p_packet_size :: "u32 \<Rightarrow> bytes \<Rightarrow> nat res" where
  "p2p_packet_size magic buffer =
     (let hdr = mem_p2pheader buffer in
      if ph_magic hdr \<noteq> magic then Inl (Runtime_error ''Invalid network magic received'')
      else if sint (ph_payload_size hdr) < 0 \<or> sint (ph_payload_size hdr) \<ge> p2p_max_payload
      then Inl (Runtime_error ''Invalid packet size'')
      else Inr (24 + unat (ph_payload_size hdr)))"

definition p2p_handle ::
  "hash_plugin \<Rightarrow> (p2p_message \<Rightarrow> ('s, unit) op) \<Rightarrow> bytes \<Rightarrow> ('s, unit) op" where
  "p2p_handle sha256d process packet =
     (let hdr = mem_p2pheader packet; payload = drop 24 packet in
      op_bind (op_lift (sha256d payload)) (\<lambda>checksum.
      if memcmp (raw256 checksum) (ph_checksum hdr) 4 \<noteq> 0
      then op_throw (Runtime_error ''Error in P2P connection: Checksum error'')
      else
        op_bind (op_lift (header_cmd hdr)) (\<lambda>cmd.
        op_bind (op_lift (p2p_parse (p2p_message_of cmd payload))) process)))"

text \<open>\<open>onReceive\<close>: the buffer is cut only after a message has been processed.\<close>

function p2p_loop ::
  "u32 \<Rightarrow> hash_plugin \<Rightarrow> (p2p_message \<Rightarrow> ('s, unit) op) \<Rightarrow> bytes \<Rightarrow> 's \<Rightarrow> unit res \<times> bytes \<times> 's" where
  "p2p_loop magic sha256d process buffer s =
     (if length buffer < 24 then (Inr (), buffer, s)
      else (case p2p_packet_size magic buffer of
        Inl e \<Rightarrow> (Inl e, buffer, s)
      | Inr packet_size \<Rightarrow>
          if length buffer < packet_size then (Inr (), buffer, s)
          else (case p2p_handle sha256d process (take packet_size buffer) s of
            (Inl e, s') \<Rightarrow> (Inl e, buffer, s')
          | (Inr _, s') \<Rightarrow>
              if length buffer = packet_size then (Inr (), [], s')
              else p2p_loop magic sha256d process (drop packet_size buffer) s')))"
  by pat_completeness auto
termination
  by (relation "measure (\<lambda>(_, _, _, buffer, _). length buffer)")
    (auto simp: p2p_packet_size_def Let_def split: if_splits)

declare p2p_loop.simps [simp del]

definition p2p_on_receive ::
  "u32 \<Rightarrow> hash_plugin \<Rightarrow> (p2p_message \<Rightarrow> ('s, unit) op) \<Rightarrow> bytes \<Rightarrow> bytes \<Rightarrow> 's \<Rightarrow> unit res \<times> bytes \<times> 's" where
  "p2p_on_receive magic sha256d process packet buffer s =
     p2p_loop magic sha256d process (append_ref buffer packet) s"

section \<open>Random numbers\<close>

text \<open>
  \<open>SystemRandom\<close>: the state is what reading \<open>/dev/urandom\<close> will give before it fails. The overload for
  an array of \<open>n\<close> elements multiplies the size of the whole array by \<open>n\<close> once more.
\<close>

definition system_random_new :: "bytes option \<Rightarrow> bytes res" where
  "system_random_new opened =
     (case opened of None \<Rightarrow> Inl (Runtime_error ''Error opening /dev/urandom'') | Some urandom \<Rightarrow> Inr urandom)"

definition random_fill :: "nat \<Rightarrow> (bytes, bytes) op" where
  "random_fill count urandom =
     (if length urandom < count then (Inl (Runtime_error ''Error reading from /dev/urandom''), [])
      else (Inr (take count urandom), drop count urandom))"

definition random_fill_array :: "nat \<Rightarrow> nat \<Rightarrow> (bytes, bytes) op" where
  "random_fill_array element n urandom =
     (let data = element * n in
      if data < data * n then (Inl (Undefined ''write behind the array''), urandom)
      else random_fill (data * n) urandom)"

definition random_get :: "nat \<Rightarrow> (bytes, bytes) op" where
  "random_get count = random_fill count"

lemma random_fill_gives:
  "random_fill count urandom = (Inr bs, rest) \<longleftrightarrow> length bs = count \<and> urandom = bs @ rest"
  by (auto simp: random_fill_def)

lemma random_fill_array_overruns:
  "0 < element \<Longrightarrow> 1 < n \<Longrightarrow> fst (random_fill_array element n urandom) = Inl (Undefined ''write behind the array'')"
  by (simp add: random_fill_array_def Let_def)

section \<open>A connection to a node\<close>

record p2p_connection =
  pc_host :: string
  pc_port :: u16
  pc_magic :: u32
  pc_sha256d :: hash_plugin
  pc_random :: "nat \<Rightarrow> u64"
  pc_drawn :: nat
  pc_connected :: bool
  pc_sent :: "bytes list"

definition p2p_send :: "p2p_message \<Rightarrow> (p2p_connection, unit) op" where
  "p2p_send m c =
     (case p2p_wire (pc_magic c) (pc_sha256d c) m of
        Inl e \<Rightarrow> (Inl e, c)
      | Inr wire \<Rightarrow> (Inr (), c\<lparr>pc_sent := pc_sent c @ [wire]\<rparr>))"

text \<open>The nonces: eight bytes each, in the order they are drawn.\<close>

definition draw_nonce :: "(p2p_connection, u64) op" where
  "draw_nonce c = (Inr (pc_random c (pc_drawn c)), c\<lparr>pc_drawn := pc_drawn c + 1\<rparr>)"

definition send_version :: "u64 \<Rightarrow> (p2p_connection, unit) op" where
  "send_version now = p2p_send (version_message now 70016)"

text \<open>The first four bytes at the magic's address; a shorter one is read past its end.\<close>

definition p2p_connect ::
  "hash_plugin \<Rightarrow> (nat \<Rightarrow> u64) \<Rightarrow> u64 \<Rightarrow> bool \<Rightarrow> string \<Rightarrow> u16 \<Rightarrow> bytes \<Rightarrow> p2p_connection res" where
  "p2p_connect sha256d random now receiverRunning host port magic =
     (if length magic < 4 then Inl (Undefined ''magic'')
      else if \<not> receiverRunning then Inl (Runtime_error ''Failed to start P2P socket receiver'')
      else
        let c = \<lparr>pc_host = host, pc_port = port, pc_magic = mem_u32 (take 4 magic), pc_sha256d = sha256d,
                 pc_random = random, pc_drawn = 0, pc_connected = False, pc_sent = []\<rparr>
        in case send_version now c of (Inl e, _) \<Rightarrow> Inl e | (Inr _, c') \<Rightarrow> Inr c')"

text \<open>\<open>as\<close> is checked by the type, which \<open>parse\<close> gives the classes with it.\<close>

definition p2p_as :: "p2p_type \<Rightarrow> p2p_message \<Rightarrow> p2p_message res" where
  "p2p_as t m = (if pm_type m \<noteq> t then Inl (Runtime_error ''Invalid P2P message conversion'') else Inr m)"

text \<open>\<open>handshakeComplete\<close> is the override of the derived class.\<close>

definition p2p_process_message ::
  "(p2p_connection, unit) op \<Rightarrow> p2p_message \<Rightarrow> (p2p_connection, unit) op" where
  "p2p_process_message handshakeComplete m =
     (case pm_type m of
        VERSION \<Rightarrow> p2p_send verack_message
      | VERACK \<Rightarrow> handshakeComplete
      | PING \<Rightarrow>
          op_bind (op_lift (rbind (p2p_as PING m) message_nonce)) (\<lambda>nonce.
          op_bind (p2p_send (pong_message nonce PONG)) (\<lambda>_.
          op_bind draw_nonce (\<lambda>own. p2p_send (pong_message own PING))))
      | _ \<Rightarrow> op_return ())"

section \<open>What is sent is received\<close>

lemma length_p2pheader_mem [simp]:
  "length (ph_cmd h) = 12 \<Longrightarrow> length (ph_checksum h) = 4 \<Longrightarrow> length (p2pheader_mem h) = 24"
  by (simp add: p2pheader_mem_def)

lemma mem_p2pheader_mem:
  "length (ph_cmd h) = 12 \<Longrightarrow> length (ph_checksum h) = 4 \<Longrightarrow> mem_p2pheader (p2pheader_mem h @ rest) = h"
  by (simp add: mem_p2pheader_def p2pheader_mem_def mem_u32_u32_mem)

lemma mem_p2pheader_append: "24 \<le> length raw \<Longrightarrow> mem_p2pheader (raw @ rest) = mem_p2pheader raw"
  by (simp add: mem_p2pheader_def)

lemma identify_cmd_name: "t \<noteq> INVALID \<Longrightarrow> identify_cmd (get_cmd_name t) = t"
  by (cases t) (simp_all add: identify_cmd_def get_cmd_name_def command_names_def)

lemma zero_in_str_bytes: "0 \<in> set (str_bytes s) \<longleftrightarrow> char_of (0 :: nat) \<in> set s"
proof -
  have "byte_of_char c = 0 \<longleftrightarrow> c = char_of (0 :: nat)" for c
    by (metis byte_of_char_of_byte char_of_byte_of_char char_of_byte_def unsigned_0)
  then show ?thesis by (force simp: str_bytes_def)
qed

lemma cmd_name_short: "length (get_cmd_name t) < 12"
  and cmd_name_text: "0 \<notin> set (str_bytes (get_cmd_name t))"
  by (cases t; simp add: zero_in_str_bytes get_cmd_name_def command_names_def char_of_def)+

lemma takeWhile_cmd: "takeWhile (\<lambda>b. b \<noteq> 0) (str_bytes (get_cmd_name t) @ replicate n 0) = str_bytes (get_cmd_name t)"
proof -
  have "\<forall>b \<in> set (str_bytes (get_cmd_name t)). b \<noteq> 0" using cmd_name_text [of t] by metis
  then show ?thesis by (cases n) (simp_all add: takeWhile_append2)
qed

lemma copy_cmd_name:
  "copy_cmd (get_cmd_name t) = Inr (str_bytes (get_cmd_name t) @ replicate (12 - length (get_cmd_name t)) 0)"
proof -
  have tw: "takeWhile (\<lambda>b. b \<noteq> 0) (str_bytes (get_cmd_name t)) = str_bytes (get_cmd_name t)"
    using takeWhile_cmd [of t 0] unfolding replicate_0 append_Nil2 .
  show ?thesis using cmd_name_short [of t] by (simp only: copy_cmd_def Let_def tw length_str_bytes if_True)
qed

lemma payload_size_read:
  assumes "int n < p2p_max_payload"
  shows "unat (word_of_nat n :: u32) = n" and "sint (word_of_nat n :: u32) = int n"
proof -
  show n: "unat (word_of_nat n :: u32) = n"
    using assms by (intro unat_u32_small) (simp add: p2p_max_payload_def)
  then have "uint (word_of_nat n :: u32) = int n" by (simp only: uint_nat)
  then show "sint (word_of_nat n :: u32) = int n"
    using assms unfolding sint_uint by (simp add: p2p_max_payload_def signed_take_bit_int_eq_self)
qed

lemma memcmp_take_self: "memcmp xs (take n xs) n = 0"
proof (induction xs arbitrary: n)
  case (Cons x xs)
  then show ?case by (cases n) simp_all
qed simp

text \<open>The receiver's view of a message: its name comes from the wire.\<close>

definition named :: "p2p_message \<Rightarrow> p2p_message" where
  "named m = m\<lparr>pm_cmd := get_cmd_name (pm_type m)\<rparr>"

lemma p2p_wire_read:
  assumes "pm_type m \<noteq> INVALID" "int (length (pm_payload m)) < p2p_max_payload"
    and "sha256d = (\<lambda>d. Inr (h d))" "hasher_ok h" "pm_type m = PING \<longrightarrow> length (pm_payload m) = 8"
  shows "\<exists>wire. p2p_wire magic sha256d m = Inr wire \<and> length wire = 24 + length (pm_payload m) \<and>
    p2p_packet_size magic (wire @ rest) = Inr (length wire) \<and>
    p2p_handle sha256d process wire s = process (named m) s"
proof -
  define cmd where "cmd = str_bytes (get_cmd_name (pm_type m)) @ replicate (12 - length (get_cmd_name (pm_type m))) 0"
  define hdr where "hdr = \<lparr>ph_magic = magic, ph_cmd = cmd, ph_payload_size = word_of_nat (length (pm_payload m)),
     ph_checksum = take 4 (raw256 (h (pm_payload m)))\<rparr>"
  have h: "length (raw256 (h d)) = 32" for d
    using assms(4) by (simp add: hasher_ok_def wf_hash_def)
  have cmd: "length cmd = 12" using cmd_name_short [of "pm_type m"] by (simp add: cmd_def)
  have len: "length (ph_cmd hdr) = 12" "length (ph_checksum hdr) = 4" by (simp_all add: hdr_def cmd h)
  let ?wire = "p2pheader_mem hdr @ pm_payload m"
  have wire: "p2p_wire magic sha256d m = Inr ?wire"
    using assms(1,3) by (simp add: p2p_wire_def message_cmd_def copy_cmd_name hdr_def cmd_def)
  have size: "p2p_packet_size magic (?wire @ rest) = Inr (length ?wire)"
    using payload_size_read [OF assms(2)] assms(2)
    by (simp add: p2p_packet_size_def Let_def mem_p2pheader_mem [OF len] len) (simp add: hdr_def)
  have zero: "0 \<in> set (ph_cmd hdr)"
    using cmd_name_short [of "pm_type m"] by (simp add: hdr_def cmd_def)
  have name: "header_cmd hdr = Inr (get_cmd_name (pm_type m))"
    unfolding header_cmd_def if_P [OF zero] by (simp add: hdr_def cmd_def takeWhile_cmd)
  have "memcmp (raw256 (h (pm_payload m))) (ph_checksum hdr) 4 = 0"
    by (simp add: hdr_def memcmp_take_self)
  moreover have "p2p_parse (p2p_message_of (get_cmd_name (pm_type m)) (pm_payload m)) = Inr (named m)"
    using assms(1,5)
    by (simp add: p2p_parse_def p2p_message_of_def named_def identify_cmd_name message_nonce_def
        split: p2p_type.split)
  ultimately have "p2p_handle sha256d process ?wire s = process (named m) s"
    by (simp add: p2p_handle_def Let_def mem_p2pheader_mem [OF len] len name assms(3))
  with wire size len show ?thesis by (intro exI [of _ ?wire]) simp
qed

section \<open>The loop as a framing\<close>

definition p2p_stream_size :: "u32 \<Rightarrow> bytes \<Rightarrow> nat res" where
  "p2p_stream_size magic buffer =
     (if length buffer < 24 then Inr 0
      else rbind (p2p_packet_size magic buffer) (\<lambda>n. if length buffer < n then Inr 0 else Inr n))"

lemma p2p_packet_size_append:
  "24 \<le> length buffer \<Longrightarrow> p2p_packet_size magic (buffer @ later) = p2p_packet_size magic buffer"
  by (simp add: p2p_packet_size_def mem_p2pheader_append)

lemma p2p_packet_size_pos: "p2p_packet_size magic buffer = Inr n \<Longrightarrow> 24 \<le> n"
  by (auto simp: p2p_packet_size_def Let_def split: if_splits)

lemma p2p_stream_size_Inr:
  "p2p_stream_size magic buffer = Inr n \<Longrightarrow>
   n = 0 \<or> 24 \<le> length buffer \<and> n \<le> length buffer \<and> p2p_packet_size magic buffer = Inr n"
  by (cases "p2p_packet_size magic buffer") (auto simp: p2p_stream_size_def split: if_splits)

lemma p2p_loop_Nil [simp]: "p2p_loop magic sha256d process [] s = (Inr (), [], s)"
  by (subst p2p_loop.simps) simp

interpretation p2p_framing: framing "p2p_stream_size magic" for magic
proof (unfold_locales, goal_cases)
  case (1 buffer n)
  then show ?case using p2p_stream_size_Inr by fastforce
next
  case (2 buffer n later)
  then show ?case using p2p_stream_size_Inr [OF 2(1)]
    by (simp add: p2p_stream_size_def p2p_packet_size_append)
next
  case (3 buffer e later)
  then show ?case
    by (cases "p2p_packet_size magic buffer")
      (auto simp: p2p_stream_size_def p2p_packet_size_append split: if_splits)
qed

lemma drain_empty [simp]: "drain (p2p_stream_size magic) handle [] s = (Inr (), [], s)"
  by (simp add: drain.simps p2p_stream_size_def)

lemma p2p_loop_drain:
  "p2p_loop magic sha256d process buffer s = (Inr (), rest, s') \<longleftrightarrow>
   drain (p2p_stream_size magic) (p2p_handle sha256d process) buffer s = (Inr (), rest, s')"
proof (induction "length buffer" arbitrary: buffer s rule: less_induct)
  case less
  note unfold = p2p_loop.simps [of _ _ _ buffer] drain.simps [of _ _ buffer] p2p_stream_size_def [of _ buffer]
  show ?case
  proof (cases "24 \<le> length buffer")
    case True
    show ?thesis
    proof (cases "p2p_packet_size magic buffer")
      case (Inl e)
      with True show ?thesis by (simp add: unfold)
    next
      case (Inr n)
      have n: "24 \<le> n" by (rule p2p_packet_size_pos [OF Inr])
      obtain r t where run: "p2p_handle sha256d process (take n buffer) s = (r, t)" by fastforce
      have "p2p_loop magic sha256d process (drop n buffer) t = (Inr (), rest, s') \<longleftrightarrow>
          drain (p2p_stream_size magic) (p2p_handle sha256d process) (drop n buffer) t = (Inr (), rest, s')"
        using True n by (intro less) simp
      with True Inr n run show ?thesis
        by (cases r) (auto simp: unfold Let_def)
    qed
  qed (simp add: unfold)
qed

fun p2p_receive_all ::
  "u32 \<Rightarrow> hash_plugin \<Rightarrow> (p2p_message \<Rightarrow> ('s, unit) op) \<Rightarrow> bytes list \<Rightarrow> bytes \<Rightarrow> 's \<Rightarrow> unit res \<times> bytes \<times> 's" where
  "p2p_receive_all magic sha256d process [] buffer s = (Inr (), buffer, s)"
| "p2p_receive_all magic sha256d process (packet # packets) buffer s =
     (case p2p_on_receive magic sha256d process packet buffer s of
        (Inl e, buffer', s') \<Rightarrow> (Inl e, buffer', s')
      | (Inr _, buffer', s') \<Rightarrow> p2p_receive_all magic sha256d process packets buffer' s')"

lemma p2p_receive_all_feed:
  "p2p_receive_all magic sha256d process packets buffer s = (Inr (), rest, s') \<longleftrightarrow>
   feed (p2p_stream_size magic) (p2p_handle sha256d process) packets buffer s = (Inr (), rest, s')"
proof (induction packets arbitrary: buffer s)
  case (Cons p ps)
  let ?feed = "process_packet (p2p_stream_size magic) (p2p_handle sha256d process) p buffer s"
  let ?receive = "p2p_on_receive magic sha256d process p buffer s"
  have step: "?receive = (Inr (), b, t) \<longleftrightarrow> ?feed = (Inr (), b, t)" for b t
    by (simp add: p2p_on_receive_def p2p_loop_drain process_packet_def)
  obtain r1 b1 t1 r2 b2 t2 where f: "?feed = (r1, b1, t1)" and g: "?receive = (r2, b2, t2)"
    by (metis prod_cases3)
  show ?case
  proof (cases r1)
    case (Inr u)
    with f step have "?receive = (Inr (), b1, t1)" by simp
    with f Inr Cons show ?thesis by simp
  next
    case (Inl e1)
    with f g step [of b2 t2] obtain e2 where "r2 = Inl e2" by (cases r2) simp_all
    with f g Inl show ?thesis by simp
  qed
qed simp

lemma p2p_chunking:
  "p2p_receive_all magic sha256d process packets [] s = (Inr (), rest, s') \<longleftrightarrow>
   p2p_on_receive magic sha256d process (concat packets) [] s = (Inr (), rest, s')"
proof -
  have "p2p_stream_size magic [] = Inr 0" by (simp add: p2p_stream_size_def)
  from p2p_framing.feed_iff [OF this] show ?thesis
    by (simp add: p2p_receive_all_feed p2p_on_receive_def p2p_loop_drain process_packet_def)
qed

text \<open>Messages that were sent are processed by the receiver, in order, however the stream is cut.\<close>

definition sendable :: "p2p_message \<Rightarrow> bool" where
  "sendable m \<longleftrightarrow> pm_type m \<noteq> INVALID \<and> int (length (pm_payload m)) < p2p_max_payload \<and>
     (pm_type m = PING \<longrightarrow> length (pm_payload m) = 8)"

lemma p2p_delivers:
  assumes "hasher_ok h" "\<forall>m \<in> set ms. sendable m"
    and "rmap (p2p_wire magic (\<lambda>d. Inr (h d))) ms = Inr wires" "concat packets = concat wires"
    and "process_all process (map named ms) s = (Inr (), s')"
  shows "p2p_receive_all magic (\<lambda>d. Inr (h d)) process packets [] s = (Inr (), [], s')"
proof -
  let ?handle = "p2p_handle (\<lambda>d. Inr (h d)) process"
  have one: "w \<noteq> [] \<and> p2p_stream_size magic w = Inr (length w) \<and> (\<forall>t. ?handle w t = process (named m) t)"
    if "p2p_wire magic (\<lambda>d. Inr (h d)) m = Inr w" "sendable m" for m w
  proof -
    from that(2) have m: "pm_type m \<noteq> INVALID" "int (length (pm_payload m)) < p2p_max_payload"
      "pm_type m = PING \<longrightarrow> length (pm_payload m) = 8" by (simp_all add: sendable_def)
    have "length w = 24 + length (pm_payload m) \<and> p2p_packet_size magic w = Inr (length w) \<and>
        ?handle w t = process (named m) t" for t
      using p2p_wire_read [where magic = magic and rest = "[]" and process = process and s = t,
          OF m(1,2) refl assms(1) m(3)] that(1) by auto
    then show ?thesis by (auto simp: p2p_stream_size_def)
  qed
  have "(\<forall>w \<in> set wires. w \<noteq> [] \<and> p2p_stream_size magic w = Inr (length w)) \<and>
      (\<forall>t. process_all ?handle wires t = process_all process (map named ms) t)"
    using assms(2,3)
  proof (induction ms arbitrary: wires)
    case (Cons m ms)
    then obtain w ws where "p2p_wire magic (\<lambda>d. Inr (h d)) m = Inr w" "wires = w # ws"
      "rmap (p2p_wire magic (\<lambda>d. Inr (h d))) ms = Inr ws" by (auto simp: rbind_eq_Inr)
    with Cons.IH [of ws] Cons.prems(1) one [of m w] show ?case
      by (auto simp: op_bind_def split: prod.split sum.split)
  qed simp
  moreover have "p2p_stream_size magic [] = Inr 0" by (simp add: p2p_stream_size_def)
  ultimately show ?thesis
    unfolding p2p_receive_all_feed using assms(4,5) by (intro p2p_framing.feed_messages) auto
qed

text \<open>Every message that can be sent has bytes on the wire.\<close>

lemma p2p_wires:
  assumes "hasher_ok h" "\<forall>m \<in> set ms. sendable m"
  shows "\<exists>wires. rmap (p2p_wire magic (\<lambda>d. Inr (h d))) ms = Inr wires"
  using assms(2)
proof (induction ms)
  case (Cons m ms)
  then have m: "pm_type m \<noteq> INVALID" "int (length (pm_payload m)) < p2p_max_payload"
    "pm_type m = PING \<longrightarrow> length (pm_payload m) = 8" by (simp_all add: sendable_def)
  obtain w where "p2p_wire magic (\<lambda>d. Inr (h d)) m = Inr w"
    using p2p_wire_read [where magic = magic and rest = "[]" and process = "\<lambda>_ s. (Inr (), s)" and s = "()",
        OF m(1,2) refl assms(1) m(3)] by blast
  with Cons show ?case by auto
qed simp

end
