(* ===== verification/Crawler.thy ===== *)
theory Crawler
  imports P2P
begin

text \<open>
  The crawler (\<open>utils/crawler\<close>): a connection to each node that was heard of. A node's list of
  addresses is put into a queue, entry by entry; four workers take addresses out of it, add a
  holder for each new one to a vector under a lock, and connect outside the lock.
\<close>

section \<open>Address lists\<close>

type_synonym node_event = "string \<times> u16"

definition add_node :: "string \<Rightarrow> u16 \<Rightarrow> node_event queue \<Rightarrow> node_event queue" where
  "add_node host port q = queue_push (host, port) q"

definition ipv4_prefix :: bytes where
  "ipv4_prefix = replicate 10 0 @ [0xff, 0xff]"

definition host_of_ip :: "bytes \<Rightarrow> string" where
  "host_of_ip ip =
     (if memcmp ip ipv4_prefix 12 = 0
      then dec_string (unat (ip ! 12)) @ ''.'' @ dec_string (unat (ip ! 13)) @ ''.'' @
           dec_string (unat (ip ! 14)) @ ''.'' @ dec_string (unat (ip ! 15))
      else as_hex_pretty (take 16 ip) ''['' '']'' 2 (CHR '':''))"

text \<open>
  One turn of the loop over the payload. The last byte it reads is at \<open>idx + 29\<close>, before the node is
  added.
\<close>

definition addr_entry :: "bytes \<Rightarrow> nat \<Rightarrow> node_event res" where
  "addr_entry payload idx =
     (if length payload \<le> idx + 29 then Inl (Undefined ''payload()[idx+29]'')
      else
        let ip = drop (idx + 12) payload;
            port = ucast (payload ! (idx + 28)) * 0x100 OR ucast (payload ! (idx + 29))
        in Inr (host_of_ip ip, port))"

function addr_loop :: "bytes \<Rightarrow> nat \<Rightarrow> (node_event queue, unit) op" where
  "addr_loop payload idx q =
     (if idx < length payload
      then (case addr_entry payload idx of
              Inl e \<Rightarrow> (Inl e, q)
            | Inr (host, port) \<Rightarrow> addr_loop payload (idx + 30) (add_node host port q))
      else (Inr (), q))"
  by pat_completeness auto
termination
  by (relation "measure (\<lambda>(payload, idx, q). length payload - idx)")
    (auto simp: addr_entry_def split: if_splits)

declare addr_loop.simps [simp del]

section \<open>A node\<close>

record crawler_node =
  cn_connection :: p2p_connection
  cn_parentQueue :: "node_event queue"

definition on_connection :: "(p2p_connection, 'a) op \<Rightarrow> (crawler_node, 'a) op" where
  "on_connection m n =
     (case m (cn_connection n) of (r, c) \<Rightarrow> (r, n\<lparr>cn_connection := c\<rparr>))"

definition handshake_complete :: "(p2p_connection, unit) op" where
  "handshake_complete = op_bind (op_set (\<lambda>c. c\<lparr>pc_connected := True\<rparr>)) (\<lambda>_. p2p_send getaddr_message)"

definition node_process_message :: "p2p_message \<Rightarrow> (crawler_node, unit) op" where
  "node_process_message m =
     op_bind (on_connection (p2p_process_message handshake_complete m)) (\<lambda>_ n.
       case pm_type m of
         ADDR \<Rightarrow> (case addr_loop (pm_payload m) 1 (cn_parentQueue n) of
                    (r, q) \<Rightarrow> (r, n\<lparr>cn_parentQueue := q\<rparr>))
       | _ \<Rightarrow> (Inr (), n))"

section \<open>The vector of connections\<close>

record holder =
  ho_host :: string
  ho_port :: u16
  ho_connection :: "p2p_connection option"

definition holder_new :: "string \<Rightarrow> u16 \<Rightarrow> holder" where
  [simp]: "holder_new host port = \<lparr>ho_host = host, ho_port = port, ho_connection = None\<rparr>"

text \<open>
  A vector: its elements, its capacity and the block of memory they are in. When it is full,
  \<open>emplace_back\<close> moves the elements to a new block (of a capacity the library chooses) and frees the
  old one, so a pointer is a block and an index, and valid as long as the block is the vector's.
\<close>

record node_vector =
  nv_block :: nat
  nv_capacity :: nat
  nv_nodes :: "holder list"

definition node_vector_new :: node_vector where
  "node_vector_new = \<lparr>nv_block = 0, nv_capacity = 0, nv_nodes = []\<rparr>"

type_synonym holder_pointer = "nat \<times> nat"

definition emplace_back :: "(nat \<Rightarrow> nat) \<Rightarrow> holder \<Rightarrow> node_vector \<Rightarrow> node_vector" where
  "emplace_back grow h v =
     (let v = (if length (nv_nodes v) < nv_capacity v then v
               else v\<lparr>nv_block := nv_block v + 1, nv_capacity := grow (nv_capacity v)\<rparr>)
      in v\<lparr>nv_nodes := nv_nodes v @ [h]\<rparr>)"

definition contains_node :: "string \<Rightarrow> u16 \<Rightarrow> node_vector \<Rightarrow> bool" where
  "contains_node host port v = list_ex (\<lambda>h. ho_host h = host \<and> ho_port h = port) (nv_nodes v)"

definition add_connection :: "(nat \<Rightarrow> nat) \<Rightarrow> string \<Rightarrow> u16 \<Rightarrow> node_vector \<Rightarrow> holder_pointer \<times> node_vector" where
  "add_connection grow host port v =
     (let v' = emplace_back grow (holder_new host port) v
      in ((nv_block v', length (nv_nodes v') - 1), v'))"

text \<open>\<open>processAddNodeEvent\<close>: the part under the lock, and the connect after it.\<close>

definition reserve_node :: "(nat \<Rightarrow> nat) \<Rightarrow> node_event \<Rightarrow> node_vector \<Rightarrow> holder_pointer option \<times> node_vector" where
  "reserve_node grow event v =
     (if contains_node (fst event) (snd event) v then (None, v)
      else case add_connection grow (fst event) (snd event) v of (p, v') \<Rightarrow> (Some p, v'))"

definition holder_connect :: "(string \<Rightarrow> u16 \<Rightarrow> p2p_connection res) \<Rightarrow> holder_pointer \<Rightarrow> (node_vector, unit) op" where
  "holder_connect connect p v =
     (if fst p \<noteq> nv_block v \<or> length (nv_nodes v) \<le> snd p then (Inl (Undefined ''dangling holder''), v)
      else
        let h = nv_nodes v ! snd p in
        case connect (ho_host h) (ho_port h) of
          Inl e \<Rightarrow> (Inl e, v)
        | Inr c \<Rightarrow> (Inr (), v\<lparr>nv_nodes := (nv_nodes v)[snd p := h\<lparr>ho_connection := Some c\<rparr>]\<rparr>))"

definition process_add_node_event ::
  "(nat \<Rightarrow> nat) \<Rightarrow> (string \<Rightarrow> u16 \<Rightarrow> p2p_connection res) \<Rightarrow> node_event \<Rightarrow> (node_vector, unit) op" where
  "process_add_node_event grow connect event v =
     (case reserve_node grow event v of
        (None, v') \<Rightarrow> (Inr (), v')
      | (Some p, v') \<Rightarrow> holder_connect connect p v')"

definition holder_connected :: "holder \<Rightarrow> bool" where
  "holder_connected h = (case ho_connection h of None \<Rightarrow> False | Some c \<Rightarrow> pc_connected c)"

definition total_nodes :: "node_vector \<Rightarrow> nat" where "total_nodes v = length (nv_nodes v)"

definition connected_nodes :: "node_vector \<Rightarrow> nat" where
  "connected_nodes v = fold (\<lambda>h n. if holder_connected h then n + 1 else n) (nv_nodes v) 0"

definition get_node_list :: "bool \<Rightarrow> node_vector \<Rightarrow> string list" where
  "get_node_list includeUnavailable v =
     map (\<lambda>h. ho_host h @ '':'' @ dec_string (unat (ho_port h)))
       (filter (\<lambda>h. includeUnavailable \<or> holder_connected h) (nv_nodes v))"

section \<open>Reading an address list\<close>

text \<open>An entry on the wire: time, services, address and port.\<close>

record addr_record =
  ar_time :: u32
  ar_services :: u64
  ar_ip :: bytes
  ar_port :: u16

definition addr_mem :: "addr_record \<Rightarrow> bytes" where
  "addr_mem a = u32_mem (ar_time a) @ u64_mem (ar_services a) @ ar_ip a @ rev (u16_mem (ar_port a))"

definition addr_payload :: "addr_record list \<Rightarrow> bytes" where
  "addr_payload as = varint_encode (word_of_nat (length as)) @ concat (map addr_mem as)"

definition wf_addr :: "addr_record \<Rightarrow> bool" where "wf_addr a \<longleftrightarrow> length (ar_ip a) = 16"

definition addr_event :: "addr_record \<Rightarrow> node_event" where
  "addr_event a = (host_of_ip (ar_ip a), ar_port a)"

lemma length_addr_mem [simp]: "wf_addr a \<Longrightarrow> length (addr_mem a) = 30"
  by (simp add: addr_mem_def wf_addr_def)

lemma length_addr_mems: "list_all wf_addr as \<Longrightarrow> length (concat (map addr_mem as)) = 30 * length as"
  by (induction as) auto

lemma memcmp_append: "n \<le> length xs \<Longrightarrow> memcmp (xs @ zs) ys n = memcmp xs ys n"
  by (induction xs ys n rule: memcmp.induct) auto

lemma host_of_ip_append: "length ip = 16 \<Longrightarrow> host_of_ip (ip @ rest) = host_of_ip ip"
  by (simp add: host_of_ip_def memcmp_append nth_append)

lemma byte_of_u16: "(word_of_nat (unat (w :: u16) div 2 ^ k) :: u8) = ucast (drop_bit k w)"
proof -
  have "unat w div 2 ^ k = unat (drop_bit k w)"
    using take_bit_nat_eq_self [of "unat w" 16] unsigned_less [of w, where ?'a = nat]
    by (simp only: unsigned_drop_bit_eq) (simp add: drop_bit_eq_div)
  then show ?thesis by (simp only: of_nat_unat)
qed

lemma port_bits: "push_bit 8 (ucast (ucast (drop_bit 8 p) :: u8)) OR ucast (ucast p :: u8) = (p :: u16)"
  by (rule bit_word_eqI) (auto simp: bit_simps)

lemma port_read: "ucast (rev (u16_mem p) ! 0) * 0x100 OR ucast (rev (u16_mem p) ! Suc 0) = p"
proof -
  have mem: "rev (u16_mem p) = [ucast (drop_bit 8 p), ucast p]"
  proof -
    have "le_bytes (Suc (Suc 0)) v = [word_of_nat v, word_of_nat (v div 256)]" for v by simp
    then have "u16_mem p = [word_of_nat (unat p), word_of_nat (unat p div 256)]"
      unfolding u16_mem_def numeral_2_eq_2 by blast
    moreover have "(word_of_nat (unat p div 256) :: u8) = ucast (drop_bit 8 p)"
      using byte_of_u16 [of p 8] by simp
    ultimately show ?thesis by simp
  qed
  have shift: "x * 0x100 = push_bit 8 x" for x :: u16 by (simp add: push_bit_eq_mult)
  show ?thesis unfolding mem nth_Cons_0 nth_Cons_Suc shift by (rule port_bits)
qed

lemma addr_entry_mem:
  assumes "wf_addr a" "payload = front @ addr_mem a @ rest" "idx = length front"
  shows "addr_entry payload idx = Inr (addr_event a)"
proof -
  have ip: "length (ar_ip a) = 16" using assms(1) by (simp add: wf_addr_def)
  have ports: "rev (u16_mem (ar_port a)) = [rev (u16_mem (ar_port a)) ! 0, rev (u16_mem (ar_port a)) ! 1]"
    by (simp add: u16_mem_def numeral_2_eq_2)
  have "drop (idx + 12) payload = ar_ip a @ rev (u16_mem (ar_port a)) @ rest"
    using assms(2,3) by (simp add: addr_mem_def)
  moreover have "payload ! (idx + 28) = rev (u16_mem (ar_port a)) ! 0"
    using assms(2,3) ip by (simp add: addr_mem_def nth_append)
  moreover have "payload ! (idx + 29) = rev (u16_mem (ar_port a)) ! 1"
    using assms(2,3) ip by (simp add: addr_mem_def nth_append)
  moreover have "\<not> length payload \<le> idx + 29"
    using assms by simp
  ultimately show ?thesis
    by (simp add: addr_entry_def Let_def addr_event_def host_of_ip_append [OF ip] port_read)
qed

lemma addr_loop_records:
  assumes "list_all wf_addr as" "payload = front @ concat (map addr_mem as) @ rest"
  shows "addr_loop payload (length front) q =
    addr_loop payload (length front + 30 * length as) (foldl (\<lambda>q a. queue_push (addr_event a) q) q as)"
  using assms
proof (induction as arbitrary: front q)
  case (Cons a as)
  have entry: "addr_entry payload (length front) = Inr (addr_event a)"
    using Cons.prems by (intro addr_entry_mem [of a payload front "concat (map addr_mem as) @ rest"]) auto
  have "length front < length payload" using Cons.prems by simp
  then have "addr_loop payload (length front) q = addr_loop payload (length front + 30) (queue_push (addr_event a) q)"
    by (subst addr_loop.simps) (simp add: entry addr_event_def add_node_def)
  also have "\<dots> = addr_loop payload (length front + 30 + 30 * length as)
      (foldl (\<lambda>q a. queue_push (addr_event a) q) (queue_push (addr_event a) q) as)"
    using Cons.IH [of "front @ addr_mem a" "queue_push (addr_event a) q"] Cons.prems by simp
  finally show ?case by (simp add: algebra_simps)
qed simp

lemma foldl_queue_push:
  "q_items (foldl (\<lambda>q a. queue_push (f a) q) q as) = q_items q @ map f as"
  by (induction as arbitrary: q) (simp_all add: queue_push_def)

lemma unat_count: "n < 2 ^ 64 \<Longrightarrow> unat (word_of_nat n :: u64) = n"
  by (simp add: unat_of_nat)

lemma varint_encode_small: "n \<le> 252 \<Longrightarrow> varint_encode (word_of_nat n) = [word_of_nat n]"
proof -
  assume n: "n \<le> 252"
  then have "(word_of_nat n :: u64) < 0xfd" by (simp add: word_less_nat_alt unat_count)
  with n show ?thesis by (simp add: varint_encode_def take_u64_mem unat_count)
qed

lemma length_varint_large:
  assumes "252 < n" "n < 2 ^ 64"
  shows "length (varint_encode (word_of_nat n)) \<in> {3, 5, 9}"
proof -
  have "\<not> (word_of_nat n :: u64) < 0xfd" using assms by (simp add: word_less_nat_alt unat_count)
  then show ?thesis by (simp add: varint_encode_def push_byte_def)
qed

text \<open>When the loop stays inside the payload: whole entries of 30 bytes behind the start.\<close>

lemma addr_loop_returns:
  "fst (addr_loop payload idx q) = Inr () \<longleftrightarrow> length payload \<le> idx \<or> (length payload - idx) mod 30 = 0"
proof (induction payload idx q rule: addr_loop.induct)
  case (1 payload idx q)
  show ?case
  proof (cases "addr_entry payload idx")
    case (Inl e)
    then have "length payload - idx < 30" by (auto simp: addr_entry_def Let_def split: if_splits)
    with Inl show ?thesis by (subst addr_loop.simps) auto
  next
    case (Inr event)
    obtain host port where event: "event = (host, port)" by fastforce
    have len: "idx + 30 \<le> length payload"
      using Inr by (auto simp: addr_entry_def split: if_splits)
    have "length payload - idx = length payload - (idx + 30) + 30" using len by simp
    then have "(length payload - idx) mod 30 = (length payload - (idx + 30)) mod 30" by (metis mod_add_self2)
    moreover have "addr_loop payload idx q = addr_loop payload (idx + 30) (add_node host port q)"
      using len Inr event by (subst addr_loop.simps) simp
    ultimately show ?thesis using 1 [OF _ Inr event [symmetric]] len event by auto
  qed
qed

text \<open>A longer list has a count of three or more bytes, of which the loop skips one: it reads past the end.\<close>

lemma long_addr_list_overrun:
  assumes "list_all wf_addr as" "252 < length as" "length as < 2 ^ 64"
  shows "\<exists>e. fst (addr_loop (addr_payload as) 1 q) = Inl e"
proof -
  define k where "k = length (varint_encode (word_of_nat (length as)))"
  have k: "k \<in> {3, 5, 9}" unfolding k_def by (rule length_varint_large [OF assms(2,3)])
  have len: "length (addr_payload as) - 1 = (k - 1) + 30 * length as"
    using k by (auto simp: addr_payload_def length_addr_mems [OF assms(1)] k_def)
  have "(length (addr_payload as) - 1) mod 30 \<noteq> 0" unfolding len using k by auto
  moreover have "\<not> length (addr_payload as) \<le> 1" using len assms(2) by linarith
  moreover note addr_loop_returns [of "addr_payload as" 1 q]
  ultimately show ?thesis by (cases "fst (addr_loop (addr_payload as) 1 q)") simp_all
qed

text \<open>Up to 252 addresses have a count of one byte: every one of them is queued, in order.\<close>

lemma addr_list_read:
  assumes "list_all wf_addr as" "length as \<le> 252"
  shows "addr_loop (addr_payload as) 1 q = (Inr (), foldl (\<lambda>q a. queue_push (addr_event a) q) q as)"
proof -
  have "varint_encode (word_of_nat (length as)) = [word_of_nat (length as)]"
    using varint_encode_small [OF assms(2)] .
  then have payload: "addr_payload as = [word_of_nat (length as)] @ concat (map addr_mem as) @ []"
    by (simp add: addr_payload_def)
  have "length (addr_payload as) = 1 + 30 * length as"
    by (simp add: payload length_addr_mems [OF assms(1)])
  with addr_loop_records [OF assms(1) payload, of q] show ?thesis
    by (simp add: addr_loop.simps [of _ "Suc (30 * length as)"])
qed

lemma address_list_queued:
  assumes "list_all wf_addr as" "length as \<le> 252"
  shows "\<exists>q'. addr_loop (addr_payload as) 1 q = (Inr (), q') \<and>
    q_items q' = q_items q @ map (\<lambda>a. (host_of_ip (ar_ip a), ar_port a)) as"
  using addr_list_read [OF assms] by (simp add: foldl_queue_push addr_event_def [abs_def])

section \<open>The vector of nodes\<close>

definition node_address :: "holder \<Rightarrow> node_event" where "node_address h = (ho_host h, ho_port h)"

definition nodes_inv :: "node_vector \<Rightarrow> bool" where
  "nodes_inv v \<longleftrightarrow> distinct (map node_address (nv_nodes v))"

lemma contains_node_iff: "contains_node host port v \<longleftrightarrow> (host, port) \<in> node_address ` set (nv_nodes v)"
  by (auto simp: contains_node_def list_ex_iff node_address_def)

lemma reserve_node_nodes:
  "nv_nodes (snd (reserve_node grow event v)) =
     (if event \<in> node_address ` set (nv_nodes v) then nv_nodes v
      else nv_nodes v @ [\<lparr>ho_host = fst event, ho_port = snd event, ho_connection = None\<rparr>])"
  by (simp add: reserve_node_def contains_node_iff add_connection_def emplace_back_def Let_def)

lemma holder_connect_addresses:
  "map node_address (nv_nodes (snd (holder_connect connect p v))) = map node_address (nv_nodes v)"
proof -
  have "map node_address ((nv_nodes v)[i := h]) = map node_address (nv_nodes v)"
    if "i < length (nv_nodes v)" "node_address h = node_address (nv_nodes v ! i)" for i h
    using that by (metis list_update_id map_update)
  then show ?thesis
    by (auto simp: holder_connect_def Let_def node_address_def split: sum.split)
qed

lemma nodes_inv_steps:
  "nodes_inv v \<Longrightarrow> nodes_inv (snd (reserve_node grow event v))"
  "nodes_inv v \<Longrightarrow> nodes_inv (snd (holder_connect connect p v))"
  by (auto simp: nodes_inv_def reserve_node_nodes holder_connect_addresses node_address_def image_iff)

section \<open>A node and its peer\<close>

text \<open>
  What a peer may send, and what the node is to answer: \<open>random\<close> are the nonces, of which \<open>k\<close> are
  drawn already.
\<close>

datatype peer_message =
    Peer_version bytes | Peer_verack | Peer_ping u64 | Peer_pong u64 | Peer_addresses "addr_record list"

fun peer_sends :: "peer_message \<Rightarrow> p2p_message" where
  "peer_sends (Peer_version payload) = (p2p_message_typed VERSION)\<lparr>pm_payload := payload\<rparr>"
| "peer_sends Peer_verack = verack_message"
| "peer_sends (Peer_ping nonce) = pong_message nonce PING"
| "peer_sends (Peer_pong nonce) = pong_message nonce PONG"
| "peer_sends (Peer_addresses as) = (p2p_message_typed ADDR)\<lparr>pm_payload := addr_payload as\<rparr>"

fun peer_ok :: "peer_message \<Rightarrow> bool" where
  "peer_ok (Peer_version payload) \<longleftrightarrow> int (length payload) < p2p_max_payload"
| "peer_ok (Peer_addresses as) \<longleftrightarrow> list_all wf_addr as \<and> length as \<le> 252"
| "peer_ok _ \<longleftrightarrow> True"

fun answers_to :: "(nat \<Rightarrow> u64) \<Rightarrow> nat \<Rightarrow> peer_message \<Rightarrow> p2p_message list" where
  "answers_to random k (Peer_version payload) = [verack_message]"
| "answers_to random k Peer_verack = [getaddr_message]"
| "answers_to random k (Peer_ping nonce) = [pong_message nonce PONG, pong_message (random k) PING]"
| "answers_to random k _ = []"

fun nonces_for :: "peer_message \<Rightarrow> nat" where
  "nonces_for (Peer_ping nonce) = 1" | "nonces_for _ = 0"

fun addresses_in :: "peer_message \<Rightarrow> node_event list" where
  "addresses_in (Peer_addresses as) = map addr_event as" | "addresses_in _ = []"

fun node_answers :: "(nat \<Rightarrow> u64) \<Rightarrow> nat \<Rightarrow> peer_message list \<Rightarrow> p2p_message list" where
  "node_answers random k [] = []"
| "node_answers random k (p # ps) = answers_to random k p @ node_answers random (k + nonces_for p) ps"

text \<open>One message: what is sent, whether the handshake is complete, and the addresses that are queued.\<close>

definition answered :: "(bytes \<Rightarrow> hash256) \<Rightarrow> p2p_message list \<Rightarrow> bytes list \<Rightarrow> crawler_node \<Rightarrow> crawler_node \<Rightarrow> bool" where
  "answered h ms wires n n' \<longleftrightarrow>
     rmap (p2p_wire (pc_magic (cn_connection n)) (\<lambda>d. Inr (h d))) ms = Inr wires \<and>
     pc_sent (cn_connection n') = pc_sent (cn_connection n) @ wires \<and>
     pc_magic (cn_connection n') = pc_magic (cn_connection n) \<and>
     pc_sha256d (cn_connection n') = pc_sha256d (cn_connection n) \<and>
     pc_random (cn_connection n') = pc_random (cn_connection n)"

lemma p2p_send_ok:
  assumes "hasher_ok h" "sendable m" "pc_sha256d c = (\<lambda>d. Inr (h d))"
  shows "\<exists>w. p2p_wire (pc_magic c) (\<lambda>d. Inr (h d)) m = Inr w \<and> p2p_send m c = (Inr (), c\<lparr>pc_sent := pc_sent c @ [w]\<rparr>)"
  using p2p_wires [OF assms(1), of "[m]" "pc_magic c"] assms(2,3)
  by (auto simp: p2p_send_def rbind_eq_Inr)

lemma sendable_answers: "sendable verack_message" "sendable getaddr_message"
  "t = PING \<or> t = PONG \<Longrightarrow> sendable (pong_message nonce t)"
  by (auto simp: sendable_def verack_message_def getaddr_message_def pong_message_def p2p_message_typed_def
      p2p_max_payload_def)

lemma peer_sendable: "peer_ok p \<Longrightarrow> sendable (peer_sends p)"
proof (cases p)
  case (Peer_addresses as)
  assume "peer_ok p"
  with Peer_addresses have as: "list_all wf_addr as" "length as \<le> 252" by simp_all
  have "length (addr_payload as) = 1 + 30 * length as"
    by (simp add: addr_payload_def varint_encode_small [OF as(2)] length_addr_mems [OF as(1)])
  with as(2) show ?thesis
    by (simp add: Peer_addresses sendable_def p2p_message_typed_def p2p_max_payload_def)
qed (auto simp: sendable_answers, auto simp: sendable_def p2p_message_typed_def)

lemma node_answers_one:
  assumes h: "hasher_ok h" and ok: "peer_ok p" and sha: "pc_sha256d (cn_connection n) = (\<lambda>d. Inr (h d))"
  shows "\<exists>n' wires. node_process_message (named (peer_sends p)) n = (Inr (), n') \<and>
    answered h (answers_to (pc_random (cn_connection n)) (pc_drawn (cn_connection n)) p) wires n n' \<and>
    pc_drawn (cn_connection n') = pc_drawn (cn_connection n) + nonces_for p \<and>
    (pc_connected (cn_connection n') \<longleftrightarrow> pc_connected (cn_connection n) \<or> p = Peer_verack) \<and>
    q_items (cn_parentQueue n') = q_items (cn_parentQueue n) @ addresses_in p"
proof (cases p)
  case (Peer_version payload)
  obtain w where w: "p2p_wire (pc_magic (cn_connection n)) (\<lambda>d. Inr (h d)) verack_message = Inr w"
    "p2p_send verack_message (cn_connection n) =
      (Inr (), (cn_connection n)\<lparr>pc_sent := pc_sent (cn_connection n) @ [w]\<rparr>)"
    using p2p_send_ok [OF h sendable_answers(1) sha] by blast
  then show ?thesis
    by (simp add: Peer_version node_process_message_def op_bind_def on_connection_def p2p_process_message_def named_def
        p2p_message_typed_def answered_def)
next
  case Peer_verack
  let ?c = "(cn_connection n)\<lparr>pc_connected := True\<rparr>"
  have sha': "pc_sha256d ?c = (\<lambda>d. Inr (h d))" using sha by simp
  obtain w where "p2p_wire (pc_magic ?c) (\<lambda>d. Inr (h d)) getaddr_message = Inr w"
    "p2p_send getaddr_message ?c = (Inr (), ?c\<lparr>pc_sent := pc_sent ?c @ [w]\<rparr>)"
    using p2p_send_ok [OF h sendable_answers(2) sha'] by blast
  then show ?thesis
    by (simp add: Peer_verack node_process_message_def op_bind_def on_connection_def p2p_process_message_def named_def
        p2p_message_typed_def verack_message_def handshake_complete_def answered_def)
next
  case (Peer_ping nonce)
  let ?c = "cn_connection n"
  obtain w where w: "p2p_wire (pc_magic ?c) (\<lambda>d. Inr (h d)) (pong_message nonce PONG) = Inr w"
    "p2p_send (pong_message nonce PONG) ?c = (Inr (), ?c\<lparr>pc_sent := pc_sent ?c @ [w]\<rparr>)"
    using p2p_send_ok [OF h sendable_answers(3) sha] by blast
  let ?d = "?c\<lparr>pc_sent := pc_sent ?c @ [w], pc_drawn := pc_drawn ?c + 1\<rparr>"
  have sha': "pc_sha256d ?d = (\<lambda>d. Inr (h d))" using sha by simp
  obtain v where v: "p2p_wire (pc_magic ?d) (\<lambda>d. Inr (h d)) (pong_message (pc_random ?c (pc_drawn ?c)) PING) = Inr v"
    "p2p_send (pong_message (pc_random ?c (pc_drawn ?c)) PING) ?d = (Inr (), ?d\<lparr>pc_sent := pc_sent ?d @ [v]\<rparr>)"
    using p2p_send_ok [OF h sendable_answers(3) sha'] by blast
  have m: "message_nonce (named (pong_message nonce PING)) = Inr nonce" "pm_type (named (pong_message nonce PING)) = PING"
    by (simp_all add: message_nonce_def named_def pong_message_def p2p_message_typed_def mem_u64_u64_mem)
  have "p2p_process_message handshake_complete (named (pong_message nonce PING)) ?c =
      (Inr (), ?d\<lparr>pc_sent := pc_sent ?d @ [v]\<rparr>)"
    using w(2) v(2) by (simp add: p2p_process_message_def p2p_as_def m op_bind_def draw_nonce_def)
  then show ?thesis
    using w(1) v(1) by (simp add: Peer_ping node_process_message_def op_bind_def on_connection_def m answered_def)
next
  case (Peer_pong nonce)
  then show ?thesis
    by (simp add: node_process_message_def op_bind_def on_connection_def p2p_process_message_def named_def
        p2p_message_typed_def pong_message_def answered_def)
next
  case (Peer_addresses as)
  with ok addr_list_read [of as] show ?thesis
    by (simp add: node_process_message_def op_bind_def on_connection_def p2p_process_message_def named_def
        p2p_message_typed_def answered_def foldl_queue_push)
qed

lemma rmap_append: "rmap f xs = Inr ys \<Longrightarrow> rmap f zs = Inr ws \<Longrightarrow> rmap f (xs @ zs) = Inr (ys @ ws)"
  by (induction xs arbitrary: ys) (auto simp: rbind_eq_Inr)

lemma node_answers_all:
  assumes "hasher_ok h"
  shows "list_all peer_ok ps \<Longrightarrow> pc_sha256d (cn_connection n) = (\<lambda>d. Inr (h d)) \<Longrightarrow>
    \<exists>n' wires. process_all node_process_message (map (named \<circ> peer_sends) ps) n = (Inr (), n') \<and>
      answered h (node_answers (pc_random (cn_connection n)) (pc_drawn (cn_connection n)) ps) wires n n' \<and>
      (pc_connected (cn_connection n') \<longleftrightarrow> pc_connected (cn_connection n) \<or> Peer_verack \<in> set ps) \<and>
      q_items (cn_parentQueue n') = q_items (cn_parentQueue n) @ concat (map addresses_in ps)"
proof (induction ps arbitrary: n)
  case Nil
  then show ?case by (simp add: answered_def)
next
  case (Cons p ps)
  then obtain m ws where one: "node_process_message (named (peer_sends p)) n = (Inr (), m)"
    "answered h (answers_to (pc_random (cn_connection n)) (pc_drawn (cn_connection n)) p) ws n m"
    "pc_drawn (cn_connection m) = pc_drawn (cn_connection n) + nonces_for p"
    "pc_connected (cn_connection m) \<longleftrightarrow> pc_connected (cn_connection n) \<or> p = Peer_verack"
    "q_items (cn_parentQueue m) = q_items (cn_parentQueue n) @ addresses_in p"
    using node_answers_one [OF assms, of p n] by auto
  have ps: "list_all peer_ok ps" "pc_sha256d (cn_connection m) = (\<lambda>d. Inr (h d))"
    using Cons.prems one(2) by (simp_all add: answered_def)
  obtain n' vs where rest:
    "process_all node_process_message (map (named \<circ> peer_sends) ps) m = (Inr (), n')"
    "answered h (node_answers (pc_random (cn_connection m)) (pc_drawn (cn_connection m)) ps) vs m n'"
    "pc_connected (cn_connection n') \<longleftrightarrow> pc_connected (cn_connection m) \<or> Peer_verack \<in> set ps"
    "q_items (cn_parentQueue n') = q_items (cn_parentQueue m) @ concat (map addresses_in ps)"
    using Cons.IH [OF ps] by (elim exE conjE)
  have r: "pc_random (cn_connection m) = pc_random (cn_connection n)" using one(2) by (simp add: answered_def)
  have a: "answered h (node_answers (pc_random (cn_connection n)) (pc_drawn (cn_connection n)) (p # ps)) (ws @ vs) n n'"
    using one(2) rest(2) unfolding answered_def r one(3) by (simp add: rmap_append)
  show ?case
    by (intro exI [of _ n'] exI [of _ "ws @ vs"] conjI a)
      (use one(1,4,5) rest(1,3,4) in \<open>auto simp: op_bind_def comp_def\<close>)
qed

text \<open>A node that has just connected has sent its version.\<close>

lemma p2p_connect_Inr:
  "p2p_connect sha random now running host port magic = Inr c \<Longrightarrow>
   pc_sha256d c = sha \<and> pc_random c = random \<and> pc_drawn c = 0 \<and> \<not> pc_connected c \<and>
   (\<exists>w. p2p_wire (pc_magic c) sha (version_message now 70016) = Inr w \<and> pc_sent c = [w])"
  by (auto simp: p2p_connect_def send_version_def p2p_send_def Let_def split: if_splits sum.splits prod.splits)

end
