(* ===== verification/CrawlRun.thy ===== *)
theory CrawlRun
  imports Crawler
begin

text \<open>
  The crawler as a whole (\<open>utils/crawler/ConnectionManager\<close>): the four workers, the queue they take nodes
  out of, the vector of nodes, and the connections, whose threads read what the peers send and put the
  nodes they are told of into the queue. The steps of all of them interleave in any order.
\<close>

section \<open>The run\<close>

text \<open>
  Where a worker is: behind \<open>waitForMessage\<close> or in it, with an event, or with the pointer to the holder it
  is to connect.
\<close>

datatype crawler_place = Waiting | Taken node_event | Connecting holder_pointer

text \<open>
  The buffers are those of the connections' sockets, by the place of the node in the vector. For the
  specification: which node has told of which.
\<close>

record crawl =
  cw_queue :: "node_event queue"
  cw_vector :: node_vector
  cw_workers :: "nat \<Rightarrow> crawler_place"
  cw_buffers :: "nat \<Rightarrow> bytes"
  cw_told :: "node_event rel"

definition crawl_new :: "string \<Rightarrow> u16 \<Rightarrow> crawl" where
  "crawl_new host port =
     \<lparr>cw_queue = add_node host port queue_new, cw_vector = node_vector_new, cw_workers = (\<lambda>_. Waiting),
      cw_buffers = (\<lambda>_. []), cw_told = {}\<rparr>"

definition visited :: "crawl \<Rightarrow> node_event set" where
  "visited s = node_address ` set (nv_nodes (cw_vector s))"

text \<open>
  A run as long as nothing throws, which ends the program, and no pointer dangles. A connection reads once
  it is made. \<open>drop\<close> is what a packet has added to the queue; the other threads do not come in between
  its entries, which changes only their order.
\<close>

definition worker_moves :: "nat \<Rightarrow> crawler_place \<Rightarrow> crawl \<Rightarrow> crawl" where
  "worker_moves w place s = s\<lparr>cw_workers := (cw_workers s)(w := place)\<rparr>"

definition set_connection :: "nat \<Rightarrow> p2p_connection \<Rightarrow> node_vector \<Rightarrow> node_vector" where
  "set_connection i c v = v\<lparr>nv_nodes := (nv_nodes v)[i := (nv_nodes v ! i)\<lparr>ho_connection := Some c\<rparr>]\<rparr>"

definition news_of :: "node_event queue \<Rightarrow> node_event queue \<Rightarrow> node_event list" where
  "news_of before after = drop (length (q_items before)) (q_items after)"

inductive crawl_step ::
  "(nat \<Rightarrow> nat) \<Rightarrow> (string \<Rightarrow> u16 \<Rightarrow> p2p_connection res) \<Rightarrow> crawl \<Rightarrow> crawl \<Rightarrow> bool"
  for grow connect where
  takes: "w < 4 \<Longrightarrow> cw_workers s w = Waiting \<Longrightarrow> wait_for_message (cw_queue s) = Some (Inr event, q) \<Longrightarrow>
    crawl_step grow connect s (worker_moves w (Taken event) (s\<lparr>cw_queue := q\<rparr>))"
| reserves: "w < 4 \<Longrightarrow> cw_workers s w = Taken event \<Longrightarrow> reserve_node grow event (cw_vector s) = (p, v) \<Longrightarrow>
    crawl_step grow connect s
      (worker_moves w (case p of None \<Rightarrow> Waiting | Some p \<Rightarrow> Connecting p) (s\<lparr>cw_vector := v\<rparr>))"
| connects: "w < 4 \<Longrightarrow> cw_workers s w = Connecting p \<Longrightarrow> holder_connect connect p (cw_vector s) = (Inr (), v) \<Longrightarrow>
    crawl_step grow connect s
      (worker_moves w Waiting (s\<lparr>cw_vector := v, cw_buffers := (cw_buffers s)(snd p := [])\<rparr>))"
| reads: "i < length (nv_nodes (cw_vector s)) \<Longrightarrow> h = nv_nodes (cw_vector s) ! i \<Longrightarrow> ho_connection h = Some c \<Longrightarrow>
    p2p_on_receive (pc_magic c) (pc_sha256d c) node_process_message packet (cw_buffers s i)
      \<lparr>cn_connection = c, cn_parentQueue = cw_queue s\<rparr> = (Inr (), buffer, n) \<Longrightarrow>
    crawl_step grow connect s
      (s\<lparr>cw_queue := cn_parentQueue n, cw_vector := set_connection i (cn_connection n) (cw_vector s),
         cw_buffers := (cw_buffers s)(i := buffer),
         cw_told := cw_told s \<union> {node_address h} \<times> set (news_of (cw_queue s) (cn_parentQueue n))\<rparr>)"

inductive crawl_reachable ::
  "(nat \<Rightarrow> nat) \<Rightarrow> (string \<Rightarrow> u16 \<Rightarrow> p2p_connection res) \<Rightarrow> node_event \<Rightarrow> crawl \<Rightarrow> bool"
  for grow connect home where
  start: "crawl_reachable grow connect home (crawl_new (fst home) (snd home))"
| step: "crawl_reachable grow connect home s \<Longrightarrow> crawl_step grow connect s s' \<Longrightarrow>
    crawl_reachable grow connect home s'"

section \<open>A packet only adds to the queue\<close>

text \<open>What a message's handler keeps, the handling of a packet keeps.\<close>

lemma p2p_handle_keeps:
  assumes "\<And>m. keeps P (process m)"
  shows "keeps P (p2p_handle sha256d process packet)"
  using assms by (auto simp: p2p_handle_def Let_def intro!: keeps_bind)

lemma p2p_loop_keeps:
  assumes "\<And>m. keeps P (process m)"
  shows "P s \<Longrightarrow> P (snd (snd (p2p_loop magic sha256d process buffer s)))"
proof (induction "length buffer" arbitrary: buffer s rule: less_induct)
  case less
  have handle: "P (snd (p2p_handle sha256d process packet t))" if "P t" for packet t
    using p2p_handle_keeps [OF assms] that by (auto simp: keeps_def)
  show ?case
  proof (cases "24 \<le> length buffer \<and> (\<exists>n. p2p_packet_size magic buffer = Inr n \<and> n \<le> length buffer)")
    case False
    then show ?thesis using less.prems by (subst p2p_loop.simps) (auto split: sum.split)
  next
    case True
    then obtain n where n: "24 \<le> length buffer" "p2p_packet_size magic buffer = Inr n" "n \<le> length buffer" by blast
    obtain r s' where h: "p2p_handle sha256d process (take n buffer) s = (r, s')" by fastforce
    have P: "P s'" using handle [OF less.prems, of "take n buffer"] h by simp
    have "length (drop n buffer) < length buffer" using n p2p_packet_size_pos [OF n(2)] by simp
    from less.hyps [OF this P] P n h show ?thesis
      by (subst p2p_loop.simps) (simp split: sum.split)
  qed
qed

definition queue_grows :: "node_event list \<Rightarrow> crawler_node \<Rightarrow> bool" where
  "queue_grows before n \<longleftrightarrow>
     queue_ok (cn_parentQueue n) \<and> (\<exists>new. q_items (cn_parentQueue n) = before @ new)"

lemma addr_loop_grows:
  "queue_ok q \<Longrightarrow> \<exists>new. q_items (snd (addr_loop payload idx q)) = q_items q @ new \<and>
    queue_ok (snd (addr_loop payload idx q))"
proof (induction payload idx q rule: addr_loop.induct)
  case (1 payload idx q)
  show ?case
  proof (cases "addr_entry payload idx")
    case (Inr event)
    obtain host port where event: "event = (host, port)" by fastforce
    have q: "queue_ok (add_node host port q)" "q_items (add_node host port q) = q_items q @ [(host, port)]"
      using 1(2) by (simp_all add: queue_ok_def add_node_def queue_push_def)
    show ?thesis
    proof (cases "idx < length payload")
      case True
      with 1(1) [OF True Inr event [symmetric]] Inr event q show ?thesis
        by (subst (1 2) addr_loop.simps) auto
    qed (use 1(2) in \<open>simp add: addr_loop.simps [of payload idx]\<close>)
  qed (use 1(2) in \<open>simp add: addr_loop.simps [of payload idx]\<close>)
qed

lemma node_process_message_grows: "keeps (queue_grows before) (node_process_message m)"
  unfolding node_process_message_def
proof (rule keeps_bind)
  show "keeps (queue_grows before) (on_connection (p2p_process_message handshake_complete m))"
    by (auto simp: keeps_def on_connection_def queue_grows_def split: prod.split)
next
  fix u
  show "keeps (queue_grows before) (\<lambda>n. case pm_type m of
      ADDR \<Rightarrow> (case addr_loop (pm_payload m) 1 (cn_parentQueue n) of (r, q) \<Rightarrow> (r, n\<lparr>cn_parentQueue := q\<rparr>))
    | _ \<Rightarrow> (Inr (), n))"
  proof -
    have "queue_grows before (snd (case addr_loop (pm_payload m) 1 (cn_parentQueue n) of
        (r, q) \<Rightarrow> (r, n\<lparr>cn_parentQueue := q\<rparr>)))" if n: "queue_grows before n" for n
    proof -
      obtain r q where l: "addr_loop (pm_payload m) 1 (cn_parentQueue n) = (r, q)" by fastforce
      from n obtain old where old: "q_items (cn_parentQueue n) = before @ old" "queue_ok (cn_parentQueue n)"
        by (auto simp: queue_grows_def)
      from addr_loop_grows [OF old(2), of "pm_payload m" 1] l obtain new where
        "q_items q = (before @ old) @ new" "queue_ok q" by (auto simp: old(1))
      with l show ?thesis by (simp add: queue_grows_def)
    qed
    then show ?thesis by (auto simp: keeps_def split: p2p_type.split)
  qed
qed

lemma reading_adds:
  assumes "p2p_on_receive magic sha256d node_process_message packet buffer n = (r, rest, n')" "queue_ok (cn_parentQueue n)"
  shows "q_items (cn_parentQueue n') = q_items (cn_parentQueue n) @ news_of (cn_parentQueue n) (cn_parentQueue n')"
    and "queue_ok (cn_parentQueue n')"
proof -
  have "queue_grows (q_items (cn_parentQueue n)) n" using assms(2) by (simp add: queue_grows_def)
  then have "queue_grows (q_items (cn_parentQueue n))
      (snd (snd (p2p_loop magic sha256d node_process_message (append_ref buffer packet) n)))"
    by (rule p2p_loop_keeps [OF node_process_message_grows])
  then have "queue_grows (q_items (cn_parentQueue n)) n'" using assms(1) by (simp add: p2p_on_receive_def)
  then show "q_items (cn_parentQueue n') = q_items (cn_parentQueue n) @ news_of (cn_parentQueue n) (cn_parentQueue n')"
    "queue_ok (cn_parentQueue n')" by (auto simp: queue_grows_def news_of_def)
qed

section \<open>A search\<close>

text \<open>
  The specification: the nodes that can be reached from the first one by what nodes have told. What the
  crawler knows is in the queue, with a worker, or in the vector.
\<close>

definition in_hand :: "crawl \<Rightarrow> node_event set" where
  "in_hand s = {event. \<exists>w. cw_workers s w = Taken event}"

definition known :: "crawl \<Rightarrow> node_event set" where
  "known s = set (q_items (cw_queue s)) \<union> in_hand s \<union> visited s"

definition crawl_inv :: "node_event \<Rightarrow> crawl \<Rightarrow> bool" where
  "crawl_inv home s \<longleftrightarrow>
     queue_ok (cw_queue s) \<and> nodes_inv (cw_vector s) \<and>
     known s = insert home (snd ` cw_told s) \<and> fst ` cw_told s \<subseteq> visited s \<and>
     known s \<subseteq> (cw_told s)\<^sup>* `` {home}"

lemma visited_nodes: "visited s = set (map node_address (nv_nodes (cw_vector s)))"
  by (simp add: visited_def)

lemma set_connection_addresses:
  "i < length (nv_nodes v) \<Longrightarrow> map node_address (nv_nodes (set_connection i c v)) = map node_address (nv_nodes v)"
  by (simp add: set_connection_def map_update node_address_def list_update_same_conv)

lemma in_hand_takes: "cw_workers s w = Waiting \<Longrightarrow> in_hand (worker_moves w (Taken event) s) = insert event (in_hand s)"
  by (auto simp: in_hand_def worker_moves_def) (metis crawler_place.distinct(1))

lemma in_hand_leaves:
  "cw_workers s w = Taken event \<Longrightarrow> \<forall>e. place \<noteq> Taken e \<Longrightarrow>
   insert event (in_hand (worker_moves w place s)) = in_hand s"
  by (auto simp: in_hand_def worker_moves_def) (metis crawler_place.inject(1))

lemma in_hand_moves:
  "cw_workers s w = Connecting p \<Longrightarrow> in_hand (worker_moves w Waiting s) = in_hand s"
  by (auto simp: in_hand_def worker_moves_def) (metis crawler_place.distinct(5))

lemma moved_simps [simp]:
  "cw_queue (worker_moves w place s) = cw_queue s" "cw_vector (worker_moves w place s) = cw_vector s"
  "cw_told (worker_moves w place s) = cw_told s" "visited (worker_moves w place s) = visited s"
  "in_hand (s\<lparr>cw_queue := q\<rparr>) = in_hand s" "in_hand (s\<lparr>cw_vector := v\<rparr>) = in_hand s"
  "in_hand (s\<lparr>cw_buffers := bs\<rparr>) = in_hand s" "in_hand (s\<lparr>cw_told := told\<rparr>) = in_hand s"
  by (simp_all add: worker_moves_def visited_def in_hand_def)

text \<open>A step that tells nothing keeps the invariant when it keeps what is known.\<close>

lemma crawl_inv_moves:
  assumes "crawl_inv home s" "queue_ok (cw_queue s')" "nodes_inv (cw_vector s')" "cw_told s' = cw_told s"
    and "known s' = known s" "visited s \<subseteq> visited s'"
  shows "crawl_inv home s'"
  using assms unfolding crawl_inv_def by auto

lemma crawl_inv_step:
  assumes inv: "crawl_inv home s" and "crawl_step grow connect s s'"
  shows "crawl_inv home s'"
  using assms(2)
proof (cases rule: crawl_step.cases)
  case (takes w event q)
  have ok: "queue_ok (cw_queue s)" using inv by (simp add: crawl_inv_def)
  from takes(4) ok have q: "q_items (cw_queue s) = event # q_items q" "queue_ok q"
    by (auto simp: wait_for_message_eq queue_ok_def split: if_splits list.splits)
  have "known s' = known s"
    using in_hand_takes [of "s\<lparr>cw_queue := q\<rparr>" w event] takes(1,3) q(1)
    by (auto simp: known_def visited_def)
  with inv q(2) takes(1) show ?thesis
    by (intro crawl_inv_moves [OF inv]) (auto simp: crawl_inv_def worker_moves_def visited_def)
next
  case (reserves w event p v)
  have v: "v = snd (reserve_node grow event (cw_vector s))" "p = fst (reserve_node grow event (cw_vector s))"
    using reserves(4) by simp_all
  have "node_address ` set (nv_nodes v) = insert event (visited s)"
    unfolding v reserve_node_nodes by (auto simp: node_address_def visited_def)
  then have visited: "visited s' = insert event (visited s)" by (simp add: reserves(1) visited_def worker_moves_def)
  have "\<forall>e. (case p of None \<Rightarrow> Waiting | Some p \<Rightarrow> Connecting p) \<noteq> Taken e" by (cases p) simp_all
  with reserves(3) have "insert event (in_hand s') = in_hand s"
    using in_hand_leaves [of "s\<lparr>cw_vector := v\<rparr>" w event] by (simp add: reserves(1))
  with visited have "known s' = known s" by (auto simp: known_def reserves(1))
  moreover have "nodes_inv v" using inv nodes_inv_steps(1) v(1) by (auto simp: crawl_inv_def)
  moreover have "queue_ok (cw_queue s')" "cw_vector s' = v" "cw_told s' = cw_told s" "visited s \<subseteq> visited s'"
    using inv visited by (auto simp: crawl_inv_def reserves(1))
  ultimately show ?thesis using crawl_inv_moves [OF inv] by simp
next
  case (connects w p v)
  have "map node_address (nv_nodes v) = map node_address (nv_nodes (cw_vector s))"
    using holder_connect_addresses [of connect p "cw_vector s"] connects(4) by simp
  then have same: "visited s' = visited s" "nodes_inv v \<longleftrightarrow> nodes_inv (cw_vector s)"
    by (simp_all add: connects(1) visited_nodes worker_moves_def nodes_inv_def)
  moreover have "in_hand s' = in_hand s"
    using connects(1,3) in_hand_moves [of "s\<lparr>cw_vector := v, cw_buffers := (cw_buffers s)(snd p := [])\<rparr>" w p] by simp
  ultimately have "known s' = known s" using connects(1) by (simp add: known_def)
  with inv same connects(1) show ?thesis
    by (intro crawl_inv_moves [OF inv]) (auto simp: crawl_inv_def worker_moves_def)
next
  case (reads i h c packet buffer n)
  let ?news = "news_of (cw_queue s) (cn_parentQueue n)"
  have ok: "queue_ok (cw_queue s)" using inv by (simp add: crawl_inv_def)
  have q: "q_items (cn_parentQueue n) = q_items (cw_queue s) @ ?news" "queue_ok (cn_parentQueue n)"
    using reading_adds [OF reads(5)] ok by simp_all
  have addresses: "map node_address (nv_nodes (cw_vector s')) = map node_address (nv_nodes (cw_vector s))"
    using set_connection_addresses [OF reads(2)] reads(1) by simp
  then have same: "visited s' = visited s" "nodes_inv (cw_vector s') \<longleftrightarrow> nodes_inv (cw_vector s)"
    by (simp_all add: visited_nodes nodes_inv_def del: set_map)
  have teller: "node_address h \<in> visited s" using reads(2,3) by (auto simp: visited_def)
  have known: "known s' = known s \<union> set ?news"
    using same(1) q(1) by (auto simp: known_def reads(1))
  have told: "cw_told s' = cw_told s \<union> {node_address h} \<times> set ?news" by (simp add: reads(1))
  have mono: "(cw_told s)\<^sup>* \<subseteq> (cw_told s')\<^sup>*" by (rule rtrancl_mono) (simp add: told)
  have before: "known s \<subseteq> (cw_told s')\<^sup>* `` {home}"
    using inv mono unfolding crawl_inv_def by blast
  have "node_address h \<in> known s" using teller by (simp add: known_def)
  with before have "(home, node_address h) \<in> (cw_told s')\<^sup>*" by blast
  then have "set ?news \<subseteq> (cw_told s')\<^sup>* `` {home}"
    using told by (blast intro: rtrancl_into_rtrancl)
  with before have after: "known s' \<subseteq> (cw_told s')\<^sup>* `` {home}" unfolding known by blast
  have "snd ` cw_told s' = snd ` cw_told s \<union> set ?news" "fst ` cw_told s' \<subseteq> insert (node_address h) (fst ` cw_told s)"
    unfolding told by force+
  note snds = this(1) and fsts = this(2)
  have i: "known s = insert home (snd ` cw_told s)" "fst ` cw_told s \<subseteq> visited s"
    using inv unfolding crawl_inv_def by blast+
  have "known s' = insert home (snd ` cw_told s')" unfolding known snds i(1) by (simp only: Un_insert_left)
  moreover have "fst ` cw_told s' \<subseteq> visited s'" unfolding same(1)
    by (rule subset_trans [OF fsts]) (simp add: teller i(2) del: image_subset_iff)
  moreover have "queue_ok (cw_queue s')" "nodes_inv (cw_vector s')"
    using inv q(2) same(2) by (simp_all add: crawl_inv_def reads(1))
  ultimately show ?thesis using after by (simp add: crawl_inv_def)
qed

lemma crawl_reachable_inv: "crawl_reachable grow connect home s \<Longrightarrow> crawl_inv home s"
proof (induction rule: crawl_reachable.induct)
  case start
  show ?case
    by (auto simp: crawl_inv_def crawl_new_def nodes_inv_def node_vector_new_def known_def visited_def add_node_def
        queue_push_def queue_new_def queue_ok_def
        in_hand_def)
qed (blast intro: crawl_inv_step)

text \<open>When no node waits to be visited, the search is complete.\<close>

lemma search_complete:
  assumes "crawl_inv home s" "messages_waiting (cw_queue s) = 0" "\<forall>w event. cw_workers s w \<noteq> Taken event"
  shows "visited s = (cw_told s)\<^sup>* `` {home}"
proof
  have "in_hand s = {}" using assms(3) by (auto simp: in_hand_def)
  moreover have "q_items (cw_queue s) = []" using assms(1,2) by (simp add: crawl_inv_def messages_waiting_def queue_ok_def)
  ultimately have v: "known s = visited s" by (simp add: known_def)
  have inv: "known s = insert home (snd ` cw_told s)" "known s \<subseteq> (cw_told s)\<^sup>* `` {home}"
    using assms(1) unfolding crawl_inv_def by blast+
  then show "visited s \<subseteq> (cw_told s)\<^sup>* `` {home}" by (simp only: v)
  have "e \<in> insert home (snd ` cw_told s)" if "(home, e) \<in> (cw_told s)\<^sup>*" for e
    using that
  proof (cases rule: rtranclE)
    case (step d)
    then show ?thesis by (metis imageI insertCI snd_conv)
  qed simp
  then show "(cw_told s)\<^sup>* `` {home} \<subseteq> visited s" using inv(1) unfolding v by blast
qed

section \<open>What a peer tells\<close>

text \<open>Whole messages of a peer, in one packet: the addresses in them are told, and wait in the queue.\<close>

lemma peer_tells:
  assumes "hasher_ok h" "list_all peer_ok ps" "pc_sha256d c = (\<lambda>d. Inr (h d))"
    and "i < length (nv_nodes (cw_vector s))" "ho_connection (nv_nodes (cw_vector s) ! i) = Some c" "cw_buffers s i = []"
  shows "\<exists>c' q. crawl_step grow connect s
      (s\<lparr>cw_queue := q, cw_vector := set_connection i c' (cw_vector s), cw_buffers := (cw_buffers s)(i := []),
         cw_told := cw_told s \<union>
           {node_address (nv_nodes (cw_vector s) ! i)} \<times> set (concat (map addresses_in ps))\<rparr>) \<and>
    q_items q = q_items (cw_queue s) @ concat (map addresses_in ps)"
proof -
  let ?n = "\<lparr>cn_connection = c, cn_parentQueue = cw_queue s\<rparr>"
  have sendable: "\<forall>m \<in> set (map peer_sends ps). sendable m" using assms(2) peer_sendable by (auto simp: list_all_iff)
  obtain wires where wires: "rmap (p2p_wire (pc_magic c) (\<lambda>d. Inr (h d))) (map peer_sends ps) = Inr wires"
    using p2p_wires [OF assms(1) sendable] by blast
  obtain n where run: "process_all node_process_message (map (named \<circ> peer_sends) ps) ?n = (Inr (), n)"
    and q: "q_items (cn_parentQueue n) = q_items (cw_queue s) @ concat (map addresses_in ps)"
    using node_answers_all [OF assms(1,2), of ?n] assms(3) by auto
  have "process_all node_process_message (map named (map peer_sends ps)) ?n = (Inr (), n)" using run by simp
  from p2p_delivers [OF assms(1) sendable wires _ this, of "[concat wires]"]
  have "p2p_on_receive (pc_magic c) (pc_sha256d c) node_process_message (concat wires) (cw_buffers s i) ?n = (Inr (), [], n)"
    using p2p_chunking [of "pc_magic c" "\<lambda>d. Inr (h d)" node_process_message "[concat wires]"] by (simp add: assms(3,6))
  from crawl_step.reads [OF assms(4) refl assms(5) this] q show ?thesis
    by (intro exI [of _ "cn_connection n"] exI [of _ "cn_parentQueue n"]) (simp add: news_of_def)
qed


section \<open>Runs\<close>

text \<open>The steps as they follow each other in a run.\<close>

lemma run_takes:
  assumes "crawl_reachable grow connect home s" "w < 4" "cw_workers s w = Waiting" "q_items (cw_queue s) = event # rest"
  shows "\<exists>s'. crawl_reachable grow connect home s' \<and> q_items (cw_queue s') = rest \<and>
    cw_workers s' = (cw_workers s)(w := Taken event) \<and> cw_vector s' = cw_vector s \<and> cw_buffers s' = cw_buffers s \<and>
    cw_told s' = cw_told s"
proof -
  let ?q = "(cw_queue s)\<lparr>q_semaphore := q_semaphore (cw_queue s) - 1, q_items := rest\<rparr>"
  have "queue_ok (cw_queue s)" using crawl_reachable_inv [OF assms(1)] by (simp add: crawl_inv_def)
  then have "wait_for_message (cw_queue s) = Some (Inr event, ?q)"
    using assms(4) by (simp add: wait_for_message_eq queue_ok_def)
  from crawl_reachable.step [OF assms(1) crawl_step.takes [OF assms(2,3) this]] show ?thesis
    by (intro exI [of _ "worker_moves w (Taken event) (s\<lparr>cw_queue := ?q\<rparr>)"]) (simp add: worker_moves_def)
qed

lemma run_reserves:
  assumes "crawl_reachable grow connect home s" "w < 4" "cw_workers s w = Taken event" "event \<notin> visited s"
    and "add_connection grow (fst event) (snd event) (cw_vector s) = (p, v)"
  shows "\<exists>s'. crawl_reachable grow connect home s' \<and> cw_queue s' = cw_queue s \<and>
    cw_workers s' = (cw_workers s)(w := Connecting p) \<and> cw_vector s' = v \<and> cw_buffers s' = cw_buffers s \<and>
    cw_told s' = cw_told s"
proof -
  have "reserve_node grow event (cw_vector s) = (Some p, v)"
    using assms(4,5) by (simp add: reserve_node_def contains_node_iff visited_def)
  from crawl_reachable.step [OF assms(1) crawl_step.reserves [OF assms(2,3) this]] show ?thesis
    by (intro exI [of _ "worker_moves w (Connecting p) (s\<lparr>cw_vector := v\<rparr>)"]) (simp add: worker_moves_def)
qed

lemma run_connects:
  assumes "crawl_reachable grow connect home s" "w < 4" "cw_workers s w = Connecting (b, i)"
    and "b = nv_block (cw_vector s)" "i < length (nv_nodes (cw_vector s))"
    and "connect (ho_host (nv_nodes (cw_vector s) ! i)) (ho_port (nv_nodes (cw_vector s) ! i)) = Inr c"
  shows "\<exists>s'. crawl_reachable grow connect home s' \<and> cw_queue s' = cw_queue s \<and>
    cw_workers s' = (cw_workers s)(w := Waiting) \<and> cw_vector s' = set_connection i c (cw_vector s) \<and>
    cw_buffers s' = (cw_buffers s)(i := []) \<and> cw_told s' = cw_told s"
proof -
  have "holder_connect connect (b, i) (cw_vector s) = (Inr (), set_connection i c (cw_vector s))"
    using assms(4-6) by (simp add: holder_connect_def set_connection_def Let_def)
  from crawl_reachable.step [OF assms(1) crawl_step.connects [OF assms(2,3) this]] show ?thesis
    by (intro exI [of _ "worker_moves w Waiting (s\<lparr>cw_vector := set_connection i c (cw_vector s),
      cw_buffers := (cw_buffers s)(i := [])\<rparr>)"]) (simp add: worker_moves_def)
qed

text \<open>
  The first node is visited, and tells of others: the vector has one node, in its first block of memory.
\<close>

lemma first_node_tells:
  assumes "hasher_ok h" "list_all peer_ok ps" "pc_sha256d c = (\<lambda>d. Inr (h d))"
    and "connect (fst home) (snd home) = Inr c" "grow 0 = 1"
  shows "\<exists>s. crawl_reachable grow connect home s \<and> q_items (cw_queue s) = concat (map addresses_in ps) \<and>
    cw_workers s = (\<lambda>_. Waiting) \<and> nv_block (cw_vector s) = 1 \<and> nv_capacity (cw_vector s) = 1 \<and>
    map node_address (nv_nodes (cw_vector s)) = [home] \<and> cw_told s = {home} \<times> set (concat (map addresses_in ps))"
proof -
  let ?s = "crawl_new (fst home) (snd home)"
  have start: "q_items (cw_queue ?s) = [home]" "cw_workers ?s = (\<lambda>_. Waiting)" "cw_vector ?s = node_vector_new" "cw_told ?s = {}"
    by (simp_all add: crawl_new_def add_node_def queue_push_def queue_new_def)
  obtain s1 where s1: "crawl_reachable grow connect home s1" "q_items (cw_queue s1) = []"
    "cw_workers s1 = (\<lambda>_. Waiting)(0 := Taken home)" "cw_vector s1 = node_vector_new" "cw_told s1 = {}"
    using run_takes [where w = 0 and event = home and rest = "[]", OF crawl_reachable.start [of grow connect home]] start by auto
  let ?v = "\<lparr>nv_block = 1, nv_capacity = 1, nv_nodes = [holder_new (fst home) (snd home)]\<rparr>"
  have "add_connection grow (fst home) (snd home) (cw_vector s1) = ((1, 0), ?v)"
    using assms(5) by (simp add: add_connection_def emplace_back_def Let_def s1(4) node_vector_new_def)
  then obtain s2 where s2: "crawl_reachable grow connect home s2" "q_items (cw_queue s2) = []"
    "cw_workers s2 = (\<lambda>_. Waiting)(0 := Connecting (1, 0))" "cw_vector s2 = ?v" "cw_told s2 = {}"
    using run_reserves [OF s1(1), of 0 home] s1 by (auto simp: visited_def node_vector_new_def)
  then obtain s3 where s3: "crawl_reachable grow connect home s3" "q_items (cw_queue s3) = []"
    "cw_workers s3 = (\<lambda>_. Waiting)" "cw_vector s3 = set_connection 0 c ?v" "cw_buffers s3 0 = []" "cw_told s3 = {}"
    using run_connects [OF s2(1), of 0 1 0 c] assms(4) fun_upd_idem [of "\<lambda>_. Waiting" "0 :: nat" Waiting] by auto
  have node: "0 < length (nv_nodes (cw_vector s3))" "ho_connection (nv_nodes (cw_vector s3) ! 0) = Some c"
    "node_address (nv_nodes (cw_vector s3) ! 0) = home"
    by (simp_all add: s3(4) set_connection_def node_address_def)
  obtain c' q where told: "crawl_reachable grow connect home (s3\<lparr>cw_queue := q, cw_vector := set_connection 0 c' (cw_vector s3),
      cw_buffers := (cw_buffers s3)(0 := []), cw_told := cw_told s3 \<union> {home} \<times> set (concat (map addresses_in ps))\<rparr>)"
    "q_items q = concat (map addresses_in ps)"
    using peer_tells [OF assms(1-3) node(1,2) s3(5), of grow connect] crawl_reachable.step [OF s3(1)] s3(2)
    unfolding node(3) by auto
  show ?thesis
    by (rule exI, intro conjI, rule told(1)) (simp_all add: told(2) s3(3,4,6) set_connection_def node_address_def)
qed

text \<open>
  Two workers take the next two nodes at the same time, in a vector that doubles when it is full: the
  second one's node moves the vector while the first one has not connected.
\<close>

lemma pointer_dangles:
  assumes "hasher_ok h" "pc_sha256d c = (\<lambda>d. Inr (h d))" "connect (fst home) (snd home) = Inr c"
    and "grow 0 = 1" "grow 1 = 2" "list_all wf_addr [a, b]" "distinct [home, addr_event a, addr_event b]"
  shows "\<exists>s p. crawl_reachable grow connect home s \<and> cw_workers s 0 = Connecting p \<and>
    fst (holder_connect connect p (cw_vector s)) = Inl (Undefined ''dangling holder'')"
proof -
  have "list_all peer_ok [Peer_addresses [a, b]]" using assms(6) by simp
  from first_node_tells [where grow = grow and connect = connect and home = home, OF assms(1) this assms(2-4)] obtain s where s: "crawl_reachable grow connect home s"
    "q_items (cw_queue s) = [addr_event a, addr_event b]" "cw_workers s = (\<lambda>_. Waiting)"
    "nv_block (cw_vector s) = 1" "nv_capacity (cw_vector s) = 1" "map node_address (nv_nodes (cw_vector s)) = [home]"
    by auto
  obtain s1 where s1: "crawl_reachable grow connect home s1" "q_items (cw_queue s1) = [addr_event b]"
    "cw_workers s1 = (\<lambda>_. Waiting)(0 := Taken (addr_event a))" "cw_vector s1 = cw_vector s"
    using run_takes [OF s(1), of 0] s by auto
  obtain s2 where s2: "crawl_reachable grow connect home s2"
    "cw_workers s2 = (\<lambda>_. Waiting)(0 := Taken (addr_event a), 1 := Taken (addr_event b))" "cw_vector s2 = cw_vector s"
    using run_takes [OF s1(1), of 1] s1 by auto
  have len: "length (nv_nodes (cw_vector s)) = 1" using s(6) by (metis length_map One_nat_def length_Cons list.size(3))
  let ?v = "\<lparr>nv_block = 2, nv_capacity = 2,
    nv_nodes = nv_nodes (cw_vector s) @ [holder_new (fst (addr_event a)) (snd (addr_event a))]\<rparr>"
  have "add_connection grow (fst (addr_event a)) (snd (addr_event a)) (cw_vector s2) = ((2, 1), ?v)"
    using assms(5) len s(4,5) s2(3) by (simp add: add_connection_def emplace_back_def Let_def)
  moreover have "addr_event a \<notin> visited s2" using assms(7) s(6) s2(3) by (auto simp: visited_nodes simp del: set_map)
  ultimately obtain s3 where s3: "crawl_reachable grow connect home s3"
    "cw_workers s3 = (\<lambda>_. Waiting)(0 := Connecting (2, 1), 1 := Taken (addr_event b))" "cw_vector s3 = ?v"
    using run_reserves [OF s2(1), of 0 "addr_event a"] s2 by (auto simp: fun_upd_twist)
  obtain v where v: "add_connection grow (fst (addr_event b)) (snd (addr_event b)) (cw_vector s3) = ((3, 2), v)" "nv_block v = 3"
    using len by (simp add: add_connection_def emplace_back_def Let_def s3(3))
  moreover have "addr_event b \<notin> visited s3"
    using assms(7) s(6) s3(3) by (auto simp: visited_nodes node_address_def simp del: set_map)
  ultimately obtain s4 where s4: "crawl_reachable grow connect home s4"
    "cw_workers s4 = (\<lambda>_. Waiting)(0 := Connecting (2, 1), 1 := Connecting (3, 2))" "cw_vector s4 = v"
    using run_reserves [OF s3(1), of 1 "addr_event b"] s3(2) by auto
  then have "fst (holder_connect connect (2, 1) (cw_vector s4)) = Inl (Undefined ''dangling holder'')"
    using v(2) by (simp add: holder_connect_def)
  with s4(1,2) show ?thesis by (intro exI [of _ s4] exI [of _ "(2, 1)"]) simp
qed

end
