(* ===== verification/CommandLine.thy ===== *)
theory CommandLine
  imports Prelude
begin

text \<open>
  The command line parser of the programs (\<open>lib/util/CommandLineArguments\<close>). A parameter holds a
  reference to a variable of its program; the model keeps the value of the variable in the record
  of the parameter. A pointer to a parameter is its index in the template.
\<close>

section \<open>Values and their text\<close>

datatype arg_value = Int_value int | Bool_value bool | String_value string

datatype storage = Int_ref | Bool_ref | String_ref | Implicit_boolean_ref

record parameter =
  p_name :: string
  p_abbreviation :: "char option"
  p_required :: bool
  p_helpText :: string
  p_storage :: storage
  p_value :: arg_value
  p_isSet :: bool

text \<open>\<open>std::stoi\<close>: white space, a sign, decimal digits, and whatever follows them.\<close>

definition is_space :: "char \<Rightarrow> bool" where
  "is_space c \<longleftrightarrow> c = CHR '' '' \<or> (9 \<le> (of_char c :: nat) \<and> (of_char c :: nat) \<le> 13)"

definition is_digit :: "char \<Rightarrow> bool" where
  "is_digit c \<longleftrightarrow> 48 \<le> (of_char c :: nat) \<and> (of_char c :: nat) \<le> 57"

definition digits_value :: "string \<Rightarrow> int" where
  "digits_value ds = foldl (\<lambda>n d. 10 * n + (int (of_char d) - 48)) 0 ds"

datatype stoi_result = Invalid_argument | Too_large | Number int

definition stoi :: "string \<Rightarrow> stoi_result" where
  "stoi text =
     (let s = dropWhile is_space text;
          negative = (s \<noteq> [] \<and> hd s = CHR ''-'');
          s = (if s \<noteq> [] \<and> (hd s = CHR ''-'' \<or> hd s = CHR ''+'') then tl s else s);
          ds = takeWhile is_digit s;
          v = (if negative then - digits_value ds else digits_value ds)
      in if ds = [] then Invalid_argument
         else if v < - (2 ^ 31) \<or> 2 ^ 31 \<le> v then Too_large else Number v)"

text \<open>The \<open>set\<close> of each storage. Only \<open>invalid_argument\<close> of \<open>stoi\<close> is turned into a \<open>parse_error\<close>.\<close>

definition storage_set :: "storage \<Rightarrow> string \<Rightarrow> arg_value res" where
  "storage_set st argument =
     (case st of
        Int_ref \<Rightarrow>
          (case stoi argument of
             Number n \<Rightarrow> Inr (Int_value n)
           | Invalid_argument \<Rightarrow> Inl (Parse_error (''Unable to interpret as integer: '' @ argument))
           | Too_large \<Rightarrow> Inl (Out_of_range ''stoi''))
      | Bool_ref \<Rightarrow>
          if argument \<in> {''yes'', ''true'', ''enabled'', ''1''} then Inr (Bool_value True)
          else if argument \<in> {''no'', ''false'', ''disabled'', ''0''} then Inr (Bool_value False)
          else Inl (Parse_error (''Unable to interpret as boolean value: '' @ argument))
      | String_ref \<Rightarrow> Inr (String_value argument)
      | Implicit_boolean_ref \<Rightarrow> Inr (Bool_value True))"

definition requires_argument :: "parameter \<Rightarrow> bool" where
  "requires_argument p \<longleftrightarrow> p_storage p \<noteq> Implicit_boolean_ref"

definition set_argument :: "string \<Rightarrow> parameter \<Rightarrow> parameter res" where
  "set_argument argument p =
     rbind (storage_set (p_storage p) argument) (\<lambda>v. Inr (p\<lparr>p_value := v, p_isSet := True\<rparr>))"

text \<open>The constructors: an implicit boolean is set to false.\<close>

definition parameter_new :: "arg_value \<Rightarrow> storage \<Rightarrow> string \<Rightarrow> char option \<Rightarrow> bool \<Rightarrow> string \<Rightarrow> parameter" where
  "parameter_new initial st name abbreviation req helpText =
     \<lparr>p_name = name, p_abbreviation = abbreviation, p_required = req, p_helpText = helpText,
      p_storage = st, p_value = (if st = Implicit_boolean_ref then Bool_value False else initial),
      p_isSet = False\<rparr>"

section \<open>Parsing\<close>

fun index_of :: "('a \<Rightarrow> bool) \<Rightarrow> 'a list \<Rightarrow> nat option" where
  "index_of P [] = None"
| "index_of P (x # xs) = (if P x then Some 0 else map_option Suc (index_of P xs))"

definition get_parameter :: "string \<Rightarrow> parameter list \<Rightarrow> nat option" where
  "get_parameter name templ = index_of (\<lambda>p. p_name p = name) templ"

definition get_parameter_abbreviated :: "char \<Rightarrow> parameter list \<Rightarrow> nat option" where
  "get_parameter_abbreviated c templ = index_of (\<lambda>p. p_abbreviation p = Some c) templ"

definition store_argument :: "nat \<Rightarrow> string \<Rightarrow> (parameter list, unit) op" where
  "store_argument i argument templ =
     (case set_argument argument (templ ! i) of
        Inl e \<Rightarrow> (Inl e, templ)
      | Inr p \<Rightarrow> (Inr (), templ[i := p]))"

definition set_empty_parameter_argument :: "nat \<Rightarrow> (parameter list, unit) op" where
  "set_empty_parameter_argument i templ =
     (if \<not> requires_argument (templ ! i) then store_argument i '''' templ
      else (Inl (Parse_error (''Parameter --'' @ p_name (templ ! i) @ '' requires an argument'')), templ))"

fun process_abbreviated :: "string \<Rightarrow> nat option \<Rightarrow> (parameter list, nat option) op" where
  "process_abbreviated [] current templ = (Inr current, templ)"
| "process_abbreviated (c # cs) current templ =
     op_bind (case current of Some i \<Rightarrow> set_empty_parameter_argument i | None \<Rightarrow> op_return ())
       (\<lambda>_ templ'.
          case get_parameter_abbreviated c templ' of
            None \<Rightarrow> (Inl (Parse_error (''Invalid parameter: -'' @ [c])), templ')
          | Some i \<Rightarrow> process_abbreviated cs (Some i) templ')
       templ"

definition process_long :: "string \<Rightarrow> string \<Rightarrow> (parameter list, nat option) op" where
  "process_long helpParamName name templ =
     (if helpParamName = name then (Inl Print_help, templ)
      else
        case get_parameter name templ of
          None \<Rightarrow> (Inl (Parse_error (''Invalid parameter: --'' @ name)), templ)
        | Some i \<Rightarrow> (Inr (Some i), templ))"

definition process_value :: "string \<Rightarrow> nat option \<Rightarrow> (parameter list, nat option) op" where
  "process_value arg current templ =
     (case current of
        Some i \<Rightarrow>
          if requires_argument (templ ! i)
          then op_bind (store_argument i arg) (\<lambda>_. op_return None) templ
          else (Inl (Parse_error (''Parameter --'' @ p_name (templ ! i) @ '' does not require an argument'')), templ)
      | None \<Rightarrow> (Inl (Parse_error (''Unexpected argument: '' @ arg)), templ))"

definition process_argument :: "string \<Rightarrow> string \<Rightarrow> nat option \<Rightarrow> (parameter list, nat option) op" where
  "process_argument helpParamName arg current =
     (if take 1 arg = ''-''
      then (if take 1 (drop 1 arg) = ''-'' then process_long helpParamName (drop 2 arg)
            else process_abbreviated (drop 1 arg) current)
      else process_value arg current)"

fun process_arguments :: "string \<Rightarrow> string list \<Rightarrow> nat option \<Rightarrow> (parameter list, nat option) op" where
  "process_arguments helpParamName [] current templ = (Inr current, templ)"
| "process_arguments helpParamName (arg # args) current templ =
     op_bind (process_argument helpParamName arg current)
       (\<lambda>current'. process_arguments helpParamName args current') templ"

definition check_required :: "(parameter list, unit) op" where
  "check_required templ =
     (case find (\<lambda>p. p_required p \<and> \<not> p_isSet p) templ of
        Some p \<Rightarrow> (Inl (Parse_error (''Required parameter --'' @ p_name p @ '' not provided'')), templ)
      | None \<Rightarrow> (Inr (), templ))"

definition process_command_line :: "string \<Rightarrow> string list \<Rightarrow> (parameter list, unit) op" where
  "process_command_line helpParamName raw =
     op_bind (process_arguments helpParamName raw None) (\<lambda>current.
     op_bind (case current of Some i \<Rightarrow> set_empty_parameter_argument i | None \<Rightarrow> op_return ()) (\<lambda>_.
     check_required))"

section \<open>Help\<close>

definition tab :: string where "tab = ''    ''"
definition newline :: string where "newline = [char_of (10 :: nat)]"

definition calculate_usage_tabs :: "nat \<Rightarrow> nat" where
  "calculate_usage_tabs programNameLength =
     (if programNameLength > 24 then 3 else 3 + programNameLength div 4)"

definition fill_usage_whitespace :: "nat \<Rightarrow> string" where
  "fill_usage_whitespace programNameLength =
     (if programNameLength > 24 then newline @ tab @ tab @ tab
      else replicate (4 - programNameLength mod 4) (CHR '' ''))"

definition usage_of_parameter :: "nat \<Rightarrow> parameter \<Rightarrow> string" where
  "usage_of_parameter tabs p =
     (if p_required p then '''' else ''[ '') @
     (case p_abbreviation p of
        Some c \<Rightarrow> ''[ --'' @ p_name p @ '' | -'' @ [c] @ '' ]''
      | None \<Rightarrow> ''--'' @ p_name p) @
     (if requires_argument p then '' <'' @ p_name p @ ''>'' else '''') @
     (if p_required p then '''' else '' ]'') @ newline @ concat (replicate tabs tab)"

definition print_usage :: "string \<Rightarrow> parameter list \<Rightarrow> string" where
  "print_usage programName templ =
     (let tabs = calculate_usage_tabs (length programName); usage_s = ''Usage:  '';
          fill = fill_usage_whitespace (length programName)
      in newline @ usage_s @ programName @ fill @ ''--help'' @ newline @ newline @
         usage_s @ programName @ fill @ concat (map (usage_of_parameter tabs) templ) @ newline)"

definition column_size_of_name :: "string \<Rightarrow> nat" where
  "column_size_of_name paramName = length tab + 2 + length paramName + 1"

definition column_size :: "parameter \<Rightarrow> nat" where
  "column_size p =
     column_size_of_name (p_name p) + (if p_abbreviation p = None then 0 else 5) +
     (if requires_argument p then 8 else 0)"

text \<open>
  The loop \<open>for (int filler = ...; filler--; )\<close> counts down to zero: from a negative start it does not
  get there before the \<open>int\<close> overflows.
\<close>

definition fill_column :: "int \<Rightarrow> nat \<Rightarrow> string res" where
  "fill_column columnSizeInTabs columnDataSize =
     (let filler = columnSizeInTabs - int (columnDataSize div 4) - 1
      in if filler < 0 then Inl (Undefined ''overflow of filler'')
         else Inr (replicate (4 - columnDataSize mod 4) (CHR '' '') @ concat (replicate (nat filler) tab)))"

definition tabs_required :: "parameter \<Rightarrow> int" where
  "tabs_required p = int ((column_size p + length tab - 1) div 4)"

definition help_of_parameter :: "int \<Rightarrow> parameter \<Rightarrow> string res" where
  "help_of_parameter tabs p =
     rbind (fill_column tabs (column_size p)) (\<lambda>fill.
       Inr (tab @ ''--'' @ p_name p @
            (case p_abbreviation p of Some c \<Rightarrow> '' | -'' @ [c] | None \<Rightarrow> '''') @
            (if requires_argument p then '' <value>'' else '''') @ fill @ ''| '' @
            (if p_required p then ''Required.'' else ''Optional.'') @ '' '' @ p_helpText p @ newline))"

text \<open>\<open>tabs\<close> is not initialized in the code: what it happens to be is an argument.\<close>

definition help_tabs :: "int \<Rightarrow> parameter list \<Rightarrow> int" where
  "help_tabs tabs0 templ =
     fold (\<lambda>p tabs. if tabs_required p > tabs then tabs_required p else tabs) templ tabs0"

definition print_help :: "int \<Rightarrow> string \<Rightarrow> string \<Rightarrow> parameter list \<Rightarrow> string res" where
  "print_help tabs0 programName helpParamName templ =
     (let tabs = help_tabs tabs0 templ in
      rbind (fill_column tabs (column_size_of_name helpParamName)) (\<lambda>fill.
      rbind (rmap (help_of_parameter tabs) templ) (\<lambda>rows.
      Inr (print_usage programName templ @ ''Parameters:'' @ newline @ newline @
           tab @ ''--'' @ helpParamName @ fill @ ''| Print this help and exit.'' @ newline @
           concat rows @ newline))))"

text \<open>\<open>processOrPrintUsageAndExit\<close>: carry on, exit with a status and a text, or an exception that is not caught.\<close>

datatype cli_outcome = Proceed | Exit_with int string | Escapes exn

definition process_or_print_usage_and_exit ::
  "int \<Rightarrow> string \<Rightarrow> string \<Rightarrow> string list \<Rightarrow> parameter list \<Rightarrow> cli_outcome \<times> parameter list" where
  "process_or_print_usage_and_exit tabs0 programName helpParamName raw templ =
     (case process_command_line helpParamName raw templ of
        (Inr _, templ') \<Rightarrow> (Proceed, templ')
      | (Inl (Parse_error what), templ') \<Rightarrow>
          (Exit_with 1 (''Error: '' @ what @ newline @ print_usage programName templ'), templ')
      | (Inl Print_help, templ') \<Rightarrow>
          ((case print_help tabs0 programName ''help'' templ' of
              Inr text \<Rightarrow> Exit_with 1 text | Inl e \<Rightarrow> Escapes e), templ')
      | (Inl e, templ') \<Rightarrow> (Escapes e, templ'))"

section \<open>What parsing establishes\<close>

lemma index_of_Some: "index_of P xs = Some i \<Longrightarrow> i < length xs \<and> P (xs ! i) \<and> (\<forall>j<i. \<not> P (xs ! j))"
  by (induction xs arbitrary: i) (auto simp: nth_Cons' less_Suc_eq_0_disj split: if_splits)

lemma index_of_None: "index_of P xs = None \<longleftrightarrow> (\<forall>x \<in> set xs. \<not> P x)"
  by (induction xs) auto

text \<open>Parsing changes values and marks, never which parameters there are.\<close>

definition same_template :: "parameter list \<Rightarrow> parameter list \<Rightarrow> bool" where
  "same_template templ templ' \<longleftrightarrow>
     list_all2 (\<lambda>p p'. p_name p' = p_name p \<and> p_abbreviation p' = p_abbreviation p \<and>
       p_required p' = p_required p \<and> p_storage p' = p_storage p \<and> (p_isSet p \<longrightarrow> p_isSet p')) templ templ'"

lemma same_template_refl [simp]: "same_template templ templ"
  by (simp add: same_template_def list_all2_refl)

lemma same_template_trans: "same_template t u \<Longrightarrow> same_template u v \<Longrightarrow> same_template t v"
  unfolding same_template_def by (erule (1) list_all2_trans [rotated]) auto

lemma same_template_length: "same_template t u \<Longrightarrow> length u = length t"
  by (simp add: same_template_def list_all2_lengthD)

lemma keeps_store [intro]: "keeps (same_template t) (store_argument i arg)"
proof -
  have "same_template u (snd (store_argument i arg u))" for u
    by (cases "i < length u")
      (auto simp: store_argument_def set_argument_def rbind_def same_template_def list_all2_conv_all_nth
        nth_list_update list_update_beyond split: sum.splits)
  then show ?thesis unfolding keeps_def using same_template_trans by blast
qed

lemma keeps_set_empty [intro]: "keeps (same_template t) (set_empty_parameter_argument i)"
  using keeps_store unfolding keeps_def set_empty_parameter_argument_def by auto

lemma keeps_abbreviated [intro]: "keeps (same_template t) (process_abbreviated cs current)"
proof (induction cs arbitrary: current)
  case Nil
  show ?case by (simp add: keeps_def)
next
  case (Cons c cs)
  have first: "keeps (same_template t) (case current of Some i \<Rightarrow> set_empty_parameter_argument i | None \<Rightarrow> op_return ())"
    by (cases current) auto
  have rest: "keeps (same_template t) (\<lambda>templ'. case get_parameter_abbreviated c templ' of
      None \<Rightarrow> (Inl (Parse_error (''Invalid parameter: -'' @ [c])), templ')
    | Some i \<Rightarrow> process_abbreviated cs (Some i) templ')"
    using Cons unfolding keeps_def by (auto split: option.splits)
  show ?case using keeps_bind [OF first rest] unfolding keeps_def by simp
qed

lemma keeps_argument [intro]: "keeps (same_template t) (process_argument help arg current)"
proof -
  have "keeps (same_template t) (process_long help name)" for name
    by (simp add: keeps_def process_long_def split: option.split)
  moreover have "keeps (same_template t) (process_value arg current)"
  proof (cases current)
    case (Some i)
    have "keeps (same_template t) (op_bind (store_argument i arg) (\<lambda>_. op_return (None :: nat option)))" by auto
    with Some show ?thesis unfolding keeps_def process_value_def by auto
  qed (simp add: keeps_def process_value_def)
  ultimately show ?thesis by (auto simp: process_argument_def)
qed

lemma keeps_arguments [intro]: "keeps (same_template t) (process_arguments help args current)"
proof (induction args arbitrary: current)
  case Nil
  show ?case by (simp add: keeps_def)
next
  case (Cons a as)
  from keeps_bind [OF keeps_argument Cons] show ?case unfolding keeps_def by simp
qed

lemma process_command_line_keeps: "same_template t (snd (process_command_line help raw t))"
proof -
  have "keeps (same_template t) (case current of Some i \<Rightarrow> set_empty_parameter_argument i | None \<Rightarrow> op_return ())"
    for current by (cases current) auto
  moreover have "keeps (same_template t) check_required"
    by (simp add: keeps_def check_required_def split: option.split)
  ultimately have "keeps (same_template t) (process_command_line help raw)"
    unfolding process_command_line_def by (intro keeps_bind) auto
  then show ?thesis by (simp add: keeps_def)
qed

text \<open>If it returns, every required parameter was given.\<close>

lemma process_command_line_required:
  assumes "process_command_line help raw t = (Inr (), t')" "p \<in> set t'" "p_required p"
  shows "p_isSet p"
proof -
  have last: "r = Inr () \<Longrightarrow> check_required u = (r, t') \<Longrightarrow> p_isSet p" for u r
    using assms(2,3) by (auto simp: check_required_def find_None_iff split: option.splits)
  show ?thesis
    using assms(1) last unfolding process_command_line_def op_bind_def
    by (auto split: prod.splits sum.splits)
qed

section \<open>Parameters with their values\<close>

definition long_arg :: "string \<Rightarrow> string" where "long_arg name = ''--'' @ name"

definition plain_value :: "string \<Rightarrow> bool" where "plain_value v \<longleftrightarrow> take 1 v \<noteq> ''-''"

lemma process_argument_long: "process_argument help (long_arg name) current = process_long help name"
  by (simp add: process_argument_def long_arg_def)

lemma process_argument_value:
  "plain_value v \<Longrightarrow> process_argument help v current = process_value v current"
  by (simp add: process_argument_def plain_value_def)

lemma process_one_value:
  assumes "name \<noteq> help" "get_parameter name t = Some i" "requires_argument (t ! i)" "plain_value v"
    and "set_argument v (t ! i) = Inr p"
  shows "process_arguments help (long_arg name # v # args) current t =
    process_arguments help args None (t[i := p])"
  using assms
  by (simp add: process_argument_long process_argument_value process_long_def process_value_def
      op_bind_def store_argument_def)

text \<open>A long parameter after a flag overwrites the pointer to it: the flag is never set.\<close>

lemma flag_dropped:
  assumes "flag \<noteq> help" "get_parameter flag t = Some i"
  shows "process_arguments help (long_arg flag # long_arg name # args) None t =
    process_arguments help (long_arg name # args) None t"
  using assms by (simp add: process_argument_long process_long_def op_bind_def)

text \<open>At the end of the line, or before an abbreviated parameter, it is set.\<close>

lemma flag_last:
  assumes "flag \<noteq> help" "get_parameter flag t = Some i" "\<not> requires_argument (t ! i)"
  shows "process_command_line help [long_arg flag] t =
    check_required (t[i := (t ! i)\<lparr>p_value := Bool_value True, p_isSet := True\<rparr>])"
proof -
  have "p_storage (t ! i) = Implicit_boolean_ref" using assms(3) by (simp add: requires_argument_def)
  with assms show ?thesis
    by (simp add: process_command_line_def op_bind_def [of "process_arguments help [long_arg flag] None"]
        process_argument_long process_long_def op_bind_def [of "process_long help flag"]
        set_empty_parameter_argument_def store_argument_def set_argument_def storage_set_def op_bind_def)
qed

text \<open>A column as wide as a whole number of tabs, if it is the widest, is never filled.\<close>

lemma fill_widest:
  assumes "0 < n"
  shows "fill_column (int ((4 * n + length tab - 1) div 4)) (4 * n) = Inl (Undefined ''overflow of filler'')"
proof -
  have "(4 * n + length tab - 1) div 4 = n" using assms by (simp add: tab_def)
  then show ?thesis by (simp add: fill_column_def)
qed

end
