(* ===== verification/Programs.thy ===== *)
theory Programs
  imports Poller CrawlRun Connections CommandLine
begin

text \<open>
  The programs (\<open>pool/main.cpp\<close>, \<open>mbus-relayd/main.cpp\<close>, \<open>utils/crawler/main.cpp\<close>): their
  parameters, what they are set up with, and how they end when that fails.
\<close>

section \<open>Parameters\<close>

datatype 'c startup = Started 'c | Ended int string | Crashed exn

definition string_parameter :: "string \<Rightarrow> string \<Rightarrow> char option \<Rightarrow> bool \<Rightarrow> string \<Rightarrow> parameter" where
  "string_parameter v = parameter_new (String_value v) String_ref"

definition int_parameter :: "int \<Rightarrow> string \<Rightarrow> char option \<Rightarrow> bool \<Rightarrow> string \<Rightarrow> parameter" where
  "int_parameter v = parameter_new (Int_value v) Int_ref"

text \<open>The overload for \<open>bool &\<close> makes the parameter a flag.\<close>

definition debug_parameter :: parameter where
  "debug_parameter =
     parameter_new (Bool_value False) Implicit_boolean_ref ''debug'' (Some (CHR ''D'')) False ''Enable debug logging.''"

definition pool_template :: "parameter list" where
  "pool_template =
     [int_parameter 3032 ''port'' (Some (CHR ''p'')) False ''Port to listen on for incoming stratum connections.'',
      string_parameter ''127.0.0.1'' ''rpc-hostname'' (Some (CHR ''h'')) False
        ''Hostname used to connect to the full node RPC interface.'',
      int_parameter 42068 ''rpc-port'' None False ''Port used to connect to the full node RPC interface.'',
      string_parameter '''' ''rpc-user'' (Some (CHR ''u'')) True
        ''Username for full node RPC interface authentication.'',
      string_parameter '''' ''rpc-password'' (Some (CHR ''P'')) True
        ''Password for full node RPC interface authentication.'',
      string_parameter ''/FreshGRLC.net/NG/'' ''coinbase-signature'' (Some (CHR ''S'')) False
        ''Signature to encode in coinbase transactions.'',
      string_parameter ''sha256d'' ''algorithm'' (Some (CHR ''a'')) False ''Mining algorithm.'',
      debug_parameter]"

definition relay_template :: "parameter list" where
  "relay_template =
     [int_parameter 9094 ''port'' (Some (CHR ''p'')) False ''Port to listen on.'', debug_parameter]"

definition default_network_magic :: string where "default_network_magic = ''d2c6b6db''"

definition crawler_template :: "parameter list" where
  "crawler_template =
     [string_parameter '''' ''hostname'' (Some (CHR ''h'')) True ''Hostname used for initial connection.'',
      int_parameter 42069 ''port'' (Some (CHR ''P'')) False ''Port used for initial connection.'',
      string_parameter default_network_magic ''magic'' (Some (CHR ''M'')) False
        ''4-byte network magic (in hex, without prefix).'',
      debug_parameter]"

text \<open>The variables behind the parameters.\<close>

fun int_of :: "arg_value \<Rightarrow> int" where "int_of (Int_value n) = n" | "int_of _ = 0"
fun string_of :: "arg_value \<Rightarrow> string" where "string_of (String_value s) = s" | "string_of _ = ''''"
fun bool_of :: "arg_value \<Rightarrow> bool" where "bool_of (Bool_value b) = b" | "bool_of _ = False"

definition start_program ::
  "int \<Rightarrow> string \<Rightarrow> string list \<Rightarrow> parameter list \<Rightarrow> (parameter list \<Rightarrow> 'c startup) \<Rightarrow> 'c startup" where
  "start_program tabs0 programName raw templ continue =
     (case process_or_print_usage_and_exit tabs0 programName ''help'' raw templ of
        (Proceed, templ') \<Rightarrow> continue templ'
      | (Exit_with status out, _) \<Rightarrow> Ended status out
      | (Escapes e, _) \<Rightarrow> Crashed e)"

section \<open>The pool\<close>

record stratum_configuration =
  cf_port :: int
  cf_hashingAlgorithm :: string
  cf_coinbaseSignature :: string
  cf_initialDifficulty :: dbl

record pool_arguments =
  pa_configuration :: stratum_configuration
  pa_rpcUsername :: string
  pa_rpcPassword :: string
  pa_rpcHostname :: string
  pa_rpcPort :: int
  pa_debug :: bool

definition pool_arguments_of :: "parameter list \<Rightarrow> pool_arguments" where
  "pool_arguments_of templ =
     (let v = (\<lambda>i. p_value (templ ! i)) in
      \<lparr>pa_configuration =
         \<lparr>cf_port = int_of (v 0), cf_hashingAlgorithm = string_of (v 6),
          cf_coinbaseSignature = string_of (v 5), cf_initialDifficulty = Fin 10\<rparr>,
       pa_rpcUsername = string_of (v 3), pa_rpcPassword = string_of (v 4),
       pa_rpcHostname = string_of (v 1), pa_rpcPort = int_of (v 2), pa_debug = bool_of (v 7)\<rparr>)"

definition pool_start :: "int \<Rightarrow> string \<Rightarrow> string list \<Rightarrow> pool_arguments startup" where
  "pool_start tabs0 programName raw =
     start_program tabs0 programName raw pool_template (\<lambda>templ. Started (pool_arguments_of templ))"

text \<open>The level of the whole program and of its modules.\<close>

definition enable_debug_logging :: "bool \<Rightarrow> log_level \<times> (string \<Rightarrow> log_level) \<Rightarrow> log_level \<times> (string \<Rightarrow> log_level)" where
  "enable_debug_logging debug levels =
     (if debug
      then (DEBUG, (snd levels)(''mining'' := DEBUG, ''bitcoinrpc'' := DEBUG, ''stratum'' := DEBUG))
      else levels)"

text \<open>The same function of the relay and of the crawler.\<close>

definition relay_debug_logging :: "bool \<Rightarrow> log_level \<times> (string \<Rightarrow> log_level) \<Rightarrow> log_level \<times> (string \<Rightarrow> log_level)" where
  "relay_debug_logging debug levels = (if debug then (DEBUG, (snd levels)(''relayd'' := DEBUG)) else levels)"

definition crawler_debug_logging :: "bool \<Rightarrow> log_level \<times> (string \<Rightarrow> log_level) \<Rightarrow> log_level \<times> (string \<Rightarrow> log_level)" where
  "crawler_debug_logging debug levels =
     (if debug then (DEBUG, (snd levels)(''network'' := DEBUG, ''bitcoinp2p'' := DEBUG)) else levels)"

text \<open>
  The objects of \<open>main\<close>, in the order they are made: the connector, the server, which asks it for the
  state of the network, and the registration. \<open>hasher\<close> is what \<open>get_hashplugin\<close> gives.
\<close>

definition pool_bring_up ::
  "(bytes \<Rightarrow> hash256) \<Rightarrow> u32 \<Rightarrow> int \<Rightarrow> hash_plugin res \<Rightarrow> stratum_configuration \<Rightarrow> 'j rpc \<Rightarrow> 'j daemon res" where
  "pool_bring_up sha256d now created hasher configuration r =
     rbind (daemon_new created r) (\<lambda>d.
     rbind hasher (\<lambda>h.
       case stratum_initializer now d of
         (Inl e, _) \<Rightarrow> Inl e
       | (Inr state, d') \<Rightarrow>
           Inr (register_update_notifications_for
             (server_new sha256d h (cf_coinbaseSignature configuration) state) d')))"

text \<open>The handler of \<open>main\<close> catches runtime errors only; the exceptions of the JSON library are none.\<close>

definition main_result :: "'a res \<Rightarrow> 'a startup" where
  "main_result r =
     (case r of
        Inr x \<Rightarrow> Started x
      | Inl (Runtime_error what) \<Rightarrow> Ended 1 (''Fatal error or unhandled exception: '' @ what)
      | Inl e \<Rightarrow> Crashed e)"

text \<open>
  The program as a whole; \<open>connect_rpc\<close> is the connection to the node with the host, the port, the name
  and the password given. Once everything is up, \<open>main\<close> only waits.
\<close>

definition pool_main ::
  "(bytes \<Rightarrow> hash256) \<Rightarrow> u32 \<Rightarrow> int \<Rightarrow> (string \<Rightarrow> hash_plugin res) \<Rightarrow> (string \<Rightarrow> int \<Rightarrow> string \<Rightarrow> string \<Rightarrow> 'j rpc) \<Rightarrow>
   int \<Rightarrow> string \<Rightarrow> string list \<Rightarrow> 'j daemon startup" where
  "pool_main sha256d now created get_hashplugin connect_rpc tabs0 programName raw =
     (case pool_start tabs0 programName raw of
        Ended status out \<Rightarrow> Ended status out
      | Crashed e \<Rightarrow> Crashed e
      | Started a \<Rightarrow>
          main_result (pool_bring_up sha256d now created
            (get_hashplugin (cf_hashingAlgorithm (pa_configuration a))) (pa_configuration a)
            (connect_rpc (pa_rpcHostname a) (pa_rpcPort a) (pa_rpcUsername a) (pa_rpcPassword a))))"

section \<open>The relay and the crawler\<close>

definition relay_start :: "int \<Rightarrow> string \<Rightarrow> string list \<Rightarrow> (int \<times> bool) startup" where
  "relay_start tabs0 programName raw =
     start_program tabs0 programName raw relay_template
       (\<lambda>templ. Started (int_of (p_value (templ ! 0)), bool_of (p_value (templ ! 1))))"

text \<open>
  \<open>main\<close> of the relay: a server with a listener and its thread, which is never started, as \<open>run\<close> listens
  itself and its error is the status of the program. \<open>None\<close>: it goes on listening.
\<close>

definition relay_main ::
  "int \<Rightarrow> kernel \<Rightarrow> (socket_base \<Rightarrow> ('s, unit) op) \<Rightarrow> int list \<Rightarrow> 's \<Rightarrow> int \<Rightarrow> string \<Rightarrow> string list \<Rightarrow>
   (int \<times> 's) startup option" where
  "relay_main created k makeConnection fds s tabs0 programName raw =
     (case relay_start tabs0 programName raw of
        Ended status out \<Rightarrow> Some (Ended status out)
      | Crashed e \<Rightarrow> Some (Crashed e)
      | Started (port, debug) \<Rightarrow>
          (case thread_new created of
             Inl e \<Rightarrow> Some (Crashed e)
           | Inr listenerThread \<Rightarrow>
               map_option (\<lambda>(status, _, s'). Started (status, s'))
                 (manager_listen k makeConnection fds (fst (listener_move (listener_new port True))) s)))"

text \<open>
  The crawler's magic, and the manager with the first node in its queue; the port becomes 16 bits wide.
  The four workers are created before that (\<open>created\<close> are the answers of \<open>pthread_create\<close>).
\<close>

definition crawler_start ::
  "(nat \<Rightarrow> int) \<Rightarrow> int \<Rightarrow> string \<Rightarrow> string list \<Rightarrow> (bytes \<times> crawl) startup" where
  "crawler_start created tabs0 programName raw =
     start_program tabs0 programName raw crawler_template (\<lambda>templ.
       let host = string_of (p_value (templ ! 0)); port = int_of (p_value (templ ! 1));
           magic = from_hex (string_of (p_value (templ ! 2)))
       in if length magic \<noteq> 4
          then Ended 1 (''Network magic needs to be 4 bytes, e.g. '' @ default_network_magic)
          else main_result (rbind (rmap (\<lambda>w. thread_new (created w)) [0..<4]) (\<lambda>_.
            Inr (magic, crawl_new host (word_of_int port)))))"

text \<open>What the crawler's loop prints: the connected nodes, the number of others, and of those waiting.\<close>

definition crawler_report :: "crawl \<Rightarrow> string list \<times> int \<times> nat" where
  "crawler_report s =
     (let nodeList = get_node_list False (cw_vector s);
          toTry = messages_waiting (cw_queue s);
          notAvailable = int (total_nodes (cw_vector s)) - int (length nodeList)
      in (nodeList, notAvailable, toTry))"

section \<open>What a started program has\<close>

lemma start_program_Started:
  assumes "start_program tabs0 name raw templ (\<lambda>t. Started (f t)) = Started c"
  obtains t where "process_command_line ''help'' raw templ = (Inr (), t)" "c = f t"
  using assms
  by (auto simp: start_program_def process_or_print_usage_and_exit_def split: prod.splits sum.splits exn.splits)

lemma connected_nodes_eq: "connected_nodes v = length (filter holder_connected (nv_nodes v))"
proof -
  have "fold (\<lambda>h n. if holder_connected h then n + 1 else n) hs k = k + length (filter holder_connected hs)" for hs k
    by (induction hs arbitrary: k) auto
  then show ?thesis by (simp add: connected_nodes_def)
qed

lemma crawler_report_counts:
  "crawler_report s = (nodes, notAvailable, toTry) \<Longrightarrow>
   length nodes = connected_nodes (cw_vector s) \<and>
   int (length nodes) + notAvailable = int (total_nodes (cw_vector s)) \<and> 0 \<le> notAvailable"
  by (auto simp: crawler_report_def get_node_list_def connected_nodes_eq total_nodes_def Let_def)

text \<open>
  Started with the two required parameters alone, the pool gets them as they were typed, and the
  defaults for everything else.
\<close>

lemma pool_started_with_defaults:
  assumes "take 1 user \<noteq> ''-''" "take 1 password \<noteq> ''-''"
  shows "pool_start tabs0 name [''--rpc-user'', user, ''--rpc-password'', password] = Started
    \<lparr>pa_configuration = \<lparr>cf_port = 3032, cf_hashingAlgorithm = ''sha256d'',
       cf_coinbaseSignature = ''/FreshGRLC.net/NG/'', cf_initialDifficulty = Fin 10\<rparr>,
     pa_rpcUsername = user, pa_rpcPassword = password, pa_rpcHostname = ''127.0.0.1'', pa_rpcPort = 42068,
     pa_debug = False\<rparr>"
proof -
  define t1 where "t1 = pool_template[3 := (pool_template ! 3)\<lparr>p_value := String_value user, p_isSet := True\<rparr>]"
  define t2 where "t2 = t1[4 := (t1 ! 4)\<lparr>p_value := String_value password, p_isSet := True\<rparr>]"
  have "process_command_line ''help'' [''--rpc-user'', user, ''--rpc-password'', password] pool_template = (Inr (), t2)"
  proof -
    note tmpl = pool_template_def string_parameter_def int_parameter_def debug_parameter_def parameter_new_def
    have t1: "get_parameter ''rpc-user'' pool_template = Some 3" "requires_argument (pool_template ! 3)"
      "set_argument user (pool_template ! 3) = Inr ((pool_template ! 3)\<lparr>p_value := String_value user, p_isSet := True\<rparr>)"
      by (simp_all add: tmpl get_parameter_def requires_argument_def set_argument_def storage_set_def)
    have t2: "get_parameter ''rpc-password'' t1 = Some 4" "requires_argument (t1 ! 4)"
      "set_argument password (t1 ! 4) = Inr ((t1 ! 4)\<lparr>p_value := String_value password, p_isSet := True\<rparr>)"
      by (simp_all add: t1_def tmpl get_parameter_def requires_argument_def set_argument_def storage_set_def)
    have plain: "plain_value user" "plain_value password" using assms by (simp_all add: plain_value_def)
    have "process_arguments ''help'' [long_arg ''rpc-user'', user, long_arg ''rpc-password'', password] None pool_template =
        process_arguments ''help'' [] None t2"
      using process_one_value [OF _ t1(1,2) plain(1) t1(3), of "''help''"]
        process_one_value [OF _ t2(1,2) plain(2) t2(3), of "''help''"] by (simp add: t1_def [symmetric] t2_def [symmetric])
    moreover have "check_required t2 = (Inr (), t2)"
      by (simp add: check_required_def t2_def t1_def) (simp add: tmpl)
    ultimately show ?thesis by (simp add: process_command_line_def op_bind_def long_arg_def)
  qed
  then show ?thesis
    by (simp add: pool_start_def start_program_def process_or_print_usage_and_exit_def pool_arguments_of_def Let_def
        t2_def t1_def) (simp add: pool_template_def string_parameter_def int_parameter_def debug_parameter_def parameter_new_def)
qed

lemma pool_main_Started:
  assumes "pool_main sha256d now created get_hashplugin connect_rpc tabs0 programName raw = Started d"
  obtains a where "pool_start tabs0 programName raw = Started a"
    and "pool_bring_up sha256d now created (get_hashplugin (cf_hashingAlgorithm (pa_configuration a))) (pa_configuration a)
      (connect_rpc (pa_rpcHostname a) (pa_rpcPort a) (pa_rpcUsername a) (pa_rpcPassword a)) = Inr d"
  using assms by (auto simp: pool_main_def main_result_def split: startup.splits sum.splits exn.splits)

end
