(* ===== verification/Network_Properties.thy ===== *)
theory Network_Properties
  imports Instances Programs Connections Locks
begin

text \<open>
  What makes the rest of the program correct: queues, threads and workers, the message bus and its
  relay, the command line, the node behind the RPC connection, and the peer-to-peer network.
\<close>

section \<open>Queues, workers, threads\<close>

text \<open>
  C20. Any number of threads run the statements of the queue's methods in any interleaving. At most one
  of them is behind the lock; no consumer finds the queue empty behind the semaphore; and the messages
  that came out, in the order they were taken, followed by those that are left, are the messages that
  went in. What is left is the content of the queue whenever nobody holds the lock.
\<close>

theorem queue_is_fifo:
  assumes "locked_reachable threads s"
  shows "(\<forall>r \<in> set (lq_received s). \<exists>x. r = Inr x) \<and>
    (\<exists>left. map Inr (lq_sent s) = lq_received s @ map Inr left \<and>
       (lq_mutex s = None \<longrightarrow> q_items (lq_queue s) = left)) \<and>
    (\<forall>i j. i < length (lq_places s) \<and> j < length (lq_places s) \<and>
       inside (lq_places s ! i) \<and> inside (lq_places s ! j) \<longrightarrow> i = j)"
  using locked_queue_fifo [OF assms] one_at_a_time [OF assms] by blast

text \<open>One thread has sent two messages and is back behind the lock; another has claimed one of them meanwhile.\<close>

definition two_threads :: "nat locked_queue" where
  "two_threads = \<lparr>lq_queue = \<lparr>q_semaphore = 0, q_items = [7, 8]\<rparr>, lq_mutex = Some 0,
     lq_places = [Pushed 8, Claimed], lq_sent = [7], lq_received = []\<rparr>"

lemma two_threads_reachable: "locked_reachable 2 two_threads"
proof -
  note eval = move_to_def set_items_def at_place_def lock_aquire_iff sem_wait_def
  let ?s = "\<lambda>n xs m ps sent. \<lparr>lq_queue = \<lparr>q_semaphore = n, q_items = xs\<rparr>, lq_mutex = m, lq_places = ps,
      lq_sent = sent, lq_received = []\<rparr> :: nat locked_queue"
  have s0: "locked_reachable 2 (?s 0 [] None [Outside, Outside] [])"
    using locked_reachable.start [of 2] by (simp add: locked_queue_new_def queue_new_def numeral_2_eq_2)
  have s1: "locked_reachable 2 (?s 0 [] None [Before_push 7, Outside] [])"
    by (rule locked_run [OF s0 locked_step.call_queue [of 0]]) (simp_all add: eval)
  have s2: "locked_reachable 2 (?s 0 [] (Some 0) [Push_locked 7, Outside] [])"
    by (rule locked_run [OF s1 locked_step.lock_queue [of 0 7 _ "Some 0"]]) (simp_all add: eval)
  have s3: "locked_reachable 2 (?s 0 [7] (Some 0) [Pushed 7, Outside] [])"
    by (rule locked_run [OF s2 locked_step.push_back [of 0 7]]) (simp_all add: eval)
  have s4: "locked_reachable 2 (?s 1 [7] (Some 0) [Leaving, Outside] [7])"
    by (rule locked_run [OF s3 locked_step.post [of 0 7]]) (simp_all add: eval)
  have s5: "locked_reachable 2 (?s 0 [7] (Some 0) [Leaving, Claimed] [7])"
    by (rule locked_run [OF s4 locked_step.wait [of 1 _ "\<lparr>q_semaphore = 0, q_items = [7]\<rparr>"]]) (simp_all add: eval)
  have s6: "locked_reachable 2 (?s 0 [7] None [Outside, Claimed] [7])"
    by (rule locked_run [OF s5 locked_step.unlock [of 0]]) (simp_all add: eval)
  have s7: "locked_reachable 2 (?s 0 [7] None [Before_push 8, Claimed] [7])"
    by (rule locked_run [OF s6 locked_step.call_queue [of 0]]) (simp_all add: eval)
  have s8: "locked_reachable 2 (?s 0 [7] (Some 0) [Push_locked 8, Claimed] [7])"
    by (rule locked_run [OF s7 locked_step.lock_queue [of 0 8 _ "Some 0"]]) (simp_all add: eval)
  have "locked_reachable 2 (?s 0 [7, 8] (Some 0) [Pushed 8, Claimed] [7])"
    by (rule locked_run [OF s8 locked_step.push_back [of 0 8]]) (simp_all add: eval)
  then show ?thesis by (simp add: two_threads_def)
qed

theorem queue_is_fifo_witness:
  "\<exists>left. map Inr (lq_sent two_threads) = lq_received two_threads @ map Inr left"
  using queue_is_fifo [OF two_threads_reachable] by blast

text \<open>
  C21. A worker whose handler fails on none of the messages handles every one of them, in the order
  they were queued, and then waits with an empty queue.
\<close>

theorem worker_handles_all:
  assumes "queue_ok q" "process_all f (q_items q) s = (Inr (), s')"
  shows "\<exists>q'. worker_main f (length (q_items q)) q s = (Inr (), q', s') \<and> queue_ok q' \<and> q_items q' = []"
proof -
  have "\<exists>q'. worker_main f (length (q_items q)) q s = (Inr (), q', s') \<and> queue_ok q' \<and> q_items q' = []"
    using assms
  proof (induction "q_items q" arbitrary: q s)
    case (Cons x xs)
    have items: "q_items q = x # xs" using Cons.hyps(2) by simp
    let ?q = "q\<lparr>q_semaphore := q_semaphore q - 1, q_items := xs\<rparr>"
    obtain r s2 where run: "f x s = (r, s2)" by fastforce
    with Cons.prems(2) items have r: "r = Inr ()" "process_all f xs s2 = (Inr (), s')"
      by (cases r; simp add: op_bind_def)+
    have "wait_for_message q = Some (Inr x, ?q)" "queue_ok ?q"
      using Cons.prems(1) items by (simp_all add: wait_for_message_eq queue_ok_def)
    with Cons.hyps(1) [of ?q s2] run r items show ?case by simp
  qed simp
  then show ?thesis .
qed

theorem worker_handles_all_witness:
  "\<exists>q'. worker_main (\<lambda>x s. (Inr (), s @ [x])) (Suc (Suc 0)) \<lparr>q_semaphore = 2, q_items = [5 :: nat, 6]\<rparr> [] = (Inr (), q', [5, 6]) \<and>
     q_items q' = []"
  using worker_handles_all [of "\<lparr>q_semaphore = 2, q_items = [5 :: nat, 6]\<rparr>" "\<lambda>x s. (Inr (), s @ [x])" "[]" "[5, 6]"]
  by (auto simp: queue_ok_def op_bind_def)

text \<open>
  A thread does not enter \<open>main\<close> before it was started, enters it at most once, and its lock is
  held exactly while it waits to be started, whatever the order of the steps.
\<close>

lemma thread_waits_for_start:
  assumes "thread_reachable t"
  shows "th_mains t \<le> 1 \<and> (th_lockHeld t \<longleftrightarrow> th_state t = Waiting_to_start) \<and>
    (th_state t = Waiting_to_start \<longrightarrow> th_mains t = 0 \<and> th_progress t = Blocked)"
  using thread_reachable_inv [OF assms] by (auto simp: thread_inv_def split: if_splits)

section \<open>The message bus\<close>

text \<open>
  C18. However the network cuts the stream of the bus into packets, the parser of the stream hands
  every message that was sent to the handler, whole and in order, and keeps nothing back.
\<close>

theorem bus_stream_delivers:
  assumes "\<forall>payload \<in> set payloads. length payload \<le> max_message_size"
    and "concat packets = concat (map (write_ref []) payloads)"
    and "process_all handle (map (write_ref []) payloads) s = (Inr (), s')"
  shows "feed message_stream_size handle packets [] s = (Inr (), [], s')"
proof -
  have "message_stream_size [] = Inr 0" by (simp add: message_stream_size_eq)
  moreover have "\<forall>m \<in> set (map (write_ref []) payloads). m \<noteq> [] \<and> message_stream_size m = Inr (length m)"
  proof -
    have "0 < length (write_ref [] payload)" for payload by (simp add: byte_simps)
    then have "write_ref [] payload \<noteq> []" for payload by blast
    with assms(1) encoded_frame show ?thesis by simp
  qed
  ultimately show ?thesis using assms(2,3) by (intro bus_framing.feed_messages)
qed

theorem bus_stream_delivers_witness:
  "feed message_stream_size (\<lambda>m s. (Inr (), s @ [m])) [[1, 0], [0, 0, 7, 2], [0, 0, 0, 8, 9]] [] [] =
     (Inr (), [], [write_ref [] [7], write_ref [] [8, 9]])"
proof -
  have mem: "u32_mem 1 = [1, 0, 0, 0]" "u32_mem 2 = [2, 0, 0, 0]" by code_simp+
  show ?thesis
    by (rule bus_stream_delivers [where payloads = "[[7], [8, 9]]"])
      (simp_all add: byte_simps mem max_message_size_def op_bind_def)
qed

text \<open>
  C27. A packet is decoded to a message exactly when it is the encoding of three strings, not too
  long, from which the factory makes that message: nothing else is accepted, and nothing is lost.
\<close>

theorem decoded_iff_encoding:
  "do_decode inst message = Inr m \<longleftrightarrow>
   (\<exists>c t x. message = write_ref [] (write_parts c t x) \<and> length message \<le> max_message_size \<and>
      inst c t x = Inr m)"
  by (rule do_decode_iff)

section \<open>The command line\<close>

text \<open>
  C37. When parsing of a command line succeeds, every required parameter has been set, and the
  parameters are the ones of the template: none was added, dropped, renamed or unset.
\<close>

theorem required_parameters_set:
  assumes "process_command_line help raw t = (Inr (), t')"
  shows "same_template t t' \<and> (\<forall>p \<in> set t'. p_required p \<longrightarrow> p_isSet p)"
  using assms process_command_line_keeps [of t "help" raw] process_command_line_required [OF assms] by simp

definition port_parameter :: parameter where
  "port_parameter = parameter_new (Int_value 0) Int_ref ''port'' (Some (CHR ''p'')) True ''The port.''"

theorem required_parameters_set_witness:
  "\<exists>p. process_command_line ''help'' [''--port'', ''8''] [port_parameter] = (Inr (), [p]) \<and> p_isSet p \<and> p_value p = Int_value 8"
proof -
  let ?p = "port_parameter\<lparr>p_value := Int_value 8, p_isSet := True\<rparr>"
  have run: "process_command_line ''help'' [''--port'', ''8''] [port_parameter] = (Inr (), [?p])"
    by code_simp
  have "p_required ?p" by (simp add: port_parameter_def parameter_new_def)
  with required_parameters_set [OF run] run show ?thesis by auto
qed

section \<open>Watching the node\<close>

lemma get_block_template_wf:
  "get_block_template r = (Inr t, r') \<Longrightarrow> wf_hash (bt_previousBlockHash t) \<and> wf_hash (bt_miningTarget t)"
  by (auto simp: get_block_template_def Let_def dest: read_block_template_wf
      split: prod.splits sum.splits option.splits)

definition stratum_state_ok :: "'j daemon \<Rightarrow> bool" where
  "stratum_state_ok d \<longleftrightarrow>
     (\<forall>sv. dm_stratum d = Some sv \<longrightarrow> state_ok (gi_networkState (sv_information sv)))"

lemma keeps_poll: "keeps stratum_state_ok (poll sha256d now :: ('j daemon, unit) op)"
proof -
  have "stratum_state_ok (snd (poll sha256d now d))" if d: "stratum_state_ok d" for d :: "'j daemon"
  proof -
    obtain q r where run: "get_block_template (dm_rpc d) = (q, r)" by fastforce
    show ?thesis
    proof (cases q)
      case (Inl e)
      with run d show ?thesis by (simp add: poll_def stratum_state_ok_def)
    next
      case (Inr t)
      with run have "wf_hash (bt_previousBlockHash t) \<and> wf_hash (bt_miningTarget t)"
        by (intro get_block_template_wf) simp
      then have "state_ok (template_network_state now t)" by (simp add: template_network_state_def)
      with run d Inr show ?thesis
        by (auto simp: poll_def Let_def update_stratum_server_def server_update_network_state_def
            generation_information_new_def stratum_state_ok_def split: option.splits)
    qed
  qed
  then show ?thesis by (simp add: keeps_def)
qed

lemma keeps_poller_main: "keeps stratum_state_ok (poller_main sha256d nows :: ('j daemon, unit) op)"
proof (induction nows)
  case Nil
  then show ?case by (simp add: keeps_def)
next
  case (Cons now nows)
  have "poller_main sha256d (now # nows) = op_bind (poll sha256d now) (\<lambda>_. poller_main sha256d nows)"
    by (rule ext) simp
  with Cons keeps_poll show ?case by auto
qed

lemma bring_up_cases:
  assumes "pool_bring_up sha256d now created hasher configuration r = Inr d"
  obtains h t r' thr where "hasher = Inr h" "get_block_template r = (Inr t, r')" "thread_new created = Inr thr"
    "d = \<lparr>dm_rpc = r', dm_poller = poller_new, dm_pollerThread = thread_start thr,
      dm_stratum = Some (server_new sha256d h (cf_coinbaseSignature configuration) (template_network_state now t))\<rparr>"
proof -
  obtain g r' where run: "get_block_template r = (g, r')" by fastforce
  obtain thr h where t: "thread_new created = Inr thr" "hasher = Inr h"
    using assms by (auto simp: pool_bring_up_def daemon_new_def rbind_eq_Inr)
  with assms run obtain t where "g = Inr t"
    by (cases g) (auto simp: pool_bring_up_def daemon_new_def stratum_initializer_def get_network_state_def)
  with assms run t that show ?thesis
    by (simp add: pool_bring_up_def daemon_new_def stratum_initializer_def get_network_state_def register_update_notifications_for_def)
qed


definition node_result :: jtree where
  "node_result = JObject
     [(''transactions'', JArray []), (''version'', JInt 2), (''height'', JInt 7),
      (''previousblockhash'', JString (as_hex (replicate 32 1))),
      (''default_witness_commitment'', JString (as_hex [1, 2])), (''coinbasevalue'', JUint 100),
      (''target'', JString (as_hex (replicate 32 9))), (''bits'', JString (as_hex (u32_mem 5))),
      (''mintime'', JInt 3)]"

definition some_node :: "jtree rpc" where
  "some_node = \<lparr>rpc_json = tree_api\<lparr>j_parse := \<lambda>_. Inr (JObject [(''result'', node_result)])\<rparr>, rpc_authkey = '''', rpc_connected = True,
     rpc_exchange = (\<lambda>_. crlf @ crlf), rpc_counter = 0\<rparr>"

lemma some_payload: "rpc_payload some_node m ps = (Inr (Some node_result), some_node\<lparr>rpc_counter := 1\<rparr>)"
proof -
  have "strstr (c_string (crlf @ crlf)) (crlf @ crlf) = Some (crlf @ crlf)" by code_simp
  then show ?thesis
    by (simp add: rpc_payload_def rpc_send_and_receive_def some_node_def j_contains_def j_index_def
        tree_api_def Let_def) (simp add: node_result_def)
qed

lemma some_template: "\<exists>t. get_block_template some_node = (Inr t, some_node\<lparr>rpc_counter := 1\<rparr>) \<and> bt_height t = 7"
  unfolding get_block_template_def Let_def some_payload
  by (simp add: read_block_template_def j_index_def rpc_field_text_def some_node_def node_result_def tree_api_def
      hash256_from_def hash_from_ref_def read_bits_def)


section \<open>The network of nodes\<close>

text \<open>
  C19. The messages a node sends, framed with header and checksum, are processed by a receiver on the
  same network, each once and in order, however the stream is cut into packets; nothing is left in
  its buffer.
\<close>

theorem p2p_stream_delivers:
  assumes "hasher_ok h" "\<forall>m \<in> set ms. sendable m"
    and "rmap (p2p_wire magic (\<lambda>d. Inr (h d))) ms = Inr wires" "concat packets = concat wires"
    and "process_all process (map named ms) s = (Inr (), s')"
  shows "p2p_receive_all magic (\<lambda>d. Inr (h d)) process packets [] s = (Inr (), [], s')"
  using assms by (rule p2p_delivers)

definition two_messages :: "p2p_message list" where
  "two_messages = [pong_message 7 PING, getaddr_message]"

lemma two_sendable: "\<forall>m \<in> set two_messages. sendable m"
  by (simp add: two_messages_def sendable_def pong_message_def getaddr_message_def p2p_message_typed_def
      p2p_max_payload_def)

theorem p2p_stream_delivers_witness:
  "\<exists>wires. p2p_receive_all 5 (\<lambda>d. Inr (toy_hash d)) (\<lambda>m s. (Inr (), s @ [m])) [concat wires] [] [] =
     (Inr (), [], map named two_messages)"
proof -
  obtain wires where wires: "rmap (p2p_wire 5 (\<lambda>d. Inr (toy_hash d))) two_messages = Inr wires"
    using p2p_wires [OF toy_hash_ok two_sendable] by blast
  have "process_all (\<lambda>m s. (Inr (), s @ [m])) ms acc = (Inr (), acc @ ms)" for ms acc :: "p2p_message list"
    by (induction ms arbitrary: acc) (simp_all add: op_bind_def)
  from p2p_stream_delivers [OF toy_hash_ok two_sendable wires _ this, of "[concat wires]" "[]"] show ?thesis by auto
qed

section \<open>A node that lags or is gone\<close>


definition template_at :: "u32 \<Rightarrow> block_template" where
  "template_at height = \<lparr>bt_version = 1, bt_height = height, bt_previousBlockHash = hash256_zero, bt_transactions = [],
     bt_witnessCommitment = [], bt_coinbaseCoins = 100, bt_miningTarget = hash256_diff1, bt_miningTargetBits = 2,
     bt_notBefore = 3\<rparr>"


section \<open>Connections\<close>

text \<open>
  C22. Whatever connections come in, fail to be set up, end and go, every descriptor \<open>accept\<close> returned
  is held by exactly one connection or was closed exactly once, and no connection is dangling.
\<close>

theorem accepted_descriptors_owned:
  assumes "acceptor_reachable derived m"
  shows "mset (am_accepted m) = held (am_clients m) + mset (am_closed m) \<and>
    distinct (map ic_address (am_clients m)) \<and> (\<forall>c \<in> set (am_clients m). \<not> ic_dangling c)"
  using acceptor_reachable_inv [OF assms] by (simp add: acceptor_inv_def)

definition fails_second :: "nat \<Rightarrow> int" where "fails_second n = (if n = 1 then 11 else 0)"

theorem accepted_descriptors_owned_witness:
  "\<exists>m. listener_accept (accept_handler (\<lambda>_. Inr ())) 24 [7, 8, - 1] (acceptor_new fails_second) = Some (24, m) \<and>
     am_closed m = [8] \<and> held (am_clients m) = {#7#} \<and> mset (am_accepted m) = {#7, 8#}"
proof -
  obtain m where run: "listener_accept (accept_handler (\<lambda>_. Inr ())) 24 [7, 8, - 1] (acceptor_new fails_second) = Some (24, m)"
    and closed: "am_closed m = [8]" and clients: "held (am_clients m) = {#7#}"
    by (simp add: acceptor_new_def accept_handler_def add_incoming_def incoming_connection_new_def fails_second_def
        thread_new_def initialization_callback_def socket_base_move_def socket_base_new_def socket_base_close_def
        Sockets.connected_def Let_def held_def)
  from accepted_descriptors_owned [OF listener_accept_reachable [OF acceptor_reachable.start run]] run closed clients
  show ?thesis by auto
qed

text \<open>
  C28. A client whose connection was lost is connected again after any number of failed attempts, and
  a new receiver that may run stands in the place of the one that ended.
\<close>

theorem client_reconnects:
  assumes "\<not> Sockets.connected (rn_socket c)" "\<forall>fd \<in> set failed. fd < 0" "0 \<le> fd" "onReconnect s = (Inr (), s')"
  shows "\<exists>c'. reconnecting_cleanup (failed @ fd # answers) onReconnect 0 c s = Some (Inr (), c', s') \<and>
    sb_fd (rn_socket c') = fd \<and> th_state (rn_receiver c') = Running \<and> th_progress (rn_receiver c') = Blocked \<and>
    entry_lock (rn_receiver c') \<noteq> None"
  using assms by (rule reconnected)

definition lost_client :: reconnecting where
  "lost_client = \<lparr>rn_socket = socket_base_new (- 1),
     rn_receiver = \<lparr>th_state = Terminating, th_lockHeld = False, th_progress = In_cleanup, th_mains = 1\<rparr>\<rparr>"

theorem client_reconnects_witness:
  "\<exists>c'. reconnecting_cleanup [- 1, - 1, 9] (bus_on_reconnect subs_api) 0 lost_client \<lparr>bc_subscriptions = [], bc_sent = []\<rparr> =
      Some (Inr (), c', snd (bus_on_reconnect subs_api \<lparr>bc_subscriptions = [], bc_sent = []\<rparr>)) \<and>
    sb_fd (rn_socket c') = 9"
proof -
  let ?c = "\<lparr>bc_subscriptions = [], bc_sent = []\<rparr>"
  have re: "bus_on_reconnect subs_api ?c = (Inr (), snd (bus_on_reconnect subs_api ?c))"
    by (simp add: bus_on_reconnect_def broadcast_subscriptions_def client_broadcast_def message_encode_def)
  have "\<not> Sockets.connected (rn_socket lost_client)" by (simp add: lost_client_def Sockets.connected_def socket_base_new_def)
  from client_reconnects [where c = lost_client and failed = "[- 1, - 1]" and fd = 9 and answers = "[]"
      and onReconnect = "bus_on_reconnect subs_api" and s = ?c, OF this _ _ re] show ?thesis by auto
qed

lemma strstr_first:
  "\<forall>i < length header. take (length needle) (drop i (header @ needle @ body)) \<noteq> needle \<Longrightarrow> needle \<noteq> [] \<Longrightarrow>
   strstr (header @ needle @ body) needle = Some (needle @ body)"
proof (induction header)
  case Nil
  then show ?case by (cases needle) simp_all
next
  case (Cons c cs)
  have "take (length needle) (c # cs @ needle @ body) \<noteq> needle" using Cons.prems(1) by fastforce
  moreover have "\<forall>i < length cs. take (length needle) (drop i (cs @ needle @ body)) \<noteq> needle"
    using Cons.prems(1) by fastforce
  ultimately show ?case using Cons by simp
qed

text \<open>
  C29. A request goes out whole, and when the node answers with a header, an empty line and a text,
  in whatever packets, before it closes the connection, that text is what is parsed.
\<close>

theorem rpc_answer_parsed:
  assumes "Sockets.connected sock" "\<forall>len \<in> set writes. 0 < len"
    and "int (length (http_request (rpc_authkey r) (j_dump (rpc_json r) request))) \<le> sum_list writes"
    and "concat (map bytes_str packets) = header @ (crlf @ crlf) @ body"
    and "\<forall>i < length header. take 4 (drop i (header @ (crlf @ crlf) @ body)) \<noteq> crlf @ crlf"
    and "char_of (0 :: nat) \<notin> set (header @ (crlf @ crlf) @ body)"
    and "rpc_connected r" "rpc_exchange r (http_request (rpc_authkey r) (j_dump (rpc_json r) request)) =
      concat (map bytes_str packets)"
  shows "rpc_socket_exchange (str_bytes (http_request (rpc_authkey r) (j_dump (rpc_json r) request))) writes
      (map Data packets @ End_of_file # later) sock shut =
      Some (Inr (rpc_exchange r (http_request (rpc_authkey r) (j_dump (rpc_json r) request))),
        sock\<lparr>sb_fd := - 1\<rparr>, shut @ [sb_fd sock],
        str_bytes (http_request (rpc_authkey r) (j_dump (rpc_json r) request))) \<and>
    rpc_send_and_receive r request = rbind (j_parse (rpc_json r) (str_bytes body)) (\<lambda>v. Inr (Some v))"
proof -
  let ?data = "http_request (rpc_authkey r) (j_dump (rpc_json r) request)"
  have "str_bytes ?data \<noteq> []" "length (str_bytes ?data) = length ?data"
    by (simp_all add: http_request_def str_bytes_def Let_def)
  with rpc_exchange_complete [OF assms(1) _ assms(2), of "str_bytes ?data" packets later shut] assms(3,8)
  have sent: "rpc_socket_exchange (str_bytes ?data) writes (map Data packets @ End_of_file # later) sock shut =
      Some (Inr (rpc_exchange r ?data), sock\<lparr>sb_fd := - 1\<rparr>, shut @ [sb_fd sock], str_bytes ?data)" by simp
  have "c_string (header @ (crlf @ crlf) @ body) = header @ (crlf @ crlf) @ body"
    using assms(6) unfolding c_string_def by (intro takeWhile_eq_all_conv [THEN iffD2]) metis
  moreover have len4: "length (crlf @ crlf) = 4" by (simp add: crlf_def)
  have "strstr (header @ (crlf @ crlf) @ body) (crlf @ crlf) = Some ((crlf @ crlf) @ body)"
  proof (rule strstr_first)
    show "\<forall>i < length header. take (length (crlf @ crlf)) (drop i (header @ (crlf @ crlf) @ body)) \<noteq> crlf @ crlf"
      unfolding len4 by (rule assms(5))
  qed (simp add: crlf_def)
  moreover have "drop 4 ((crlf @ crlf) @ body) = body" by (simp add: crlf_def)
  ultimately have "rpc_send_and_receive r request = rbind (j_parse (rpc_json r) (str_bytes body)) (\<lambda>v. Inr (Some v))"
    using assms(4,7,8) by (simp add: rpc_send_and_receive_def Let_def)
  with sent show ?thesis by blast
qed

theorem rpc_answer_parsed_witness:
  "rpc_send_and_receive (some_node\<lparr>rpc_exchange := \<lambda>_. ''HTTP'' @ crlf @ crlf @ ''{}''\<rparr>) JNull =
     Inr (Some (JObject [(''result'', node_result)]))"
proof -
  let ?r = "some_node\<lparr>rpc_exchange := \<lambda>_. ''HTTP'' @ (crlf @ crlf) @ ''{}''\<rparr>"
  let ?n = "int (length (http_request (rpc_authkey ?r) (j_dump (rpc_json ?r) JNull)))"
  have split: "concat (map bytes_str [str_bytes ''HTTP'', str_bytes ((crlf @ crlf) @ ''{}'')]) = ''HTTP'' @ (crlf @ crlf) @ ''{}''"
    by simp
  have sep: "\<forall>i < length ''HTTP''. take 4 (drop i (''HTTP'' @ (crlf @ crlf) @ ''{}'')) \<noteq> crlf @ crlf"
    "char_of (0 :: nat) \<notin> set (''HTTP'' @ (crlf @ crlf) @ ''{}'')"
    by code_simp+
  have node: "rpc_connected ?r" "rpc_exchange ?r d = ''HTTP'' @ (crlf @ crlf) @ ''{}''"
    "j_parse (rpc_json ?r) b = Inr (JObject [(''result'', node_result)])" for d b
    by (simp_all add: some_node_def)
  have "0 < ?n" by (simp add: http_request_def Let_def)
  then have writes: "\<forall>len \<in> set [?n]. 0 < len" "?n \<le> sum_list [?n]" by simp_all
  have sock: "Sockets.connected \<lparr>sb_fd = 3\<rparr>" by (simp add: Sockets.connected_def)
  have exchange: "rpc_exchange ?r (http_request (rpc_authkey ?r) (j_dump (rpc_json ?r) JNull)) =
      concat (map bytes_str [str_bytes ''HTTP'', str_bytes ((crlf @ crlf) @ ''{}'')])"
    unfolding split by (rule node(2))
  from rpc_answer_parsed [OF sock writes split sep node(1) exchange] node(3) show ?thesis by simp
qed

end
