(* ===== verification/Crawler_Properties.thy ===== *)
theory Crawler_Properties
  imports Instances CrawlRun
begin

text \<open>
  Properties of the crawler: what a node answers its peer, and which nodes a run of the crawler finds.
\<close>

section \<open>A node and its peer\<close>

text \<open>
  C35. A node that has connected answers its peer, however what the peer sends is cut into packets: a
  version is acknowledged, the acknowledgement of its own version makes the node count as connected
  and is answered by asking for addresses, a ping by a pong with the same nonce and a ping of its own.
  What it has sent is its version and these answers in order, and the addresses it was told are queued
  in order. Address messages have at most 252 entries here, as with more the loop reads past the end.
\<close>

theorem node_answers_peer:
  assumes "hasher_ok h" "list_all peer_ok ps"
    and "p2p_connect (\<lambda>d. Inr (h d)) random now True host port magic = Inr c"
    and "rmap (p2p_wire (pc_magic c) (\<lambda>d. Inr (h d))) (map peer_sends ps) = Inr wires" "concat packets = concat wires"
  shows "\<exists>n. p2p_receive_all (pc_magic c) (\<lambda>d. Inr (h d)) node_process_message packets []
      \<lparr>cn_connection = c, cn_parentQueue = q\<rparr> = (Inr (), [], n) \<and>
    rmap (p2p_wire (pc_magic c) (\<lambda>d. Inr (h d))) (version_message now 70016 # node_answers random 0 ps) =
      Inr (pc_sent (cn_connection n)) \<and>
    (pc_connected (cn_connection n) \<longleftrightarrow> Peer_verack \<in> set ps) \<and>
    q_items (cn_parentQueue n) = q_items q @ concat (map addresses_in ps)"
proof -
  let ?n = "\<lparr>cn_connection = c, cn_parentQueue = q\<rparr>"
  note c = p2p_connect_Inr [OF assms(3)]
  then have sha: "pc_sha256d (cn_connection ?n) = (\<lambda>d. Inr (h d))" by simp
  obtain n vs where run: "process_all node_process_message (map (named \<circ> peer_sends) ps) ?n = (Inr (), n)"
    and n: "answered h (node_answers random 0 ps) vs ?n n"
    "pc_connected (cn_connection n) \<longleftrightarrow> Peer_verack \<in> set ps"
    "q_items (cn_parentQueue n) = q_items q @ concat (map addresses_in ps)"
    using node_answers_all [OF assms(1,2) sha] c by auto
  have sendable: "\<forall>m \<in> set (map peer_sends ps). sendable m" using assms(2) peer_sendable by (auto simp: list_all_iff)
  have "process_all node_process_message (map named (map peer_sends ps)) ?n = (Inr (), n)" using run by simp
  from p2p_delivers [OF assms(1) sendable assms(4,5) this] n c show ?thesis by (auto simp: answered_def)
qed

definition some_addr :: addr_record where
  "some_addr = \<lparr>ar_time = 1, ar_services = 1, ar_ip = ipv4_prefix @ [10, 0, 0, 1], ar_port = 2812\<rparr>"

lemma wf_some_addr: "wf_addr some_addr"
  by (simp add: some_addr_def wf_addr_def ipv4_prefix_def)

definition some_peer :: "peer_message list" where
  "some_peer = [Peer_version [1, 2], Peer_verack, Peer_ping 7, Peer_addresses [some_addr]]"

theorem node_answers_peer_witness:
  "\<exists>c wires n. p2p_connect (\<lambda>d. Inr (toy_hash d)) (\<lambda>_. 5) 9 True ''host'' 1 [1, 2, 3, 4] = Inr c \<and>
     p2p_receive_all (pc_magic c) (\<lambda>d. Inr (toy_hash d)) node_process_message [concat wires] []
       \<lparr>cn_connection = c, cn_parentQueue = queue_new\<rparr> = (Inr (), [], n) \<and>
     pc_connected (cn_connection n) \<and> length (pc_sent (cn_connection n)) = 5 \<and> map snd (q_items (cn_parentQueue n)) = [2812]"
proof -
  have ok: "list_all peer_ok some_peer" using wf_some_addr by (simp add: some_peer_def p2p_max_payload_def)
  then have sendable: "\<forall>m \<in> set (map peer_sends some_peer). sendable m" using peer_sendable by (auto simp: list_all_iff)
  have "sendable (version_message 9 70016)"
    by (simp add: version_message_def sendable_def p2p_message_typed_def p2p_max_payload_def Let_def)
  then obtain w where "p2p_wire (mem_u32 [1, 2, 3, 4]) (\<lambda>d. Inr (toy_hash d)) (version_message 9 70016) = Inr w"
    using p2p_wires [OF toy_hash_ok, of "[version_message 9 70016]"] by (auto simp: rbind_eq_Inr)
  then obtain c where c: "p2p_connect (\<lambda>d. Inr (toy_hash d)) (\<lambda>_. 5) 9 True ''host'' 1 [1, 2, 3, 4] = Inr c"
    by (simp add: p2p_connect_def send_version_def p2p_send_def Let_def)
  obtain wires where wires: "rmap (p2p_wire (pc_magic c) (\<lambda>d. Inr (toy_hash d))) (map peer_sends some_peer) = Inr wires"
    using p2p_wires [OF toy_hash_ok sendable] by blast
  obtain n where n: "p2p_receive_all (pc_magic c) (\<lambda>d. Inr (toy_hash d)) node_process_message [concat wires] []
       \<lparr>cn_connection = c, cn_parentQueue = queue_new\<rparr> = (Inr (), [], n)"
    and sent: "rmap (p2p_wire (pc_magic c) (\<lambda>d. Inr (toy_hash d))) (version_message 9 70016 # node_answers (\<lambda>_. 5) 0 some_peer) =
      Inr (pc_sent (cn_connection n))"
    and rest: "pc_connected (cn_connection n) \<longleftrightarrow> Peer_verack \<in> set some_peer"
      "q_items (cn_parentQueue n) = q_items queue_new @ concat (map addresses_in some_peer)"
    using node_answers_peer [OF toy_hash_ok ok c wires, of "[concat wires]" queue_new] by auto
  have "length ys = length xs" if "rmap f xs = Inr ys" for f :: "p2p_message \<Rightarrow> bytes res" and xs ys
    using that by (induction xs arbitrary: ys) (auto simp: rbind_eq_Inr)
  from this [OF sent] have "length (pc_sent (cn_connection n)) = 5" by (simp add: some_peer_def)
  moreover have "pc_connected (cn_connection n)" "map snd (q_items (cn_parentQueue n)) = [2812]"
    using rest by (simp_all add: some_peer_def queue_new_def addr_event_def some_addr_def)
  ultimately show ?thesis using c n by (intro exI [of _ c] exI [of _ wires] exI [of _ n] conjI)
qed

section \<open>A run\<close>

text \<open>
  C23. Whatever the workers and the connections of the crawler do at the same time, and whatever bytes the
  peers send, the crawler searches: no node is in the vector twice, every node in it can be reached
  from the first one by what nodes have told, only nodes in it have told anything, and when no node is
  waiting in the queue or with a worker, the vector has all that can be reached.
\<close>

theorem crawler_searches:
  assumes "crawl_reachable grow connect home s"
  shows "distinct (map node_address (nv_nodes (cw_vector s))) \<and>
    visited s \<subseteq> (cw_told s)\<^sup>* `` {home} \<and> fst ` cw_told s \<subseteq> visited s \<and>
    (messages_waiting (cw_queue s) = 0 \<and> (\<forall>w event. cw_workers s w \<noteq> Taken event) \<longrightarrow>
       visited s = (cw_told s)\<^sup>* `` {home})"
proof -
  have inv: "crawl_inv home s" by (rule crawl_reachable_inv [OF assms])
  then have "visited s \<subseteq> (cw_told s)\<^sup>* `` {home}" unfolding crawl_inv_def known_def by blast
  with inv search_complete [OF inv] show ?thesis by (simp add: crawl_inv_def nodes_inv_def)
qed

definition some_connection :: p2p_connection where
  "some_connection = \<lparr>pc_host = ''host'', pc_port = 1, pc_magic = 7, pc_sha256d = (\<lambda>d. Inr (toy_hash d)),
     pc_random = (\<lambda>_. 5), pc_drawn = 0, pc_connected = False, pc_sent = []\<rparr>"

definition always_connects :: "string \<Rightarrow> u16 \<Rightarrow> p2p_connection res" where
  "always_connects host port = Inr some_connection"

definition doubling :: "nat \<Rightarrow> nat" where "doubling n = (if n = 0 then 1 else 2 * n)"

theorem crawler_searches_witness:
  "\<exists>s. crawl_reachable doubling always_connects (''home'', 1) s \<and>
     cw_told s = {((''home'', 1), addr_event some_addr)} \<and> visited s = {(''home'', 1), addr_event some_addr} \<and>
     visited s = (cw_told s)\<^sup>* `` {(''home'', 1)}"
proof -
  let ?home = "(''home'', 1) :: node_event" and ?e = "addr_event some_addr"
  have ok: "list_all peer_ok [Peer_addresses [some_addr]]" using wf_some_addr by simp
  have c: "pc_sha256d some_connection = (\<lambda>d. Inr (toy_hash d))"
    "always_connects (fst ?home) (snd ?home) = Inr some_connection" "doubling 0 = 1"
    by (simp_all add: some_connection_def always_connects_def doubling_def)
  obtain s where s: "crawl_reachable doubling always_connects ?home s" "q_items (cw_queue s) = [?e]"
    "cw_workers s = (\<lambda>_. Waiting)" "map node_address (nv_nodes (cw_vector s)) = [?home]" "cw_told s = {?home} \<times> {?e}"
    using first_node_tells [where grow = doubling and connect = always_connects and home = ?home, OF toy_hash_ok ok c] by auto
  obtain s1 where s1: "crawl_reachable doubling always_connects ?home s1" "q_items (cw_queue s1) = []"
    "cw_workers s1 = (\<lambda>_. Waiting)(0 := Taken ?e)" "cw_vector s1 = cw_vector s" "cw_told s1 = {?home} \<times> {?e}"
    using run_takes [OF s(1), of 0] s by auto
  have "?e \<noteq> ?home" by (simp add: addr_event_def some_addr_def)
  then have new: "?e \<notin> visited s1" using s(4) s1(4) by (auto simp: visited_nodes simp del: set_map)
  obtain p v where add: "add_connection doubling (fst ?e) (snd ?e) (cw_vector s1) = (p, v)" by fastforce
  then have v: "nv_nodes v = nv_nodes (cw_vector s) @ [holder_new (fst ?e) (snd ?e)]"
    by (auto simp: add_connection_def emplace_back_def Let_def s1(4))
  obtain s2 where s2: "crawl_reachable doubling always_connects ?home s2" "q_items (cw_queue s2) = []"
    "cw_workers s2 = (\<lambda>_. Waiting)(0 := Connecting p)" "cw_vector s2 = v" "cw_told s2 = {?home} \<times> {?e}"
    using run_reserves [OF s1(1) _ _ new add, of 0] s1 by auto
  have visited: "visited s2 = {?home, ?e}"
    using s(4) v s2(4) by (auto simp: visited_nodes node_address_def simp del: set_map)
  have "messages_waiting (cw_queue s2) = 0" "\<forall>w event. cw_workers s2 w \<noteq> Taken event"
    using crawl_reachable_inv [OF s2(1)] s2(2,3) by (simp_all add: crawl_inv_def queue_ok_def messages_waiting_def)
  then have "visited s2 = (cw_told s2)\<^sup>* `` {?home}" using crawler_searches [OF s2(1)] by blast
  with s2(1,5) visited show ?thesis by (intro exI [of _ s2]) simp
qed

text \<open>
  C33. The pointer to a new node is used after the lock on the vector has been released: when two
  workers take nodes at the same time, a node of the second one moves the vector (here one that doubles when
  it is full), and the first one connects through a pointer into memory that is no longer the vector's.
\<close>

theorem node_pointer_dangles:
  assumes "hasher_ok h" "pc_sha256d c = (\<lambda>d. Inr (h d))" "connect (fst home) (snd home) = Inr c"
    and "grow 0 = 1" "grow 1 = 2" "list_all wf_addr [a, b]" "distinct [home, addr_event a, addr_event b]"
  shows "\<exists>s p. crawl_reachable grow connect home s \<and> cw_workers s 0 = Connecting p \<and>
    fst (holder_connect connect p (cw_vector s)) = Inl (Undefined ''dangling holder'')"
  using assms by (rule pointer_dangles)

definition other_addr :: addr_record where "other_addr = some_addr\<lparr>ar_port := 2813\<rparr>"

theorem node_pointer_dangles_witness:
  "\<exists>s p. crawl_reachable doubling always_connects (''home'', 1) s \<and> cw_workers s 0 = Connecting p \<and>
    fst (holder_connect always_connects p (cw_vector s)) = Inl (Undefined ''dangling holder'')"
proof (rule node_pointer_dangles [OF toy_hash_ok])
  show "list_all wf_addr [some_addr, other_addr]"
    using wf_some_addr by (simp add: other_addr_def wf_addr_def)
  show "distinct [(''home'', 1), addr_event some_addr, addr_event other_addr]"
    by (simp add: addr_event_def some_addr_def other_addr_def)
qed (simp_all add: some_connection_def always_connects_def doubling_def)

end
