(* ===== verification/Spec2Isabelle.thy ===== *)
theory Spec2Isabelle
  imports Mining_Properties Stratum_Properties Run_Properties Bus_Properties Network_Properties Crawler_Properties
begin

text \<open>
  A model of the freshgrlc mining pool and what makes it correct.

  The program is a stratum pool server (\<open>pool/\<close>) on a library (\<open>lib/\<close>), a relay for a message bus
  (\<open>mbus-relayd/\<close>) with a client to try it out (\<open>utils/mbus-test/\<close>), and a network crawler
  (\<open>utils/crawler/\<close>). A full node is polled over RPC for a
  template of the next block; the pool makes a coinbase transaction for it and sends each miner a
  job; a miner's solution is judged by its hash, counted as a share, and submitted to the node as a
  block when the hash is below the target of the network.

  Conventions. A C++ integer is a word of its width, and arithmetic wraps. Bytes are \<open>u8 list\<close>,
  \<open>std::string\<close> a HOL string. A call that may throw returns \<open>'a res\<close>, an exception (\<open>exn\<close>) or a value;
  a method that changes its object and may throw is \<open>('s, 'a) op\<close>. Undefined behaviour (an index out
  of range, a null or dangling pointer) is the exception \<open>Undefined\<close>: a branch on which nothing is
  promised. A loop or recursion that need not end is a \<open>partial_function (option)\<close>: \<open>None\<close> is that it
  does not return. No fuel is used but for loops that go on as long as the program: \<open>worker_main\<close> is
  bounded by the number of messages to handle, \<open>work_updater_main\<close> and \<open>poller_main\<close> by the list of the
  times at which they run, and what is proved holds for every bound. Memory is little-endian, as the
  code assumes. What a lock protects is one step; theory Locks shows for the queue why that is enough.
  Where threads interleave there is a step relation. What a method logs is left out, but for the client of
  \<open>utils/mbus-test\<close>, which does nothing else.

  Parameters. Not under \<open>src/\<close>, and so arguments of the definitions: SHA-256 and scrypt (\<open>hash_plugin\<close>,
  \<open>sha256d\<close>), SHA-1, base64, the clock, the JSON library (\<open>json_api\<close> in theory Json), the answers of
  the kernel (\<open>read\<close>, \<open>write\<close>, \<open>accept\<close>, \<open>bind\<close>, \<open>connect\<close>, \<open>pthread_create\<close>), and the node. What a
  property needs of them is in its hypotheses: \<open>hasher_ok\<close> (a hash has 32 bytes), \<open>json_reads\<close>,
  \<open>json_subscriptions\<close> and \<open>json_messages\<close> (text that was written is read back). Theory Instances has a JSON library of trees and a toy hash on which they hold.

  The theories, in the order they build on each other:

  Prelude: widths, failures, operations with state, integers in memory. ByteStrings: \<open>ByteString\<close>,
  \<open>ConstByteStringRef\<close> and \<open>ByteStringReader\<close> of \<open>lib/util\<close>, with the locale \<open>codec\<close> of a reader and
  a writer. Doubles: the \<open>double\<close> arithmetic of the difficulties, with rounding to 53 bits.

  The library of mining, \<open>lib/mining\<close>. Hashes: \<open>Hash256\<close>, \<open>Hash160\<close>, their order, the quotient of two
  targets. TxScript: the pushes of a script. Coinbase: variable-size integers, outputs and their
  balancing (\<open>CoinbaseOutputs\<close>), the coinbase transaction. Merkle: \<open>MerkleRoot\<close>, \<open>MerkleBranch\<close>, with
  the tree of the protocol as the specification. Blocks: \<open>BlockHeader\<close>, the hash plugins.

  The stratum server, \<open>lib/stratum\<close>. Jobs: \<open>NetworkState\<close>, \<open>BlockGenerationInformation\<close>, \<open>StratumJob\<close>
  with \<open>check_solution\<close>, and the header a miner is to hash as a specification. Clients:
  \<open>StratumClientConnection\<close>, \<open>JobManager::createJob\<close>, the invariant \<open>session_inv\<close> of a client and its
  manager. Calls: the messages of \<open>calls/\<close> and \<open>onReceive\<close>. Pools: \<open>JobManager\<close>, \<open>Pool\<close> with its queue of
  work and the worker behind it, \<open>StratumServer\<close>. Interleaving: a pool while it runs, the threads of its
  connections and its worker at the same time, a step (\<open>run_step\<close>) for what is done under one lock;
  \<open>sendJob\<close> and \<open>mining.subscribe\<close> are taken apart there, and shown to be the operations of Clients and
  Calls when nothing comes in between. At this commit no code puts a connection into a pool
  or a pool into the server; the properties on jobs are about connections that are in one, and
  one on new connections says what the program does as it stands.

  Threads, sockets, messages. Sync: \<open>Queue.h\<close>, \<open>WorkerThread.h\<close>, \<open>Thread\<close> and the log level, with
  the step relations \<open>traffic_step\<close> (producers and consumers of a queue) and \<open>thread_step\<close>, and
  the locale \<open>fifo\<close>. Locks: \<open>Lock\<close>, and the queue taken apart into its statements (\<open>locked_step\<close>),
  which \<open>traffic_step\<close> simulates. LockOrder: the locks the methods of the pool and of the relay
  take, one inside the other, and their order. Sockets: \<open>lib/socket\<close>, with the locale \<open>framing\<close>
  for the parsers of streams, which MessageBus and P2P interpret. MessageBus: \<open>lib/messagebus\<close>.
  Relay: \<open>mbus-relayd\<close>. TestClient: \<open>utils/mbus-test\<close>. BusNetwork: clients, relay and workers with
  the streams between them (\<open>bus_step\<close>), and the specification they implement, a log of handled
  packets (\<open>explains\<close>). CommandLine: \<open>CommandLineArguments\<close>. Rpc: \<open>lib/bitcoinrpc\<close>. Poller:
  \<open>BlockTemplatePoller\<close> and \<open>DaemonConnector\<close> of \<open>pool/\<close>. P2P: \<open>lib/bitcoinp2p\<close>. Crawler:
  \<open>utils/crawler\<close>, and what a node answers its peer (\<open>node_answers\<close>). CrawlRun: the crawler while
  it runs (\<open>crawl_step\<close>), its workers, queue, vector and connections; the specification is a
  search of the graph of which node has told of which. Connections: listening, accepting,
  connecting and reconnecting of \<open>lib/socket\<close>, with \<open>acceptor_step\<close> for the connections of a
  manager. Programs: the parameters, the setup and the main of the three programs (\<open>pool/main.cpp\<close>,
  \<open>mbus-relayd/main.cpp\<close>, \<open>utils/crawler/main.cpp\<close>).

  The properties: those below are on the miner, the pool and the node together.
  Stratum_Properties: shares, blocks, jobs and updates of the work. Run_Properties: what holds of
  a running pool under every interleaving, two runs that go wrong, and that no thread waits for
  ever for a lock. Mining_Properties: balancing, trees, encodings, arithmetic. Bus_Properties:
  what reaches the clients of the bus, and what a broken connection does. Network_Properties:
  queues, sockets, framing, command lines, the node. Crawler_Properties: what a node of the
  crawler answers, what the crawler finds, and the pointer that dangles.

  Not modelled: text that is only logged, and pauses; what system calls
  do, of which the answers are parameters; dynamic loading of plugins; the arithmetic of the hash
  functions, which the plugins take from other libraries; in BusNetwork, clients that leave.
\<close>

section \<open>The miner and the pool\<close>

text \<open>
  C1. The miner and the pool hash the same block: the 80 bytes a miner lays out from the parameters
  of \<open>mining.notify\<close> and its nonces are the header the pool checks when these nonces come back.
\<close>

theorem miner_and_pool_agree:
  assumes "json_reads api" and "hasher_ok sha256d"
    and "wf_hash (ns_previousBlock (job_state job))" and "job_coinbase job = Some tx"
    and "job_to_json api force job = Inr params"
  shows "miner_header api sha256d params (u32_mem n1) (u32_mem n2) (rev (u32_mem time)) (rev (u32_mem nonce)) =
    Inr (header_mem (solution_header sha256d (job_information job) (solution_coinbase tx n1 n2) time nonce))"
  using assms by (rule miner_header_of_job)

theorem miner_and_pool_agree_witness:
  "\<exists>params. job_to_json tree_api True some_job = Inr params \<and>
     miner_header tree_api toy_hash params (u32_mem 1) (u32_mem 2) (rev (u32_mem 3)) (rev (u32_mem 4)) =
     Inr (header_mem (solution_header toy_hash some_info (solution_coinbase some_tx 1 2) 3 4))"
proof -
  have job: "job_coinbase some_job = Some some_tx" "job_information some_job = some_info"
    by (simp_all add: some_job_def stratum_job_new_def Let_def)
  have prev: "wf_hash (ns_previousBlock (job_state some_job))"
    by (simp add: job some_info_def generation_information_new_def network_state_not_before_def)
  obtain params where p: "job_to_json tree_api True some_job = Inr params"
    by (simp add: job_to_json_def job_tx_def job)
  from miner_and_pool_agree [OF tree_api_reads toy_hash_ok prev job(1) p] p job show ?thesis by auto
qed

section \<open>The miner and the node\<close>

text \<open>The root in the header of a solution is that of the block's transactions, when the branch was made for them.\<close>

lemma solution_root:
  assumes "hasher_ok sha"
    and "gi_merkleBranch info = first_branch sha (placeholder # map txid (gi_transactions info))"
  shows "hdr_merkleRootHash (solution_header sha info tx time nonce) =
    raw256 (tree_root sha (sha tx # map txid (gi_transactions info)))"
proof -
  let ?txs = "map txid (gi_transactions info)"
  have root: "branch_get_root sha (gi_merkleBranch info) (sha tx) = tree_root sha (sha tx # ?txs)"
    unfolding assms(2) branch_get_root_def first_branch_leaf [of sha placeholder _ "sha tx"]
    by (rule branch_of_first_leaf)
  have "wf_hash (branch_get_root sha (gi_merkleBranch info) (sha tx))"
    using assms(1) by (simp add: branch_get_root_def branch_wf)
  then have "length (raw256 (tree_root sha (sha tx # ?txs))) = 32" by (simp add: root wf_hash_def)
  then show ?thesis by (simp add: solution_header_def header_new_def Let_def root)
qed

lemma block_submitter_answered:
  assumes "hasher_ok sha" "wf_header (sub_header block)"
    and "rpc_payload (dm_rpc d) ''submitblock'' (j_init (rpc_json (dm_rpc d)) [j_string (rpc_json (dm_rpc d))
           (as_hex (serialize_block (sub_header block) (sub_coinbase block) (sub_transactions block)))]) = (Inr result, r)"
  shows "block_submitter sha block d = (Inr (), d\<lparr>dm_rpc := r\<rparr>)"
proof -
  have "header_hash (\<lambda>d. Inr (sha d)) (sub_header block) =
      Inr (Hash256 (rev (raw256 (sha (header_mem (sub_header block))))))"
    using assms(1,2) by (intro header_hash_ok) auto
  with assms(3) show ?thesis by (simp add: block_submitter_def submit_block_def Let_def)
qed


definition node_daemon :: "jtree daemon" where
  "node_daemon = \<lparr>dm_rpc = some_node, dm_poller = poller_new,
     dm_pollerThread = \<lparr>th_state = Failed_to_start, th_lockHeld = True, th_progress = Not_created, th_mains = 0\<rparr>,
     dm_stratum = None\<rparr>"

abbreviation easy_block :: submission where
  "easy_block \<equiv> solved_block toy_hash easy_job some_tx 3 4 (extra_nonce1 (se_client easy_session)) 2"


end
